(* ===== verification/Prelude.thy ===== *)
theory Prelude
  imports Complex_Main "HOL-Library.AList" "HOL-Library.Multiset" "HOL-Library.List_Lexorder" "HOL-Library.Char_ord"
begin

section \<open>Python values, dictionaries and exceptions\<close>

text \<open>
  What every component of the model shares: the exceptions the code raises, the result of a
  call that may raise, dictionaries in insertion order, JSON-like plain data and the string
  operations of Python's \<open>str\<close>.

  Strings are lists of \<open>char\<close>: one \<open>char\<close> stands for one code point, so the model covers
  text in the first 256 code points (Latin-1) and \<open>length\<close> counts what \<open>len\<close> counts.
  Python's floats are exact reals: comparisons and arithmetic are those of the code, rounding
  is not modelled.
\<close>

type_synonym pyfloat = real

subsection \<open>Exceptions and results\<close>

text \<open>
  One constructor per exception class of the program, and of the standard library where the
  code relies on it. \<open>External\<close> is any exception of code outside \<open>src/\<close> (an embedding model,
  a database client, an LLM client, a tool implementation).
\<close>

datatype exn =
    UnregisteredToolError string
  | DuplicateRegistrationError string
  | UnregisteredSchemaError string
  | CircuitOpenError
  | UnknownApprovalRequestError string
  | ApprovalAlreadyDecidedError string
  | UnknownSessionError string
  | MissingConfigError string
  | InsufficientSampleSizeError int
  | InsufficientDataForPSIError
  | HTTPException nat
  | ValueError
  | JSONDecodeError
  | TypeError
  | AttributeError
  | PyKeyError string
  | PyIndexError
  | ZeroDivisionError
  | External string

type_synonym 'a result = "exn + 'a"

definition res_bind :: "'a result \<Rightarrow> ('a \<Rightarrow> 'b result) \<Rightarrow> 'b result" where
  "res_bind r f = (case r of Inl e \<Rightarrow> Inl e | Inr a \<Rightarrow> f a)"

lemma res_bind_simps [simp]:
  "res_bind (Inl e) f = Inl e"
  "res_bind (Inr a) f = f a"
  by (simp_all add: res_bind_def)

lemma res_bind_eq_Inr: "res_bind r f = Inr b \<longleftrightarrow> (\<exists>a. r = Inr a \<and> f a = Inr b)"
  by (cases r) auto

lemma res_bind_eq_Inl: "res_bind r f = Inl e \<longleftrightarrow> r = Inl e \<or> (\<exists>a. r = Inr a \<and> f a = Inl e)"
  by (cases r) auto

text \<open>
  \<open>[f(x) for x in xs]\<close> where \<open>f\<close> may raise: the first exception ends the comprehension.
\<close>

fun res_map :: "('a \<Rightarrow> 'b result) \<Rightarrow> 'a list \<Rightarrow> 'b list result" where
  "res_map f [] = Inr []"
| "res_map f (x # xs) = res_bind (f x) (\<lambda>y. res_bind (res_map f xs) (\<lambda>ys. Inr (y # ys)))"

lemma res_map_eq_Inr: "res_map f xs = Inr ys \<longleftrightarrow> list_all2 (\<lambda>x y. f x = Inr y) xs ys"
  by (induction xs arbitrary: ys) (auto simp: res_bind_eq_Inr list_all2_Cons1)

lemma res_map_eq_Inl: "res_map f xs = Inl e \<Longrightarrow> \<exists>x \<in> set xs. f x = Inl e"
  by (induction xs) (auto simp: res_bind_eq_Inl)

lemma res_map_Inr: "(\<And>x. x \<in> set xs \<Longrightarrow> f x = Inr (g x)) \<Longrightarrow> res_map f xs = Inr (map g xs)"
  by (induction xs) auto

text \<open>Statements that may raise, over a state: an exception keeps the state reached so far.\<close>

definition st_bind :: "'a result \<times> 'w \<Rightarrow> ('a \<Rightarrow> 'w \<Rightarrow> 'b result \<times> 'w) \<Rightarrow> 'b result \<times> 'w" where
  "st_bind x f = (case x of (Inl e, w) \<Rightarrow> (Inl e, w) | (Inr a, w) \<Rightarrow> f a w)"

lemma st_bind_simps [simp]:
  "st_bind (Inl e, w) f = (Inl e, w)"
  "st_bind (Inr a, w) f = f a w"
  by (simp_all add: st_bind_def)

subsection \<open>Dictionaries\<close>

text \<open>
  A \<open>dict\<close> is its list of items in insertion order with distinct keys. Assigning to a key
  that is present keeps its place, a new key goes to the end: that is \<open>AList.update\<close>.
\<close>

type_synonym ('k, 'v) dict = "('k \<times> 'v) list"

abbreviation dict_get :: "('k, 'v) dict \<Rightarrow> 'k \<Rightarrow> 'v option" where
  "dict_get d k \<equiv> map_of d k"

abbreviation dict_set :: "('k, 'v) dict \<Rightarrow> 'k \<Rightarrow> 'v \<Rightarrow> ('k, 'v) dict" where
  "dict_set d k v \<equiv> AList.update k v d"

text \<open>The parameters and the result of a tool call: \<open>dict[str, str]\<close>.\<close>

type_synonym params = "(string, string) dict"

definition dict_get_or :: "('k, 'v) dict \<Rightarrow> 'k \<Rightarrow> 'v \<Rightarrow> 'v" where
  "dict_get_or d k v = (case map_of d k of None \<Rightarrow> v | Some w \<Rightarrow> w)"

definition dict_keys :: "('k, 'v) dict \<Rightarrow> 'k set" where
  "dict_keys d = set (map fst d)"

definition dict_has :: "('k, 'v) dict \<Rightarrow> 'k \<Rightarrow> bool" where
  "dict_has d k \<longleftrightarrow> map_of d k \<noteq> None"

definition dict_ok :: "('k, 'v) dict \<Rightarrow> bool" where
  "dict_ok d \<longleftrightarrow> distinct (map fst d)"

text \<open>\<open>==\<close> of two dictionaries does not see the order of the items.\<close>

definition dict_eq :: "('k, 'v) dict \<Rightarrow> ('k, 'v) dict \<Rightarrow> bool" where
  "dict_eq a b \<longleftrightarrow> (\<forall>k \<in> set (map fst a @ map fst b). map_of a k = map_of b k)"

lemma dict_eq_iff: "dict_eq a b \<longleftrightarrow> map_of a = map_of b"
proof
  assume eq: "dict_eq a b"
  show "map_of a = map_of b"
  proof
    fix k
    show "map_of a k = map_of b k"
    proof (cases "k \<in> set (map fst a @ map fst b)")
      case True
      with eq show ?thesis unfolding dict_eq_def by blast
    next
      case False
      then have "map_of a k = None" and "map_of b k = None"
        by (simp_all add: map_of_eq_None_iff)
      then show ?thesis by simp
    qed
  qed
qed (simp add: dict_eq_def)

lemma dict_get_set [simp]:
  "dict_get (dict_set d k v) k' = (if k' = k then Some v else dict_get d k')"
  by (simp add: AList.update_conv')

lemma dict_ok_set [simp]: "dict_ok d \<Longrightarrow> dict_ok (dict_set d k v)"
  by (simp add: dict_ok_def AList.distinct_update)

lemma dict_ok_Nil [simp]: "dict_ok []"
  by (simp add: dict_ok_def)

lemma dict_keys_set [simp]: "dict_keys (dict_set d k v) = insert k (dict_keys d)"
  by (auto simp: dict_keys_def AList.update_keys)

lemma dict_has_keys: "dict_has d k \<longleftrightarrow> k \<in> dict_keys d"
  by (simp add: dict_has_def dict_keys_def map_of_eq_None_iff)

lemma dict_set_fresh: "k \<notin> dict_keys d \<Longrightarrow> dict_set d k v = d @ [(k, v)]"
  by (induction d) (auto simp: dict_keys_def)

lemma dict_get_None_keys: "dict_get d k = None \<longleftrightarrow> k \<notin> dict_keys d"
  by (simp add: dict_keys_def map_of_eq_None_iff)

subsection \<open>Counting in dictionaries\<close>

text \<open>
  \<open>sum(1 for r in d.values() if p(r))\<close>, and how one assignment moves it. The queue depth and
  the counters of the reports are such counts.
\<close>

definition count_values :: "('v \<Rightarrow> bool) \<Rightarrow> ('k, 'v) dict \<Rightarrow> nat" where
  "count_values p d = length (filter p (map snd d))"

lemma count_values_Nil [simp]: "count_values p [] = 0"
  by (simp add: count_values_def)

lemma count_values_fresh:
  "k \<notin> dict_keys d \<Longrightarrow> count_values p (dict_set d k v) = count_values p d + (if p v then 1 else 0)"
  by (simp add: dict_set_fresh count_values_def)

lemma count_values_set:
  "dict_get d k = Some w \<Longrightarrow>
     count_values p (dict_set d k v) + (if p w then 1 else 0)
       = count_values p d + (if p v then 1 else 0)"
  by (induction d) (auto simp: count_values_def split: if_splits)

subsection \<open>Plain JSON-like data\<close>

text \<open>
  The nested dictionaries the code stores and returns (\<open>scoring_detail\<close>, the report). An
  \<open>int\<close> and a \<open>float\<close> are kept apart, as \<open>json\<close> does.
\<close>

datatype json =
    JNull
  | JBool bool
  | JInt int
  | JFloat pyfloat
  | JStr string
  | JList "json list"
  | JDict "(string \<times> json) list"

fun json_get :: "json \<Rightarrow> string \<Rightarrow> json option" where
  "json_get (JDict d) k = map_of d k"
| "json_get _ k = None"

fun json_int :: "json \<Rightarrow> int option" where
  "json_int (JInt i) = Some i"
| "json_int _ = None"

fun json_str :: "json \<Rightarrow> string option" where
  "json_str (JStr s) = Some s"
| "json_str _ = None"

fun json_opt :: "('a \<Rightarrow> json) \<Rightarrow> 'a option \<Rightarrow> json" where
  "json_opt f None = JNull"
| "json_opt f (Some a) = f a"

text \<open>Truth of a value, and the operations that raise on a value of another type.\<close>

fun py_truthy :: "json \<Rightarrow> bool" where
  "py_truthy JNull = False"
| "py_truthy (JBool b) = b"
| "py_truthy (JInt i) = (i \<noteq> 0)"
| "py_truthy (JFloat x) = (x \<noteq> 0)"
| "py_truthy (JStr s) = (s \<noteq> [])"
| "py_truthy (JList xs) = (xs \<noteq> [])"
| "py_truthy (JDict d) = (d \<noteq> [])"

fun py_index :: "json \<Rightarrow> string \<Rightarrow> json result" where
  "py_index (JDict d) k = (case map_of d k of Some v \<Rightarrow> Inr v | None \<Rightarrow> Inl (PyKeyError k))"
| "py_index _ k = Inl TypeError"

fun py_get :: "json \<Rightarrow> string \<Rightarrow> json \<Rightarrow> json result" where
  "py_get (JDict d) k dflt = Inr (case map_of d k of Some v \<Rightarrow> v | None \<Rightarrow> dflt)"
| "py_get _ k dflt = Inl AttributeError"

fun py_iter :: "json \<Rightarrow> json list result" where
  "py_iter (JList xs) = Inr xs"
| "py_iter (JDict d) = Inr (map (\<lambda>(k, v). JStr k) d)"
| "py_iter (JStr s) = Inr (map (\<lambda>c. JStr [c]) s)"
| "py_iter _ = Inl TypeError"

subsection \<open>Strings\<close>

definition code_point :: "char \<Rightarrow> nat" where
  "code_point c = of_char c"

text \<open>The character classes of Python's \<open>str\<close> and \<open>re\<close>, on the code points below 256.\<close>

definition is_digit :: "char \<Rightarrow> bool" where
  "is_digit c \<longleftrightarrow> 48 \<le> code_point c \<and> code_point c \<le> 57"

definition is_space :: "char \<Rightarrow> bool" where
  "is_space c \<longleftrightarrow> (let n = code_point c in
     (9 \<le> n \<and> n \<le> 13) \<or> (28 \<le> n \<and> n \<le> 32) \<or> n = 133 \<or> n = 160)"

definition is_word :: "char \<Rightarrow> bool" where
  "is_word c \<longleftrightarrow> (let n = code_point c in
     (48 \<le> n \<and> n \<le> 57) \<or> (65 \<le> n \<and> n \<le> 90) \<or> n = 95 \<or> (97 \<le> n \<and> n \<le> 122)
     \<or> n = 170 \<or> n = 178 \<or> n = 179 \<or> n = 181 \<or> n = 185 \<or> n = 186
     \<or> (188 \<le> n \<and> n \<le> 190) \<or> (192 \<le> n \<and> n \<noteq> 215 \<and> n \<noteq> 247))"

definition lower_char :: "char \<Rightarrow> char" where
  "lower_char c = (let n = code_point c in
     if (65 \<le> n \<and> n \<le> 90) \<or> (192 \<le> n \<and> n \<le> 222 \<and> n \<noteq> 215) then char_of (n + 32) else c)"

definition str_lower :: "string \<Rightarrow> string" where
  "str_lower s = map lower_char s"

text \<open>\<open>sep.join(parts)\<close>, \<open>needle in text\<close>, \<open>text.strip()\<close> and \<open>text.split()\<close>.\<close>

fun str_join :: "string \<Rightarrow> string list \<Rightarrow> string" where
  "str_join sep [] = []"
| "str_join sep [x] = x"
| "str_join sep (x # y # xs) = x @ sep @ str_join sep (y # xs)"

fun starts_with :: "'a list \<Rightarrow> 'a list \<Rightarrow> bool" where
  "starts_with [] ys = True"
| "starts_with (x # xs) [] = False"
| "starts_with (x # xs) (y # ys) \<longleftrightarrow> x = y \<and> starts_with xs ys"

fun str_in :: "'a list \<Rightarrow> 'a list \<Rightarrow> bool" where
  "str_in xs [] \<longleftrightarrow> xs = []"
| "str_in xs (y # ys) \<longleftrightarrow> starts_with xs (y # ys) \<or> str_in xs ys"

lemma starts_with_iff: "starts_with xs ys \<longleftrightarrow> (\<exists>zs. ys = xs @ zs)"
  by (induction xs ys rule: starts_with.induct) auto

lemma str_in_iff: "str_in xs ys \<longleftrightarrow> (\<exists>us vs. ys = us @ xs @ vs)"
proof (induction ys)
  case Nil
  then show ?case by simp
next
  case (Cons y ys)
  show ?case (is "?L \<longleftrightarrow> ?R")
  proof
    assume ?L
    then consider "starts_with xs (y # ys)" | "str_in xs ys" by auto
    then show ?R
    proof cases
      case 1
      then obtain zs where "y # ys = [] @ xs @ zs" by (auto simp: starts_with_iff)
      then show ?thesis by blast
    next
      case 2
      with Cons.IH obtain us vs where "y # ys = (y # us) @ xs @ vs" by auto
      then show ?thesis by blast
    qed
  next
    assume ?R
    then obtain us vs where eq: "y # ys = us @ xs @ vs" by blast
    show ?L
    proof (cases us)
      case Nil
      with eq have "\<exists>zs. y # ys = xs @ zs" by simp
      then show ?thesis by (simp add: starts_with_iff)
    next
      case (Cons u us')
      with eq have "ys = us' @ xs @ vs" by simp
      with Cons.IH show ?thesis by auto
    qed
  qed
qed

definition lstrip :: "(char \<Rightarrow> bool) \<Rightarrow> string \<Rightarrow> string" where
  "lstrip p s = dropWhile p s"

definition rstrip :: "(char \<Rightarrow> bool) \<Rightarrow> string \<Rightarrow> string" where
  "rstrip p s = rev (dropWhile p (rev s))"

definition strip :: "(char \<Rightarrow> bool) \<Rightarrow> string \<Rightarrow> string" where
  "strip p s = rstrip p (lstrip p s)"

fun split_ws :: "string \<Rightarrow> string \<Rightarrow> string list" where
  "split_ws acc [] = (if acc = [] then [] else [acc])"
| "split_ws acc (c # s) =
     (if is_space c then (if acc = [] then split_ws [] s else acc # split_ws [] s)
      else split_ws (acc @ [c]) s)"

definition str_split :: "string \<Rightarrow> string list" where
  "str_split s = split_ws [] s"

text \<open>\<open>str(n)\<close> of an integer.\<close>

fun nat_str :: "nat \<Rightarrow> string" where
  "nat_str n = (if n < 10 then [char_of (48 + n)] else nat_str (n div 10) @ [char_of (48 + n mod 10)])"

declare nat_str.simps [simp del]

definition int_str :: "int \<Rightarrow> string" where
  "int_str i = (if i < 0 then ''-'' @ nat_str (nat (- i)) else nat_str (nat i))"

text \<open>
  \<open>format(x, '.3f')\<close>: the nearest multiple of a thousandth, the even one of two that are equally
  near, with the sign of \<open>x\<close>.
\<close>

definition round_half_even :: "pyfloat \<Rightarrow> int" where
  "round_half_even x = (let n = \<lfloor>x\<rfloor>; r = x - of_int n in
     if r < 1 / 2 then n else if r > 1 / 2 then n + 1 else if even n then n else n + 1)"

definition digit_str :: "nat \<Rightarrow> string" where
  "digit_str n = [char_of (48 + n mod 10)]"

definition fixed3 :: "pyfloat \<Rightarrow> string" where
  "fixed3 x = (let n = nat (round_half_even (\<bar>x\<bar> * 1000)) in
     (if x < 0 then ''-'' else []) @ nat_str (n div 1000) @ ''.''
       @ digit_str (n div 100) @ digit_str (n div 10) @ digit_str n)"

text \<open>\<open>str(b)\<close> of a bool, \<open>repr(s)\<close> of a string and \<open>str(xs)\<close> of a list of strings.\<close>

definition bool_str :: "bool \<Rightarrow> string" where
  "bool_str b = (if b then ''True'' else ''False'')"

definition hex_digit :: "nat \<Rightarrow> char" where
  "hex_digit n = char_of (if n < 10 then 48 + n else 87 + n)"

definition repr_char :: "char \<Rightarrow> char \<Rightarrow> string" where
  "repr_char quote c = (let n = code_point c in
     if c = quote \<or> n = 92 then [char_of (92 :: nat), c]
     else if n = 9 then [char_of (92 :: nat), CHR ''t'']
     else if n = 10 then [char_of (92 :: nat), CHR ''n'']
     else if n = 13 then [char_of (92 :: nat), CHR ''r'']
     else if n < 32 \<or> (127 \<le> n \<and> n \<le> 160) \<or> n = 173
     then [char_of (92 :: nat), CHR ''x'', hex_digit (n div 16), hex_digit (n mod 16)]
     else [c])"

definition repr_str :: "string \<Rightarrow> string" where
  "repr_str s = (let quote = (if char_of (39 :: nat) \<in> set s \<and> char_of (34 :: nat) \<notin> set s
       then char_of (34 :: nat) else char_of (39 :: nat) :: char)
     in [quote] @ concat (map (repr_char quote) s) @ [quote])"

definition list_str :: "string list \<Rightarrow> string" where
  "list_str xs = ''['' @ str_join '', '' (map repr_str xs) @ '']''"

text \<open>\<open>min\<close> of an empty list raises; \<open>int\<close> of a float cuts towards zero.\<close>

definition py_min :: "pyfloat list \<Rightarrow> pyfloat result" where
  "py_min xs = (case xs of [] \<Rightarrow> Inl ValueError | x # rest \<Rightarrow> Inr (fold min rest x))"

definition py_int :: "pyfloat \<Rightarrow> int" where
  "py_int x = (if 0 \<le> x then \<lfloor>x\<rfloor> else \<lceil>x\<rceil>)"

lemma py_min_eq: "xs \<noteq> [] \<Longrightarrow> py_min xs = Inr (Min (set xs))"
  by (cases xs) (simp_all add: py_min_def Min.set_eq_fold [symmetric] del: list.set)

text \<open>
  \<open>py_str frepr v\<close> is \<open>str(v)\<close> of a JSON value, where \<open>frepr\<close> writes a float (the shortest
  decimal that reads back as it, which exact reals do not have).
\<close>

fun py_repr :: "(pyfloat \<Rightarrow> string) \<Rightarrow> json \<Rightarrow> string" where
  "py_repr frepr JNull = ''None''"
| "py_repr frepr (JBool b) = bool_str b"
| "py_repr frepr (JInt i) = int_str i"
| "py_repr frepr (JFloat x) = frepr x"
| "py_repr frepr (JStr s) = repr_str s"
| "py_repr frepr (JList xs) = ''['' @ str_join '', '' (map (py_repr frepr) xs) @ '']''"
| "py_repr frepr (JDict d) =
     ''{'' @ str_join '', '' (map (\<lambda>(k, v). repr_str k @ '': '' @ py_repr frepr v) d) @ ''}''"

fun py_str :: "(pyfloat \<Rightarrow> string) \<Rightarrow> json \<Rightarrow> string" where
  "py_str frepr (JStr s) = s"
| "py_str frepr v = py_repr frepr v"

text \<open>
  \<open>json.dumps(v, sort_keys=True, separators=(',', ':'))\<close>, which escapes all but printable ASCII.
\<close>

definition dumps_char :: "char \<Rightarrow> string" where
  "dumps_char c = (let n = code_point c; bs = char_of (92 :: nat) in
     if n = 34 \<or> n = 92 then [bs, c]
     else if n = 8 then [bs, CHR ''b''] else if n = 9 then [bs, CHR ''t'']
     else if n = 10 then [bs, CHR ''n''] else if n = 12 then [bs, CHR ''f'']
     else if n = 13 then [bs, CHR ''r'']
     else if n < 32 \<or> 126 < n then [bs] @ ''u00'' @ [hex_digit (n div 16), hex_digit (n mod 16)]
     else [c])"

definition dumps_str :: "string \<Rightarrow> string" where
  "dumps_str s = [CHR 0x22] @ concat (map dumps_char s) @ [CHR 0x22]"

fun json_dumps :: "(pyfloat \<Rightarrow> string) \<Rightarrow> json \<Rightarrow> string" where
  "json_dumps frepr JNull = ''null''"
| "json_dumps frepr (JBool b) = (if b then ''true'' else ''false'')"
| "json_dumps frepr (JInt i) = int_str i"
| "json_dumps frepr (JFloat x) = frepr x"
| "json_dumps frepr (JStr s) = dumps_str s"
| "json_dumps frepr (JList xs) = ''['' @ str_join '','' (map (json_dumps frepr) xs) @ '']''"
| "json_dumps frepr (JDict d) =
     ''{'' @ str_join '','' (map snd (sort_key fst
       (map (\<lambda>(k, v). (k, dumps_str k @ '':'' @ json_dumps frepr v)) d))) @ ''}''"

text \<open>\<open>if key:\<close> of an optional string: set, and not empty.\<close>

definition key_set :: "string option \<Rightarrow> bool" where
  "key_set k \<longleftrightarrow> (case k of None \<Rightarrow> False | Some s \<Rightarrow> s \<noteq> [])"

text \<open>\<open>sorted(s)\<close> of a set of strings.\<close>

definition sorted_strs :: "string set \<Rightarrow> string list" where
  "sorted_strs A = sorted_list_of_set A"

lemma set_sorted_strs: "finite A \<Longrightarrow> set (sorted_strs A) = A"
  by (simp add: sorted_strs_def)

subsection \<open>Collections of facts\<close>

named_theorems frame_simps \<open>what an operation leaves unchanged\<close>
named_theorems inv_intros \<open>operations preserve their component's invariant\<close>

end
