(* ===== verification/Drift.thy ===== *)
theory Drift
  imports Prelude
begin

section \<open>Drift of the detectors' features and the promotion of detectors\<close>

text \<open>
  Models \<open>drift/psi.py\<close>, \<open>drift/promotion_gate.py\<close> and \<open>drift/version_trigger.py\<close>. Shown: the
  population stability index is never negative, vanishes exactly when the binned distributions
  agree, and a live distribution that leaves the calibrated range on one side is always
  reported; the gate never lets a regression through, over any chain of promotions; the version
  trigger fires exactly on a change.
\<close>

subsection \<open>The population stability index\<close>

definition PSI_NO_SHIFT_THRESHOLD :: pyfloat where
  "PSI_NO_SHIFT_THRESHOLD = 1 / 10"

definition PSI_SIGNIFICANT_SHIFT_THRESHOLD :: pyfloat where
  "PSI_SIGNIFICANT_SHIFT_THRESHOLD = 25 / 100"

definition MIN_SAMPLES_FOR_PSI :: nat where
  "MIN_SAMPLES_FOR_PSI = 30"

record psi_result =
  psi_value :: pyfloat
  psi_is_significant_shift :: bool
  psi_is_moderate_shift :: bool
  psi_bin_edges :: "pyfloat list"

text \<open>The bin the inner loop counts a value in: the first one that takes it.\<close>

definition in_bin :: "pyfloat list \<Rightarrow> nat \<Rightarrow> pyfloat \<Rightarrow> nat \<Rightarrow> bool" where
  "in_bin bin_edges n_bins v i \<longleftrightarrow>
     (let lo = bin_edges ! i; hi = bin_edges ! (i + 1); is_last_bin = (i = n_bins - 1)
      in (lo \<le> v \<and> v < hi) \<or> (is_last_bin \<and> v = hi))"

definition bin_index :: "pyfloat list \<Rightarrow> nat \<Rightarrow> pyfloat \<Rightarrow> nat option" where
  "bin_index bin_edges n_bins v = find (in_bin bin_edges n_bins v) [0..<n_bins]"

definition count_value :: "pyfloat list \<Rightarrow> nat \<Rightarrow> pyfloat \<Rightarrow> nat list \<Rightarrow> nat list" where
  "count_value bin_edges n_bins v counts =
     (case bin_index bin_edges n_bins v of
        None \<Rightarrow> counts
      | Some i \<Rightarrow> counts[i := counts ! i + 1])"

definition bin_distribution :: "pyfloat list \<Rightarrow> pyfloat list \<Rightarrow> pyfloat list result" where
  "bin_distribution values bin_edges =
     (let n_bins = length bin_edges - 1;
          counts = fold (count_value bin_edges n_bins) values (replicate n_bins 0);
          total = length values;
          floor = 1 / 10000
      in if total = 0 \<and> counts \<noteq> [] then Inl ZeroDivisionError
         else Inr (map (\<lambda>c. max (real c / real total) floor) counts))"

definition psi_range :: "pyfloat list \<Rightarrow> pyfloat \<times> pyfloat" where
  "psi_range baseline_values =
     (let lo = Min (set baseline_values); hi = Max (set baseline_values)
      in if lo = hi then (lo - 1 / 100, hi + 1 / 100) else (lo, hi))"

definition psi_edges :: "pyfloat \<Rightarrow> pyfloat \<Rightarrow> nat \<Rightarrow> pyfloat list" where
  "psi_edges lo hi n_bins = (let bin_width = (hi - lo) / real n_bins in map (\<lambda>i. lo + real i * bin_width) [0..<n_bins + 1])"

definition psi_term :: "pyfloat \<times> pyfloat \<Rightarrow> pyfloat" where
  "psi_term p = (let (base, curr) = p in (curr - base) * ln (curr / base))"

definition compute_psi :: "pyfloat list \<Rightarrow> pyfloat list \<Rightarrow> nat \<Rightarrow> psi_result result" where
  "compute_psi baseline_values current_values n_bins =
     (if length baseline_values < MIN_SAMPLES_FOR_PSI \<or> length current_values < MIN_SAMPLES_FOR_PSI
      then Inl InsufficientDataForPSIError
      else let (lo, hi) = psi_range baseline_values in
        if n_bins = 0 then Inl ZeroDivisionError
        else let bin_edges = psi_edges lo hi n_bins;
                 clipped_current = map (\<lambda>v. max lo (min hi v)) current_values in
        res_bind (bin_distribution baseline_values bin_edges) (\<lambda>baseline_dist.
        res_bind (bin_distribution clipped_current bin_edges) (\<lambda>current_dist.
        let psi = sum_list (map psi_term (zip baseline_dist current_dist)) in
        Inr \<lparr>psi_value = psi,
             psi_is_significant_shift = (psi > PSI_SIGNIFICANT_SHIFT_THRESHOLD),
             psi_is_moderate_shift = (PSI_NO_SHIFT_THRESHOLD < psi \<and> psi \<le> PSI_SIGNIFICANT_SHIFT_THRESHOLD),
             psi_bin_edges = bin_edges\<rparr>)))"

subsection \<open>What the bins count\<close>

lemma count_value_length [simp]: "length (count_value es n v cs) = length cs"
  by (simp add: count_value_def split: option.split)

lemma bin_index_less: "bin_index es n v = Some i \<Longrightarrow> i < n"
  by (auto simp: bin_index_def find_Some_iff)

lemma counts_nth:
  assumes "i < n" "length cs = n"
  shows "fold (count_value es n) vs cs ! i = cs ! i + length (filter (\<lambda>v. bin_index es n v = Some i) vs)"
  using assms(2)
proof (induction vs arbitrary: cs)
  case (Cons v vs)
  have "count_value es n v cs ! i = cs ! i + (if bin_index es n v = Some i then 1 else 0)"
    using Cons.prems assms(1) bin_index_less [of es n v] by (auto simp: count_value_def nth_list_update split: option.split)
  with Cons.IH [of "count_value es n v cs"] Cons.prems show ?case by simp
qed simp

lemma counts_length: "length (fold (count_value es n) vs cs) = length cs"
  by (induction vs arbitrary: cs) simp_all

definition bin_share :: "pyfloat list \<Rightarrow> nat \<Rightarrow> pyfloat list \<Rightarrow> nat \<Rightarrow> pyfloat" where
  "bin_share es n vs i =
     max (real (length (filter (\<lambda>v. bin_index es n v = Some i) vs)) / real (length vs)) (1 / 10000)"

lemma bin_distribution_eq:
  assumes "length es = n + 1" "vs \<noteq> []"
  shows "bin_distribution vs es = Inr (map (bin_share es n vs) [0..<n])"
proof -
  have "fold (count_value es n) vs (replicate n 0)
      = map (\<lambda>i. length (filter (\<lambda>v. bin_index es n v = Some i) vs)) [0..<n]"
    by (rule nth_equalityI) (simp_all add: counts_length counts_nth)
  with assms show ?thesis by (simp add: bin_distribution_def bin_share_def)
qed

lemma bin_share_pos [simp]: "0 < bin_share es n vs i"
  by (simp add: bin_share_def less_max_iff_disj)

lemma bin_share_le: "bin_share es n vs i \<le> 1"
proof -
  have "length (filter (\<lambda>v. bin_index es n v = Some i) vs) \<le> length vs" by simp
  then show ?thesis by (cases "vs = []") (simp_all add: bin_share_def)
qed

lemma bin_share_mset: "mset vs = mset ws \<Longrightarrow> bin_share es n vs i = bin_share es n ws i"
  unfolding bin_share_def by (metis mset_filter size_mset)

lemma psi_edges_simps [simp]:
  "length (psi_edges lo hi n) = n + 1"
  "i \<le> n \<Longrightarrow> psi_edges lo hi n ! i = lo + real i * ((hi - lo) / real n)"
  by (simp_all add: psi_edges_def del: upt_Suc)

lemma psi_range_cases:
  assumes "bs \<noteq> []"
  obtains lo hi where "psi_range bs = (lo, hi)" "lo < hi" "\<And>v. v \<in> set bs \<Longrightarrow> lo \<le> v \<and> v \<le> hi"
proof -
  have mm: "Min (set bs) \<le> v \<and> v \<le> Max (set bs)" if "v \<in> set bs" for v using that by simp
  have le: "Min (set bs) \<le> Max (set bs)" using assms mm hd_in_set by (meson order_trans)
  show thesis
  proof (cases "Min (set bs) = Max (set bs)")
    case True
    have "lo \<le> v \<and> v \<le> hi" if "v \<in> set bs" "lo = Min (set bs) - 1 / 100" "hi = Max (set bs) + 1 / 100" for v lo hi
      using mm [OF that(1)] that(2,3) by linarith
    with True that [of "Min (set bs) - 1 / 100" "Max (set bs) + 1 / 100"] show thesis
      by (simp add: psi_range_def Let_def)
  next
    case False
    with le mm that [of "Min (set bs)" "Max (set bs)"] show thesis by (simp add: psi_range_def)
  qed
qed

text \<open>Every value within the edges falls into a bin, and a value at the upper edge into the last.\<close>

lemma bin_index_total:
  assumes "0 < n" "lo < hi" "lo \<le> v" "v \<le> hi"
  shows "\<exists>i. bin_index (psi_edges lo hi n) n v = Some i"
proof -
  define w where "w = (hi - lo) / real n"
  have w: "0 < w" "lo + real n * w = hi" using assms(1,2) by (simp_all add: w_def field_simps)
  have "\<exists>i < n. in_bin (psi_edges lo hi n) n v i"
  proof (cases "v = hi")
    case True
    then have "in_bin (psi_edges lo hi n) n v (n - 1)"
      using assms(1) w by (simp add: in_bin_def w_def flip: of_nat_Suc)
    with assms(1) show ?thesis by (intro exI [of _ "n - 1"]) simp
  next
    case False
    define i where "i = nat \<lfloor>(v - lo) / w\<rfloor>"
    have "0 \<le> (v - lo) / w" using assms(3) w(1) by simp
    then have i: "real i \<le> (v - lo) / w" "(v - lo) / w < real i + 1"
      by (simp_all add: i_def)
    then have b: "lo + real i * w \<le> v" "v < lo + (real i + 1) * w"
      using w(1) by (simp_all add: field_simps)
    have "v < lo + real n * w" using False assms(4) w(2) by linarith
    with b(1) have "real i * w < real n * w" by linarith
    with w(1) have "i < n" by simp
    with b show ?thesis by (intro exI [of _ i]) (simp add: in_bin_def w_def add.commute)
  qed
  then show ?thesis by (cases "bin_index (psi_edges lo hi n) n v") (auto simp: bin_index_def find_None_iff)
qed

lemma bin_index_top:
  assumes "0 < n" "lo < hi"
  shows "bin_index (psi_edges lo hi n) n hi = Some (n - 1)"
proof -
  define w where "w = (hi - lo) / real n"
  have w: "0 < w" "lo + real n * w = hi" using assms by (simp_all add: w_def field_simps)
  obtain i where i: "bin_index (psi_edges lo hi n) n hi = Some i"
    using bin_index_total [of n lo hi hi] assms by auto
  then have "i < n" "in_bin (psi_edges lo hi n) n hi i" by (auto simp: bin_index_def find_Some_iff)
  moreover have "\<not> hi < lo + (real i + 1) * w" if "i < n"
  proof -
    have "real i + 1 \<le> real n" using that by linarith
    then have "(real i + 1) * w \<le> real n * w" using w(1) by (intro mult_right_mono) simp_all
    with w(2) show ?thesis by linarith
  qed
  ultimately have "i = n - 1" by (auto simp: in_bin_def w_def add.commute)
  with i show ?thesis by simp
qed

lemma bin_index_bottom:
  assumes "0 < n" "lo < hi"
  shows "bin_index (psi_edges lo hi n) n lo = Some 0"
proof -
  have w: "0 < (hi - lo) / real n" using assms by simp
  then have "in_bin (psi_edges lo hi n) n lo 0" using assms(1) by (simp add: in_bin_def)
  with assms(1) show ?thesis by (simp add: bin_index_def upt_conv_Cons)
qed

lemma psi_term_nonneg: "0 < b \<Longrightarrow> 0 < c \<Longrightarrow> 0 \<le> psi_term (b, c)"
  by (cases "b \<le> c") (simp_all add: psi_term_def mult_nonneg_nonneg mult_nonpos_nonpos ln_le_zero_iff ln_ge_zero_iff)

lemma psi_term_zero_iff: "0 < b \<Longrightarrow> 0 < c \<Longrightarrow> psi_term (b, c) = 0 \<longleftrightarrow> b = c"
  by (auto simp: psi_term_def)

definition psi_index :: "pyfloat list \<Rightarrow> nat \<Rightarrow> pyfloat list \<Rightarrow> pyfloat list \<Rightarrow> pyfloat" where
  "psi_index es n bs cs = sum_list (map (\<lambda>i. psi_term (bin_share es n bs i, bin_share es n cs i)) [0..<n])"

definition clip :: "pyfloat list \<Rightarrow> pyfloat list \<Rightarrow> pyfloat list" where
  "clip bs = (let (lo, hi) = psi_range bs in map (\<lambda>v. max lo (min hi v)))"

definition edges_of :: "pyfloat list \<Rightarrow> nat \<Rightarrow> pyfloat list" where
  "edges_of bs n = (let (lo, hi) = psi_range bs in psi_edges lo hi n)"

lemma compute_psi_eq:
  assumes "MIN_SAMPLES_FOR_PSI \<le> length bs" "MIN_SAMPLES_FOR_PSI \<le> length cs" "0 < n"
  shows "\<exists>r. compute_psi bs cs n = Inr r \<and> psi_value r = psi_index (edges_of bs n) n bs (clip bs cs)
    \<and> psi_is_significant_shift r = (PSI_SIGNIFICANT_SHIFT_THRESHOLD < psi_value r)
    \<and> psi_is_moderate_shift r = (PSI_NO_SHIFT_THRESHOLD < psi_value r \<and> psi_value r \<le> PSI_SIGNIFICANT_SHIFT_THRESHOLD)"
proof -
  have ne: "bs \<noteq> []" "cs \<noteq> []" using assms(1,2) by (auto simp: MIN_SAMPLES_FOR_PSI_def)
  obtain lo hi where r: "psi_range bs = (lo, hi)" using psi_range_cases [OF ne(1)] by metis
  have e: "length (psi_edges lo hi n) = n + 1" by simp
  have z: "zip (map f xs) (map g xs) = map (\<lambda>i. (f i, g i)) xs" for f g :: "nat \<Rightarrow> pyfloat" and xs
    by (induction xs) simp_all
  show ?thesis
    using assms ne unfolding compute_psi_def r
    by (simp add: bin_distribution_eq [OF e] z psi_index_def edges_of_def clip_def r comp_def Let_def)
qed

lemma psi_index_nonneg: "0 \<le> psi_index es n bs cs"
  by (auto simp: psi_index_def intro!: sum_list_nonneg psi_term_nonneg)

lemma psi_index_zero_iff: "psi_index es n bs cs = 0 \<longleftrightarrow> (\<forall>i<n. bin_share es n bs i = bin_share es n cs i)"
proof -
  have "psi_index es n bs cs = (\<Sum>i<n. psi_term (bin_share es n bs i, bin_share es n cs i))"
    by (simp add: psi_index_def interv_sum_list_conv_sum_set_nat atLeast0LessThan)
  also have "\<dots> = 0 \<longleftrightarrow> (\<forall>i \<in> {..<n}. psi_term (bin_share es n bs i, bin_share es n cs i) = 0)"
    by (rule sum_nonneg_eq_0_iff) (simp_all add: psi_term_nonneg)
  finally show ?thesis by (simp add: psi_term_zero_iff Ball_def)
qed

lemma psi_index_term: "i < n \<Longrightarrow> psi_term (bin_share es n bs i, bin_share es n cs i) \<le> psi_index es n bs cs"
  unfolding psi_index_def
  by (rule member_le_sum_list) (auto intro: psi_term_nonneg)

text \<open>Samples that already lie in the calibrated range are binned as they are.\<close>

lemma clip_id: "bs \<noteq> [] \<Longrightarrow> set cs \<subseteq> set bs \<Longrightarrow> clip bs cs = cs"
proof -
  assume a: "bs \<noteq> []" "set cs \<subseteq> set bs"
  obtain lo hi where r: "psi_range bs = (lo, hi)" "\<And>v. v \<in> set bs \<Longrightarrow> lo \<le> v \<and> v \<le> hi"
    using psi_range_cases [OF a(1)] by metis
  show "clip bs cs = cs"
    unfolding clip_def r(1) using a(2) r(2) by (auto intro!: map_idI)
qed

text \<open>Moving everything into a bin that held at most half of the baseline is a significant shift.\<close>

lemma ln2_half: "1 / 2 < ln (2 :: real)"
proof -
  have "exp (1 / 2 :: real) ^ 2 = exp 1" by (simp flip: exp_of_nat_mult)
  with exp_le have "exp (1 / 2 :: real) ^ 2 < 2 ^ 2" by simp
  then have "exp (1 / 2 :: real) < 2" by (rule power_less_imp_less_base) simp
  then have "ln (exp (1 / 2 :: real)) < ln 2" by (subst ln_less_cancel_iff) simp_all
  then show ?thesis by simp
qed

lemma psi_term_full:
  assumes "0 < b" "b \<le> 1 / 2"
  shows "PSI_SIGNIFICANT_SHIFT_THRESHOLD < psi_term (b, 1)"
proof -
  have "ln 2 \<le> ln (1 / b)" using assms by (simp add: field_simps)
  then have "1 / 2 * ln 2 \<le> (1 - b) * ln (1 / b)"
    using assms ln2_half by (intro mult_mono) simp_all
  with ln2_half show ?thesis by (simp add: psi_term_def PSI_SIGNIFICANT_SHIFT_THRESHOLD_def)
qed

lemma psi_index_moved:
  assumes "i < n" "bin_share es n bs i \<le> 1 / 2" "cs \<noteq> []" "\<And>v. v \<in> set cs \<Longrightarrow> bin_index es n v = Some i"
  shows "PSI_SIGNIFICANT_SHIFT_THRESHOLD < psi_index es n bs cs"
proof -
  have "filter (\<lambda>v. bin_index es n v = Some i) cs = cs" using assms(4) by (simp add: filter_id_conv)
  with assms(3) have "bin_share es n cs i = 1" by (simp add: bin_share_def)
  then show ?thesis
    using psi_term_full [OF bin_share_pos assms(2)] psi_index_term [OF assms(1), of es bs cs] by simp
qed

lemma clip_above:
  assumes "bs \<noteq> []" "\<And>v. v \<in> set cs \<Longrightarrow> snd (psi_range bs) \<le> v" "v \<in> set (clip bs cs)"
  shows "v = snd (psi_range bs)"
proof -
  obtain lo hi where r: "psi_range bs = (lo, hi)" "lo < hi" using psi_range_cases [OF assms(1)] by metis
  from assms(3) obtain u where u: "u \<in> set cs" "v = max lo (min hi u)" by (auto simp: clip_def r(1))
  from assms(2) [OF u(1)] have "hi \<le> u" by (simp add: r(1))
  with u(2) r(2) show ?thesis by (simp add: r(1))
qed

lemma clip_below:
  assumes "bs \<noteq> []" "\<And>v. v \<in> set cs \<Longrightarrow> v \<le> fst (psi_range bs)" "v \<in> set (clip bs cs)"
  shows "v = fst (psi_range bs)"
proof -
  obtain lo hi where r: "psi_range bs = (lo, hi)" "lo < hi" using psi_range_cases [OF assms(1)] by metis
  from assms(3) obtain u where u: "u \<in> set cs" "v = max lo (min hi u)" by (auto simp: clip_def r(1))
  from assms(2) [OF u(1)] have "u \<le> lo" by (simp add: r(1))
  with u(2) r(2) show ?thesis by (simp add: r(1))
qed

text \<open>
  C36: the stability index is computed for every pair of samples of the minimum size and every
  positive number of bins. It is never negative, it is zero exactly when every bin holds the same
  share of both samples, the moderate and the significant report exclude each other, live samples
  that are a rearrangement of the baseline give zero and no report, and live samples that have
  all left the calibrated range at the same end, at the top or at the bottom, are reported as a
  significant shift, provided that at most half of the baseline lies in the bin of that end: values
  out of range are clipped into it, so a baseline concentrated there hides the move.
\<close>

theorem psi_sound_and_sensitive:
  assumes "MIN_SAMPLES_FOR_PSI \<le> length bs" "MIN_SAMPLES_FOR_PSI \<le> length cs" "0 < n"
  shows "\<exists>r. compute_psi bs cs n = Inr r \<and> 0 \<le> psi_value r
    \<and> (psi_value r = 0 \<longleftrightarrow> (\<forall>i<n. bin_share (edges_of bs n) n bs i = bin_share (edges_of bs n) n (clip bs cs) i))
    \<and> \<not> (psi_is_significant_shift r \<and> psi_is_moderate_shift r)
    \<and> (mset cs = mset bs \<longrightarrow> psi_value r = 0 \<and> \<not> psi_is_significant_shift r \<and> \<not> psi_is_moderate_shift r)
    \<and> ((\<forall>v \<in> set cs. snd (psi_range bs) \<le> v) \<longrightarrow> bin_share (edges_of bs n) n bs (n - 1) \<le> 1 / 2
        \<longrightarrow> psi_is_significant_shift r)
    \<and> ((\<forall>v \<in> set cs. v \<le> fst (psi_range bs)) \<longrightarrow> bin_share (edges_of bs n) n bs 0 \<le> 1 / 2
        \<longrightarrow> psi_is_significant_shift r)"
proof -
  let ?es = "edges_of bs n"
  obtain r where r: "compute_psi bs cs n = Inr r" "psi_value r = psi_index ?es n bs (clip bs cs)"
    "psi_is_significant_shift r = (PSI_SIGNIFICANT_SHIFT_THRESHOLD < psi_value r)"
    "psi_is_moderate_shift r = (PSI_NO_SHIFT_THRESHOLD < psi_value r \<and> psi_value r \<le> PSI_SIGNIFICANT_SHIFT_THRESHOLD)"
    using compute_psi_eq [OF assms] by blast
  have ne: "bs \<noteq> []" "cs \<noteq> []" using assms(1,2) by (auto simp: MIN_SAMPLES_FOR_PSI_def)
  have same: "psi_value r = 0 \<and> \<not> psi_is_significant_shift r \<and> \<not> psi_is_moderate_shift r" if "mset cs = mset bs"
  proof -
    have "clip bs cs = cs" by (rule clip_id) (use ne that in \<open>auto dest: mset_eq_setD\<close>)
    with that bin_share_mset [of cs bs] have "psi_value r = 0" by (simp add: r(2) psi_index_zero_iff)
    then show ?thesis by (simp add: r(3,4) PSI_SIGNIFICANT_SHIFT_THRESHOLD_def PSI_NO_SHIFT_THRESHOLD_def)
  qed
  have bounds: "0 \<le> psi_value r"
    "psi_value r = 0 \<longleftrightarrow> (\<forall>i<n. bin_share ?es n bs i = bin_share ?es n (clip bs cs) i)"
    "\<not> (psi_is_significant_shift r \<and> psi_is_moderate_shift r)"
    by (simp_all add: r(2-4) psi_index_nonneg psi_index_zero_iff)
  have moved: "psi_is_significant_shift r"
    if above: "\<forall>v \<in> set cs. snd (psi_range bs) \<le> v" and half: "bin_share ?es n bs (n - 1) \<le> 1 / 2"
  proof -
    obtain lo hi where h: "psi_range bs = (lo, hi)" "lo < hi" using psi_range_cases [OF ne(1)] by metis
    have top: "bin_index ?es n v = Some (n - 1)" if "v \<in> set (clip bs cs)" for v
      using clip_above [OF ne(1) _ that] above bin_index_top [OF assms(3) h(2)] by (simp add: h(1) edges_of_def)
    have "clip bs cs \<noteq> []" using ne(2) by (simp add: clip_def h(1))
    with psi_index_moved [of "n - 1" n ?es bs "clip bs cs"] top half assms(3) show ?thesis by (simp add: r(2,3))
  qed
  have moved_down: "psi_is_significant_shift r"
    if below: "\<forall>v \<in> set cs. v \<le> fst (psi_range bs)" and half: "bin_share ?es n bs 0 \<le> 1 / 2"
  proof -
    obtain lo hi where h: "psi_range bs = (lo, hi)" "lo < hi" using psi_range_cases [OF ne(1)] by metis
    have bottom: "bin_index ?es n v = Some 0" if "v \<in> set (clip bs cs)" for v
      using clip_below [OF ne(1) _ that] below bin_index_bottom [OF assms(3) h(2)] by (simp add: h(1) edges_of_def)
    have "clip bs cs \<noteq> []" using ne(2) by (simp add: clip_def h(1))
    with psi_index_moved [of 0 n ?es bs "clip bs cs"] bottom half assms(3) show ?thesis by (simp add: r(2,3))
  qed
  show ?thesis
    using r(1) bounds same moved moved_down by blast
qed

theorem psi_sound_and_sensitive_witness:
  "\<exists>r. compute_psi (replicate 29 0 @ [1]) (replicate 30 2) 2 = Inr r \<and> psi_is_significant_shift r"
proof -
  have len: "MIN_SAMPLES_FOR_PSI \<le> length (replicate 29 0 @ [1 :: pyfloat])"
    "MIN_SAMPLES_FOR_PSI \<le> length (replicate 30 (2 :: pyfloat))"
    by (simp_all add: MIN_SAMPLES_FOR_PSI_def)
  have r: "psi_range (replicate 29 0 @ [1]) = (0, 1)" by (simp add: psi_range_def)
  have e: "edges_of (replicate 29 0 @ [1]) 2 = [0, 1 / 2, 1]" by (simp add: edges_of_def r psi_edges_def upt_rec)
  have two: "[0..<2] = [0, 1 :: nat]" by (simp add: upt_rec)
  have b: "bin_index [0, 1 / 2, 1] 2 0 = Some 0" "bin_index [0, 1 / 2, 1] 2 1 = Some 1"
    by (simp_all add: bin_index_def in_bin_def two)
  have "bin_share [0, 1 / 2, 1] 2 (replicate 29 0 @ [1]) 1 \<le> 1 / 2"
    by (simp add: bin_share_def b filter_replicate)
  then show ?thesis
    using psi_sound_and_sensitive [OF len, of 2] by (auto simp: r e)
qed

subsection \<open>The promotion gate\<close>

record detector_metrics =
  dm_recall_by_attack_class :: "(string, pyfloat) dict"
  dm_false_positive_rate :: pyfloat

record promotion_decision =
  pr_should_promote :: bool
  pr_reasons :: "string list"

definition missing_reason :: "string \<Rightarrow> pyfloat \<Rightarrow> string" where
  "missing_reason attack_class champion_recall =
     ''Challenger has NO measurement for attack class '' @ [char_of (39 :: nat)] @ attack_class
       @ [char_of (39 :: nat)] @ '' that champion covers (champion recall='' @ fixed3 champion_recall
       @ '') -- cannot verify no regression, refusing promotion.''"

definition recall_reason :: "string \<Rightarrow> pyfloat \<Rightarrow> pyfloat \<Rightarrow> string" where
  "recall_reason attack_class champion_recall challenger_recall =
     ''Recall regression on '' @ [char_of (39 :: nat)] @ attack_class @ [char_of (39 :: nat)]
       @ '': champion='' @ fixed3 champion_recall @ '', challenger='' @ fixed3 challenger_recall"

definition fpr_reason :: "pyfloat \<Rightarrow> pyfloat \<Rightarrow> string" where
  "fpr_reason champion_rate challenger_rate =
     ''False-positive rate regression: champion='' @ fixed3 champion_rate
       @ '', challenger='' @ fixed3 challenger_rate"

definition approved_reason :: string where
  "approved_reason = ''Challenger matches or exceeds champion on every measured attack class with no false-positive-rate regression -- promotion approved.''"

text \<open>The loop over the champion's classes, with the two variables it updates.\<close>

fun promotion_loop ::
    "detector_metrics \<Rightarrow> (string, pyfloat) dict \<Rightarrow> bool \<times> string list \<Rightarrow> bool \<times> string list" where
  "promotion_loop challenger [] st = st"
| "promotion_loop challenger ((attack_class, champion_recall) # items) (should_promote, reasons) =
     (case dict_get (dm_recall_by_attack_class challenger) attack_class of
        None \<Rightarrow> promotion_loop challenger items (False, reasons @ [missing_reason attack_class champion_recall])
      | Some challenger_recall \<Rightarrow>
          if challenger_recall < champion_recall
          then promotion_loop challenger items
                 (False, reasons @ [recall_reason attack_class champion_recall challenger_recall])
          else promotion_loop challenger items (should_promote, reasons))"

definition evaluate_promotion :: "detector_metrics \<Rightarrow> detector_metrics \<Rightarrow> promotion_decision" where
  "evaluate_promotion champion challenger =
     (let (should_promote, reasons) =
            promotion_loop challenger (dm_recall_by_attack_class champion) (True, []);
          (should_promote, reasons) =
            (if dm_false_positive_rate challenger > dm_false_positive_rate champion
             then (False, reasons @ [fpr_reason (dm_false_positive_rate champion) (dm_false_positive_rate challenger)])
             else (should_promote, reasons));
          reasons = (if should_promote then reasons @ [approved_reason] else reasons)
      in \<lparr>pr_should_promote = should_promote, pr_reasons = reasons\<rparr>)"

definition regresses :: "detector_metrics \<Rightarrow> string \<times> pyfloat \<Rightarrow> bool" where
  "regresses challenger p \<longleftrightarrow> (case dict_get (dm_recall_by_attack_class challenger) (fst p) of
     None \<Rightarrow> True | Some r \<Rightarrow> r < snd p)"

lemma promotion_loop_result:
  "fst (promotion_loop ch items (b, rs)) = (b \<and> filter (regresses ch) items = [])"
  "length (snd (promotion_loop ch items (b, rs))) = length rs + length (filter (regresses ch) items)"
  by (induction ch items "(b, rs)" arbitrary: b rs rule: promotion_loop.induct)
    (auto simp: regresses_def split: option.split)

text \<open>No measured class gets worse and the false positives do not increase.\<close>

definition no_regression :: "detector_metrics \<Rightarrow> detector_metrics \<Rightarrow> bool" where
  "no_regression a b \<longleftrightarrow>
     list_all (\<lambda>p. \<not> regresses b p) (dm_recall_by_attack_class a)
     \<and> dm_false_positive_rate b \<le> dm_false_positive_rate a"

lemma should_promote_iff: "pr_should_promote (evaluate_promotion a b) \<longleftrightarrow> no_regression a b"
  using promotion_loop_result(1) [of b "dm_recall_by_attack_class a" True "[]"]
  by (auto simp: evaluate_promotion_def no_regression_def list_all_iff filter_empty_conv Let_def split: prod.split)

lemma regresses_dict:
  "dict_ok (dm_recall_by_attack_class a) \<Longrightarrow>
     list_all (\<lambda>p. \<not> regresses b p) (dm_recall_by_attack_class a) \<longleftrightarrow>
       (\<forall>k r. dict_get (dm_recall_by_attack_class a) k = Some r \<longrightarrow>
          (\<exists>r'. dict_get (dm_recall_by_attack_class b) k = Some r' \<and> r \<le> r'))"
  by (fastforce simp: list_all_iff regresses_def dict_ok_def not_less split: option.splits)

definition metrics_ok :: "detector_metrics \<Rightarrow> bool" where
  "metrics_ok a \<longleftrightarrow> dict_ok (dm_recall_by_attack_class a)"

lemma no_regression_refl: "metrics_ok a \<Longrightarrow> no_regression a a"
  by (auto simp: no_regression_def metrics_ok_def regresses_dict)

lemma no_regression_trans:
  "metrics_ok a \<Longrightarrow> metrics_ok b \<Longrightarrow> no_regression a b \<Longrightarrow> no_regression b c \<Longrightarrow> no_regression a c"
  by (simp add: no_regression_def metrics_ok_def regresses_dict) (meson order_trans)

text \<open>A deployment that asks the gate about one challenger after another.\<close>

definition gated :: "detector_metrics list \<Rightarrow> detector_metrics \<Rightarrow> detector_metrics" where
  "gated = fold (\<lambda>challenger champion.
     if pr_should_promote (evaluate_promotion champion challenger) then challenger else champion)"

lemma gated_no_regression:
  "metrics_ok a \<Longrightarrow> list_all metrics_ok cs \<Longrightarrow> no_regression a (gated cs a)"
proof (induction cs arbitrary: a)
  case (Cons c cs)
  then have ok: "metrics_ok c" "list_all metrics_ok cs" by simp_all
  show ?case
  proof (cases "no_regression a c")
    case True
    with Cons.IH [OF ok] no_regression_trans [OF Cons.prems(1) ok(1) True] show ?thesis
      by (simp add: gated_def should_promote_iff)
  next
    case False
    with Cons.IH [OF Cons.prems(1) ok(2)] show ?thesis by (simp add: gated_def should_promote_iff)
  qed
qed (simp add: gated_def no_regression_refl)

text \<open>
  C37: the gate promotes exactly the challengers that measure every attack class the champion
  measures, with no lower recall, and have no higher rate of false positives; it gives one reason
  per regression, or the one of approval. Over any chain of challengers the detector that
  is champion in the end has no regression against the first one.
\<close>

theorem promotion_never_regresses:
  assumes "dict_ok (dm_recall_by_attack_class a)"
    and "list_all (\<lambda>c. dict_ok (dm_recall_by_attack_class c)) challengers"
  shows "pr_should_promote (evaluate_promotion a b) = (dm_false_positive_rate b \<le> dm_false_positive_rate a
      \<and> (\<forall>k r. dict_get (dm_recall_by_attack_class a) k = Some r \<longrightarrow>
           (\<exists>r'. dict_get (dm_recall_by_attack_class b) k = Some r' \<and> r \<le> r')))
    \<and> length (pr_reasons (evaluate_promotion a b))
        = max 1 (length (filter (regresses b) (dm_recall_by_attack_class a))
            + (if dm_false_positive_rate a < dm_false_positive_rate b then 1 else 0))
    \<and> dm_false_positive_rate (gated challengers a) \<le> dm_false_positive_rate a
    \<and> (\<forall>k r. dict_get (dm_recall_by_attack_class a) k = Some r \<longrightarrow>
         (\<exists>r'. dict_get (dm_recall_by_attack_class (gated challengers a)) k = Some r' \<and> r \<le> r'))"
proof -
  have "length (pr_reasons (evaluate_promotion a b))
        = max 1 (length (filter (regresses b) (dm_recall_by_attack_class a))
            + (if dm_false_positive_rate a < dm_false_positive_rate b then 1 else 0))"
    using promotion_loop_result [of b "dm_recall_by_attack_class a" True "[]"]
    by (cases "filter (regresses b) (dm_recall_by_attack_class a)")
      (auto simp: evaluate_promotion_def Let_def split: prod.splits)
  moreover have "no_regression a (gated challengers a)"
    using gated_no_regression [of a challengers] assms by (simp add: metrics_ok_def list_all_iff)
  ultimately show ?thesis
    using assms(1) by (simp add: should_promote_iff no_regression_def regresses_dict conj_commute)
qed

theorem promotion_never_regresses_witness:
  "\<not> pr_should_promote (evaluate_promotion
        \<lparr>dm_recall_by_attack_class = [(''injection'', 9 / 10)], dm_false_positive_rate = 1 / 10\<rparr>
        \<lparr>dm_recall_by_attack_class = [(''exfiltration'', 1)], dm_false_positive_rate = 0\<rparr>)"
proof -
  let ?a = "\<lparr>dm_recall_by_attack_class = [(''injection'', 9 / 10)], dm_false_positive_rate = 1 / 10\<rparr> :: detector_metrics"
  let ?b = "\<lparr>dm_recall_by_attack_class = [(''exfiltration'', 1)], dm_false_positive_rate = 0\<rparr> :: detector_metrics"
  have "\<not> (\<exists>r'. dict_get (dm_recall_by_attack_class ?b) ''injection'' = Some r')"
    "dict_get (dm_recall_by_attack_class ?a) ''injection'' = Some (9 / 10)" by simp_all
  then show ?thesis
    using promotion_never_regresses [of ?a "[]" ?b] by (fastforce simp: dict_ok_def)
qed

subsection \<open>The version trigger\<close>

type_synonym version_tracker = "(string, string) dict"

definition vt_check_and_update :: "string \<Rightarrow> string \<Rightarrow> version_tracker \<Rightarrow> bool \<times> version_tracker" where
  "vt_check_and_update component current_version t =
     (let previous = dict_get t component;
          t' = dict_set t component current_version
      in (case previous of None \<Rightarrow> (False, t') | Some v \<Rightarrow> (v \<noteq> current_version, t')))"

fun vt_observe :: "(string \<times> string) list \<Rightarrow> version_tracker \<Rightarrow> version_tracker" where
  "vt_observe [] t = t"
| "vt_observe ((component, v) # obs) t = vt_observe obs (snd (vt_check_and_update component v t))"

text \<open>The version of a component that was observed last.\<close>

definition last_version :: "string \<Rightarrow> (string \<times> string) list \<Rightarrow> string option" where
  "last_version component obs = map_of (rev obs) component"

lemma vt_check_snd: "snd (vt_check_and_update c v t) = dict_set t c v"
  by (simp add: vt_check_and_update_def Let_def split: option.split)

lemma vt_observe_get:
  "dict_get (vt_observe obs t) c = (case last_version c obs of None \<Rightarrow> dict_get t c | Some v \<Rightarrow> Some v)"
  by (induction obs t rule: vt_observe.induct)
    (auto simp: last_version_def vt_check_snd map_add_def split: option.splits)

text \<open>
  The version trigger fires exactly when the component was observed before and its latest
  observed version is another one; what was observed of other components plays no role.
\<close>

theorem version_trigger_iff:
  "fst (vt_check_and_update component current_version (vt_observe obs [])) \<longleftrightarrow>
     (\<exists>v. last_version component obs = Some v \<and> v \<noteq> current_version)"
proof -
  have "dict_get (vt_observe obs []) component = last_version component obs"
    by (simp add: vt_observe_get split: option.split)
  then show ?thesis by (simp add: vt_check_and_update_def Let_def split: option.split)
qed

end
