(* ===== verification/Embedding.thy ===== *)
theory Embedding
  imports Prelude
begin

section \<open>Embeddings\<close>

text \<open>
  Models \<open>attribution/embedding.py\<close>: cosine similarity the two dependency-free embedders
  over a parameter \<open>sha256\<close> (the digest as a list of bytes). An embedder of the protocol \<open>TaskEmbedder\<close> may raise. Shown: the
  similarity is a symmetric number in \<open>[-1, 1]\<close>, for the bag-of-words embedder in \<open>[0, 1]\<close>,
  \<open>1\<close> for equal non-zero vectors and \<open>0\<close> for texts without a common bucket.
\<close>

type_synonym vector = "pyfloat list"
type_synonym embedder = "string \<Rightarrow> vector result"

subsection \<open>Cosine similarity\<close>

definition dot :: "vector \<Rightarrow> vector \<Rightarrow> pyfloat" where
  "dot a b = sum_list (map (\<lambda>(x, y). x * y) (zip a b))"

definition norm2 :: "vector \<Rightarrow> pyfloat" where
  "norm2 a = sum_list (map (\<lambda>x. x * x) a)"

definition cosine_similarity :: "vector \<Rightarrow> vector \<Rightarrow> pyfloat" where
  "cosine_similarity a b =
     (let norm_a = sqrt (norm2 a); norm_b = sqrt (norm2 b)
      in if norm_a = 0 \<or> norm_b = 0 then 0 else dot a b / (norm_a * norm_b))"

lemma dot_simps [simp]:
  "dot [] b = 0" "dot a [] = 0" "dot (x # a) (y # b) = x * y + dot a b"
  by (simp_all add: dot_def)

lemma norm2_simps [simp]: "norm2 [] = 0" "norm2 (x # a) = x * x + norm2 a"
  by (simp_all add: norm2_def)

lemma norm2_nonneg [simp]: "0 \<le> norm2 a"
  by (induction a) simp_all

lemma dot_commute: "dot a b = dot b a"
proof (induction a arbitrary: b)
  case (Cons x a)
  then show ?case by (cases b) simp_all
qed simp

lemma dot_self: "dot a a = norm2 a"
  by (induction a) simp_all

lemma dot_nonneg: "\<forall>x \<in> set a. 0 \<le> x \<Longrightarrow> \<forall>y \<in> set b. 0 \<le> y \<Longrightarrow> 0 \<le> dot a b"
proof (induction a arbitrary: b)
  case (Cons x a)
  then show ?case by (cases b) simp_all
qed simp

lemma cauchy_schwarz_step:
  fixes d A B x y :: real
  assumes "d\<^sup>2 \<le> A * B" "0 \<le> A" "0 \<le> B"
  shows "(x * y + d)\<^sup>2 \<le> (x * x + A) * (y * y + B)"
proof -
  have "2 * (d * x * y) \<le> A * y\<^sup>2 + B * x\<^sup>2"
  proof (rule power2_le_imp_le)
    have "(2 * (d * x * y))\<^sup>2 = 4 * d\<^sup>2 * (x\<^sup>2 * y\<^sup>2)" by (simp add: power2_eq_square)
    also have "\<dots> \<le> 4 * (A * B) * (x\<^sup>2 * y\<^sup>2)"
      using assms(1) by (intro mult_right_mono) simp_all
    also have "\<dots> \<le> (A * y\<^sup>2 + B * x\<^sup>2)\<^sup>2"
      using zero_le_power2 [of "A * y\<^sup>2 - B * x\<^sup>2"] by (simp add: power2_eq_square algebra_simps)
    finally show "(2 * (d * x * y))\<^sup>2 \<le> (A * y\<^sup>2 + B * x\<^sup>2)\<^sup>2" .
    show "0 \<le> A * y\<^sup>2 + B * x\<^sup>2" using assms by simp
  qed
  with assms(1) show ?thesis by (simp add: power2_eq_square algebra_simps)
qed

lemma cauchy_schwarz: "(dot a b)\<^sup>2 \<le> norm2 a * norm2 b"
proof (induction a arbitrary: b)
  case (Cons x a)
  show ?case
  proof (cases b)
    case (Cons y b')
    with cauchy_schwarz_step [OF Cons.IH [of b']] show ?thesis by simp
  qed simp
qed simp

lemma cosine_abs_le_1: "\<bar>cosine_similarity a b\<bar> \<le> 1"
proof (cases "norm2 a = 0 \<or> norm2 b = 0")
  case False
  let ?n = "sqrt (norm2 a) * sqrt (norm2 b)"
  have pos: "0 < ?n" using False by (simp add: less_le)
  have "sqrt ((dot a b)\<^sup>2) \<le> sqrt (norm2 a * norm2 b)"
    by (rule real_sqrt_le_mono [OF cauchy_schwarz])
  then have "\<bar>dot a b\<bar> \<le> ?n" by (simp add: real_sqrt_mult)
  with pos False show ?thesis by (simp add: cosine_similarity_def Let_def abs_divide)
qed (simp add: cosine_similarity_def)

lemma cosine_commute: "cosine_similarity a b = cosine_similarity b a"
  by (simp add: cosine_similarity_def dot_commute [of a b] mult.commute Let_def)

lemma cosine_self: "norm2 a \<noteq> 0 \<Longrightarrow> cosine_similarity a a = 1"
  by (simp add: cosine_similarity_def dot_self Let_def)

lemma cosine_nonneg:
  "\<forall>x \<in> set a. 0 \<le> x \<Longrightarrow> \<forall>y \<in> set b. 0 \<le> y \<Longrightarrow> 0 \<le> cosine_similarity a b"
  by (simp add: cosine_similarity_def dot_nonneg Let_def)

subsection \<open>The fake embedders\<close>

type_synonym sha256 = "string \<Rightarrow> nat list"

definition FakeTaskEmbedder_embed :: "sha256 \<Rightarrow> embedder" where
  "FakeTaskEmbedder_embed sha256 text =
     (let digest = sha256 (str_lower (strip is_space text))
      in Inr (map (\<lambda>b. real b / 255 * 2 - 1) (take 8 digest)))"

definition STOPWORDS :: "string set" where
  "STOPWORDS = {''a'', ''an'', ''the'', ''and'', ''or'', ''to'', ''for'', ''of'', ''in'', ''on'', ''with'',
     ''please'', ''my'', ''me'', ''it'', ''anything'', ''regarding'', ''from'', ''is'',
     ''are'', ''this'', ''that'', ''at'', ''be'', ''will'', ''your''}"

definition embed_words :: "string \<Rightarrow> string list" where
  "embed_words text = map (\<lambda>w. str_lower (strip (\<lambda>c. c \<in> set ''.,!?;:'') w)) (str_split text)"

text \<open>\<open>int(digest.hexdigest(), 16)\<close>: the digest as a number, its first byte the highest.\<close>

definition digest_int :: "nat list \<Rightarrow> nat" where
  "digest_int bytes = fold (\<lambda>b n. 256 * n + b) bytes 0"

definition bucket_of :: "sha256 \<Rightarrow> nat \<Rightarrow> string \<Rightarrow> nat" where
  "bucket_of sha256 ndim word = digest_int (sha256 word) mod ndim"

definition count_word :: "sha256 \<Rightarrow> nat \<Rightarrow> vector \<Rightarrow> string \<Rightarrow> vector" where
  "count_word sha256 ndim vec word =
     (if word = [] \<or> word \<in> STOPWORDS then vec
      else let bucket = bucket_of sha256 ndim word in vec[bucket := vec ! bucket + 1])"

definition FakeSemanticEmbedder_embed :: "sha256 \<Rightarrow> nat \<Rightarrow> embedder" where
  "FakeSemanticEmbedder_embed sha256 ndim text =
     Inr (foldl (count_word sha256 ndim) (replicate ndim 0) (embed_words text))"

definition topic_words :: "string \<Rightarrow> string list" where
  "topic_words text = filter (\<lambda>w. w \<noteq> [] \<and> w \<notin> STOPWORDS) (embed_words text)"

lemma count_word_length [simp]: "length (count_word sha ndim vec w) = length vec"
  by (simp add: count_word_def Let_def)

text \<open>Each component counts the words of the text that fall into its bucket.\<close>

lemma count_words_nth:
  assumes "0 < ndim" "length vec = ndim" "i < ndim"
  shows "foldl (count_word sha ndim) vec ws ! i = vec ! i
    + real (length (filter (\<lambda>w. w \<noteq> [] \<and> w \<notin> STOPWORDS \<and> bucket_of sha ndim w = i) ws))"
  using assms(2)
proof (induction ws arbitrary: vec)
  case (Cons w ws)
  have "bucket_of sha ndim w < ndim" using assms(1) by (simp add: bucket_of_def)
  then have "count_word sha ndim vec w ! i
      = vec ! i + (if w \<noteq> [] \<and> w \<notin> STOPWORDS \<and> bucket_of sha ndim w = i then 1 else 0)"
    using Cons.prems assms(3) by (auto simp: count_word_def Let_def nth_list_update)
  with Cons show ?case by simp
qed simp

definition bag_vector :: "sha256 \<Rightarrow> nat \<Rightarrow> string \<Rightarrow> vector" where
  "bag_vector sha ndim text =
     map (\<lambda>i. real (length (filter (\<lambda>w. bucket_of sha ndim w = i) (topic_words text)))) [0..<ndim]"

lemma semantic_embed_bag:
  assumes "0 < ndim"
  shows "FakeSemanticEmbedder_embed sha ndim text = Inr (bag_vector sha ndim text)"
proof -
  let ?v = "foldl (count_word sha ndim) (replicate ndim 0) (embed_words text)"
  have len: "length ?v = ndim"
  proof -
    have "length (foldl (count_word sha ndim) vec ws) = length vec" for vec ws
      by (induction ws arbitrary: vec) simp_all
    then show ?thesis by simp
  qed
  have "?v = bag_vector sha ndim text"
  proof (rule nth_equalityI)
    fix i assume "i < length ?v"
    with len have "i < ndim" by simp
    with count_words_nth [OF assms, of "replicate ndim 0" i sha "embed_words text"]
    show "?v ! i = bag_vector sha ndim text ! i"
      by (simp add: bag_vector_def topic_words_def conj_ac)
  qed (simp add: len bag_vector_def)
  then show ?thesis by (simp add: FakeSemanticEmbedder_embed_def)
qed

lemma bag_vector_nonneg: "\<forall>x \<in> set (bag_vector sha ndim text). 0 \<le> x"
  by (simp add: bag_vector_def)

definition shares_bucket :: "sha256 \<Rightarrow> nat \<Rightarrow> string \<Rightarrow> string \<Rightarrow> bool" where
  "shares_bucket sha ndim a b \<longleftrightarrow>
     (\<exists>u \<in> set (topic_words a). \<exists>w \<in> set (topic_words b). bucket_of sha ndim u = bucket_of sha ndim w)"

lemma dot_map: "dot (map f is) (map h is) = sum_list (map (\<lambda>i. f i * h i) is)"
  by (induction "is") simp_all

lemma norm2_map: "norm2 (map f is) = sum_list (map (\<lambda>i. f i * f i) is)"
  by (induction "is") simp_all

lemma bag_dot_zero_iff:
  assumes "0 < ndim"
  shows "dot (bag_vector sha ndim a) (bag_vector sha ndim b) = 0 \<longleftrightarrow> \<not> shares_bucket sha ndim a b"
proof -
  let ?c = "\<lambda>t i. real (length (filter (\<lambda>w. bucket_of sha ndim w = i) (topic_words t)))"
  have "dot (bag_vector sha ndim a) (bag_vector sha ndim b) = 0 \<longleftrightarrow>
      (\<forall>i \<in> set [0..<ndim]. ?c a i * ?c b i = 0)"
    unfolding bag_vector_def dot_map by (subst sum_list_nonneg_eq_0_iff) auto
  also have "\<dots> \<longleftrightarrow> \<not> shares_bucket sha ndim a b"
    using assms by (auto simp: shares_bucket_def filter_empty_conv bucket_of_def)
  finally show ?thesis .
qed

lemma bag_norm_zero_iff:
  assumes "0 < ndim"
  shows "norm2 (bag_vector sha ndim a) = 0 \<longleftrightarrow> topic_words a = []"
proof -
  have "norm2 (bag_vector sha ndim a) = 0 \<longleftrightarrow> \<not> shares_bucket sha ndim a a"
    using bag_dot_zero_iff [OF assms, of sha a a] by (simp only: dot_self)
  also have "\<dots> \<longleftrightarrow> topic_words a = []"
    by (auto simp: shares_bucket_def) (metis list.set_intros(1) neq_Nil_conv)
  finally show ?thesis .
qed

text \<open>
  Whatever the vectors, the similarity the divergence detector compares with its threshold is
  symmetric and lies between -1 and 1.
\<close>

theorem cosine_bounds:
  "- 1 \<le> cosine_similarity a b \<and> cosine_similarity a b \<le> 1
     \<and> cosine_similarity a b = cosine_similarity b a"
  using cosine_abs_le_1 [of a b] cosine_commute [of a b] by linarith

text \<open>
  Whatever the hash function, the similarity of two texts under the bag-of-words embedder is
  not negative; it is 0 exactly when no topic word of one falls into the bucket of a topic word
  of the other, and 1 for texts with the same topic words, in any order, unless there are none.
\<close>

theorem semantic_similarity:
  assumes "FakeSemanticEmbedder_embed sha (Suc n) a = Inr u" "FakeSemanticEmbedder_embed sha (Suc n) b = Inr v"
  shows "0 \<le> cosine_similarity u v
    \<and> (cosine_similarity u v = 0 \<longleftrightarrow> \<not> shares_bucket sha (Suc n) a b)
    \<and> (mset (topic_words a) = mset (topic_words b) \<longrightarrow> topic_words a \<noteq> [] \<longrightarrow> cosine_similarity u v = 1)"
proof (intro conjI impI)
  from assms have u: "u = bag_vector sha (Suc n) a" and v: "v = bag_vector sha (Suc n) b"
    by (simp_all add: semantic_embed_bag)
  show "0 \<le> cosine_similarity u v"
    unfolding u v by (intro cosine_nonneg bag_vector_nonneg)
  show "cosine_similarity u v = 0 \<longleftrightarrow> \<not> shares_bucket sha (Suc n) a b"
  proof (cases "norm2 u = 0 \<or> norm2 v = 0")
    case True
    then have "cosine_similarity u v = 0" by (auto simp: cosine_similarity_def)
    moreover from True have "topic_words a = [] \<or> topic_words b = []"
      by (simp add: u v bag_norm_zero_iff)
    ultimately show ?thesis by (auto simp: shares_bucket_def)
  next
    case False
    then show ?thesis using bag_dot_zero_iff [of "Suc n" sha a b]
      by (simp add: cosine_similarity_def Let_def u v)
  qed
  assume eq: "mset (topic_words a) = mset (topic_words b)" and ne: "topic_words a \<noteq> []"
  have "length (filter P (topic_words a)) = length (filter P (topic_words b))" for P
    using eq by (metis mset_filter size_mset)
  then have "v = u" by (simp add: u v bag_vector_def)
  moreover have "norm2 u \<noteq> 0" using ne by (simp add: u bag_norm_zero_iff)
  ultimately show "cosine_similarity u v = 1" by (simp add: cosine_self)
qed

theorem semantic_similarity_witness:
  "let sha = (\<lambda>s. [length s]); a = ''check my calendar''; b = ''Calendar, check!'' in
   cosine_similarity (bag_vector sha (Suc 255) a) (bag_vector sha (Suc 255) b) = 1"
proof -
  have "mset (topic_words ''check my calendar'') = mset (topic_words ''Calendar, check!'')
      \<and> topic_words ''check my calendar'' \<noteq> []"
    by code_simp
  with semantic_similarity [OF semantic_embed_bag semantic_embed_bag,
      of 255 "\<lambda>s. [length s]" "''check my calendar''" "''Calendar, check!''"]
  show ?thesis by (simp add: Let_def)
qed

subsection \<open>The sentence transformer\<close>

text \<open>
  Models \<open>attribution/real_embedder.py\<close>. The library's constructor is a parameter: from a model
  name and an optional access token it makes the \<open>encode\<close> method of a model, or raises. The
  token is passed on only when it is set and not empty.
\<close>

definition MINILM_MODEL_NAME :: string where
  "MINILM_MODEL_NAME = ''all-MiniLM-L6-v2''"

definition MiniLMEmbedder ::
    "(string \<Rightarrow> string option \<Rightarrow> embedder result) \<Rightarrow> string \<Rightarrow> string option \<Rightarrow> embedder result" where
  "MiniLMEmbedder sentence_transformer model_name hf_token =
     (if key_set hf_token then sentence_transformer model_name hf_token
      else sentence_transformer model_name None)"

lemma minilm_blank_token: "MiniLMEmbedder f n (Some []) = MiniLMEmbedder f n None"
  by (simp add: MiniLMEmbedder_def key_set_def)

end
