(* ===== verification/PyRegex.thy ===== *)
theory PyRegex
  imports Prelude
begin

section \<open>The part of Python's \<open>re\<close> that the code uses\<close>

text \<open>
  The detectors and the redactor compile a handful of patterns and call \<open>search\<close> and \<open>sub\<close>.
  This theory models those two calls: patterns as a datatype, a backtracking matcher \<open>ends\<close>
  that lists the end positions of a match in the order in which \<open>re\<close> tries them (greedy
  repetition first, left alternative first), \<open>re_search\<close>, \<open>re_sub\<close> and the first capturing
  group of a pattern whose group is its last part.

  The matcher is checked against a declarative relation \<open>mat\<close>: \<open>ends_iff_mat\<close> says it lists
  exactly the positions where a match can end, \<open>re_search_iff\<close> that a search succeeds exactly
  when some substring matches in its context. \<open>re_sub\<close> replaces the leftmost matches in turn.
\<close>

subsection \<open>Patterns and positions\<close>

datatype regex =
    Cls "char \<Rightarrow> bool"
  | Bnd
  | Eps
  | Cat regex regex
  | Alt regex regex
  | Opt regex
  | Star regex

definition Plus :: "regex \<Rightarrow> regex" where
  "Plus r = Cat r (Star r)"

definition AtLeast2 :: "regex \<Rightarrow> regex" where
  "AtLeast2 r = Cat r (Cat r (Star r))"

fun Times :: "nat \<Rightarrow> regex \<Rightarrow> regex" where
  "Times 0 r = Eps"
| "Times (Suc 0) r = r"
| "Times (Suc (Suc n)) r = Cat r (Times (Suc n) r)"

fun cats :: "regex list \<Rightarrow> regex" where
  "cats [] = Eps"
| "cats [r] = r"
| "cats (r # s # rs) = Cat r (cats (s # rs))"

fun alts :: "regex list \<Rightarrow> regex" where
  "alts [] = Cls (\<lambda>_. False)"
| "alts [r] = r"
| "alts (r # s # rs) = Alt r (alts (s # rs))"

definition Ch :: "char \<Rightarrow> regex" where
  "Ch c = Cls (\<lambda>x. x = c)"

text \<open>A letter of a pattern compiled with \<open>re.IGNORECASE\<close>.\<close>

definition ChI :: "char \<Rightarrow> regex" where
  "ChI c = Cls (\<lambda>x. lower_char x = lower_char c)"

definition Lit :: "string \<Rightarrow> regex" where
  "Lit s = cats (map Ch s)"

definition LitI :: "string \<Rightarrow> regex" where
  "LitI s = cats (map ChI s)"

text \<open>A position is the character before it, if any, and the text after it.\<close>

type_synonym pos = "char option \<times> string"

definition word_opt :: "char option \<Rightarrow> bool" where
  "word_opt p = (case p of None \<Rightarrow> False | Some c \<Rightarrow> is_word c)"

definition next_opt :: "string \<Rightarrow> char option" where
  "next_opt s = (case s of [] \<Rightarrow> None | c # _ \<Rightarrow> Some c)"

definition at_boundary :: "pos \<Rightarrow> bool" where
  "at_boundary x \<longleftrightarrow> word_opt (fst x) \<noteq> word_opt (next_opt (snd x))"

subsection \<open>The backtracking matcher\<close>

fun star_ends :: "(pos \<Rightarrow> pos list) \<Rightarrow> nat \<Rightarrow> pos \<Rightarrow> pos list" where
  "star_ends f 0 x = [x]"
| "star_ends f (Suc n) x =
     concat (map (star_ends f n) (filter (\<lambda>y. length (snd y) < length (snd x)) (f x))) @ [x]"

primrec ends :: "regex \<Rightarrow> pos \<Rightarrow> pos list" where
  "ends (Cls P) x =
     (case snd x of [] \<Rightarrow> [] | c # s \<Rightarrow> if P c then [(Some c, s)] else [])"
| "ends Bnd x = (if at_boundary x then [x] else [])"
| "ends Eps x = [x]"
| "ends (Cat a b) x = concat (map (ends b) (ends a x))"
| "ends (Alt a b) x = ends a x @ ends b x"
| "ends (Opt a) x = ends a x @ [x]"
| "ends (Star a) x = star_ends (ends a) (length (snd x)) x"

fun search_from :: "regex \<Rightarrow> char option \<Rightarrow> string \<Rightarrow> bool" where
  "search_from r p s \<longleftrightarrow>
     ends r (p, s) \<noteq> [] \<or> (case s of [] \<Rightarrow> False | c # s' \<Rightarrow> search_from r (Some c) s')"

declare search_from.simps [simp del]

text \<open>\<open>pattern.search(text) is not None\<close>.\<close>

definition re_search :: "regex \<Rightarrow> string \<Rightarrow> bool" where
  "re_search r s = search_from r None s"

text \<open>
  \<open>re.search(prefix(group), text).group(1)\<close>: the text of the final group of the leftmost match.
\<close>

fun first_match :: "regex \<Rightarrow> pos list \<Rightarrow> (pos \<times> pos) option" where
  "first_match g [] = None"
| "first_match g (m # ms) =
     (case ends g m of e # _ \<Rightarrow> Some (m, e) | [] \<Rightarrow> first_match g ms)"

fun group_from :: "regex \<Rightarrow> regex \<Rightarrow> char option \<Rightarrow> string \<Rightarrow> string option" where
  "group_from r g p s =
     (case first_match g (ends r (p, s)) of
        Some (m, e) \<Rightarrow> Some (take (length (snd m) - length (snd e)) (snd m))
      | None \<Rightarrow> (case s of [] \<Rightarrow> None | c # s' \<Rightarrow> group_from r g (Some c) s'))"

declare group_from.simps [simp del]

definition re_group :: "regex \<Rightarrow> regex \<Rightarrow> string \<Rightarrow> string option" where
  "re_group r g s = group_from r g None s"

text \<open>
  \<open>pattern.sub(rep, text)\<close> for a pattern that never matches the empty string, which is so for
  every pattern the code substitutes: leftmost matches, each of them the first in backtracking
  order, scanning on from the end of the match in the original text.
\<close>

function sub_from :: "regex \<Rightarrow> string \<Rightarrow> char option \<Rightarrow> string \<Rightarrow> string" where
  "sub_from r rep p s =
     (case s of
        [] \<Rightarrow> []
      | c # s' \<Rightarrow>
          (case ends r (p, s) of
             (q, t) # _ \<Rightarrow>
               if length t < length s then rep @ sub_from r rep q t
               else c # sub_from r rep (Some c) s'
           | [] \<Rightarrow> c # sub_from r rep (Some c) s'))"
  by pat_completeness auto
termination
  by (relation "measure (\<lambda>(r, rep, p, s). length s)") auto

declare sub_from.simps [simp del]

definition re_sub :: "regex \<Rightarrow> string \<Rightarrow> string \<Rightarrow> string" where
  "re_sub r rep s = sub_from r rep None s"

subsection \<open>Matching, declaratively\<close>

inductive mat :: "regex \<Rightarrow> pos \<Rightarrow> pos \<Rightarrow> bool" where
  mat_Cls: "P c \<Longrightarrow> mat (Cls P) (p, c # s) (Some c, s)"
| mat_Bnd: "at_boundary x \<Longrightarrow> mat Bnd x x"
| mat_Eps: "mat Eps x x"
| mat_Cat: "mat a x y \<Longrightarrow> mat b y z \<Longrightarrow> mat (Cat a b) x z"
| mat_AltL: "mat a x y \<Longrightarrow> mat (Alt a b) x y"
| mat_AltR: "mat b x y \<Longrightarrow> mat (Alt a b) x y"
| mat_Opt0: "mat (Opt a) x x"
| mat_Opt1: "mat a x y \<Longrightarrow> mat (Opt a) x y"
| mat_Star0: "mat (Star a) x x"
| mat_Star1: "mat a x y \<Longrightarrow> mat (Star a) y z \<Longrightarrow> mat (Star a) x z"

inductive_cases mat_ClsE: "mat (Cls P) x y"
inductive_cases mat_BndE: "mat Bnd x y"
inductive_cases mat_EpsE: "mat Eps x y"
inductive_cases mat_CatE: "mat (Cat a b) x y"
inductive_cases mat_AltE: "mat (Alt a b) x y"
inductive_cases mat_OptE: "mat (Opt a) x y"

inductive_simps mat_Cls_iff: "mat (Cls P) x y"
inductive_simps mat_Bnd_iff: "mat Bnd x y"
inductive_simps mat_Cat_iff: "mat (Cat a b) x y"
inductive_simps mat_Alt_iff: "mat (Alt a b) x y"
inductive_simps mat_Opt_iff: "mat (Opt a) x y"

text \<open>A match consumes a prefix \<open>w\<close> of the text, and the character before its end is \<open>w\<close>'s last.\<close>

definition last_opt :: "char option \<Rightarrow> string \<Rightarrow> char option" where
  "last_opt p w = (if w = [] then p else Some (last w))"

definition steps_over :: "pos \<Rightarrow> string \<Rightarrow> pos \<Rightarrow> bool" where
  "steps_over x w y \<longleftrightarrow> snd x = w @ snd y \<and> fst y = last_opt (fst x) w"

lemma last_opt_simps [simp]:
  "last_opt p [] = p"
  "last_opt p (c # w) = last_opt (Some c) w"
  by (simp_all add: last_opt_def)

lemma last_opt_append [simp]: "last_opt p (u @ v) = last_opt (last_opt p u) v"
  by (simp add: last_opt_def)

lemma steps_over_refl [simp]: "steps_over x [] x"
  by (simp add: steps_over_def)

lemma steps_over_Nil: "steps_over x [] y \<Longrightarrow> y = x"
  by (simp add: steps_over_def prod_eq_iff)

lemma steps_over_trans: "steps_over x u y \<Longrightarrow> steps_over y v z \<Longrightarrow> steps_over x (u @ v) z"
  by (simp add: steps_over_def)

lemma mat_steps: "mat r x y \<Longrightarrow> \<exists>w. steps_over x w y"
proof (induction rule: mat.induct)
  case (mat_Cls P c p s)
  have "steps_over (p, c # s) [c] (Some c, s)" by (simp add: steps_over_def)
  then show ?case by blast
next
  case (mat_Cat a x y b z)
  then show ?case by (blast intro: steps_over_trans)
next
  case (mat_Star1 a x y z)
  then show ?case by (blast intro: steps_over_trans)
qed (blast intro: steps_over_refl)+

lemma mat_length: "mat r x y \<Longrightarrow> length (snd y) \<le> length (snd x)"
  using mat_steps by (fastforce simp: steps_over_def)

lemma mat_no_progress: "mat r x y \<Longrightarrow> \<not> length (snd y) < length (snd x) \<Longrightarrow> y = x"
  using mat_steps by (fastforce simp: steps_over_def intro: steps_over_Nil prod_eqI)

subsection \<open>The matcher computes the relation\<close>

lemma star_ends_Suc_iff:
  "z \<in> set (star_ends f (Suc n) x) \<longleftrightarrow>
     z = x \<or> (\<exists>y. y \<in> set (f x) \<and> length (snd y) < length (snd x) \<and> z \<in> set (star_ends f n y))"
  by auto

lemma star_ends_sound:
  assumes f: "\<And>x y. y \<in> set (f x) \<Longrightarrow> mat a x y"
  shows "y \<in> set (star_ends f n x) \<Longrightarrow> mat (Star a) x y"
proof (induction n arbitrary: x)
  case 0
  then show ?case by (simp add: mat_Star0)
next
  case (Suc n)
  then show ?case
    unfolding star_ends_Suc_iff by (blast intro: mat_Star0 mat_Star1 f)
qed

lemma star_ends_complete:
  assumes f: "\<And>x y. mat a x y \<Longrightarrow> y \<in> set (f x)"
  shows "mat r x y \<Longrightarrow> r = Star a \<Longrightarrow> length (snd x) \<le> n \<Longrightarrow> y \<in> set (star_ends f n x)"
proof (induction arbitrary: n rule: mat.induct)
  case (mat_Star0 a x)
  then show ?case by (cases n) auto
next
  case (mat_Star1 b x y z)
  then have b: "b = a" by simp
  show ?case
  proof (cases "length (snd y) < length (snd x)")
    case False
    with mat_Star1.hyps(1) have "y = x" by (rule mat_no_progress)
    with mat_Star1 show ?thesis by simp
  next
    case True
    with mat_Star1.prems obtain m where n: "n = Suc m" by (cases n) auto
    with True mat_Star1.prems have "z \<in> set (star_ends f m y)"
      by (intro mat_Star1.IH(2)) auto
    moreover from mat_Star1.hyps(1) b have "y \<in> set (f x)" by (simp add: f)
    ultimately show ?thesis unfolding n star_ends_Suc_iff using True by blast
  qed
qed auto

theorem ends_iff_mat: "y \<in> set (ends r x) \<longleftrightarrow> mat r x y"
proof (induction r arbitrary: x y)
  case (Cls P)
  show ?case
    by (cases x) (auto split: list.splits intro: mat_Cls elim: mat_ClsE)
next
  case Bnd
  show ?case by (auto intro: mat_Bnd elim: mat_BndE)
next
  case Eps
  show ?case by (auto intro: mat_Eps elim: mat_EpsE)
next
  case (Cat a b)
  have "y \<in> set (ends (Cat a b) x) \<longleftrightarrow> (\<exists>z. z \<in> set (ends a x) \<and> y \<in> set (ends b z))"
    by (simp add: Bex_def del: split_paired_Ex)
  also have "\<dots> \<longleftrightarrow> (\<exists>z. mat a x z \<and> mat b z y)" using Cat.IH by blast
  also have "\<dots> \<longleftrightarrow> mat (Cat a b) x y" by (blast intro: mat_Cat elim: mat_CatE)
  finally show ?case .
next
  case (Alt a b)
  then show ?case
    by (simp del: split_paired_All) (blast intro: mat_AltL mat_AltR elim: mat_AltE)
next
  case (Opt a)
  then show ?case
    by (simp del: split_paired_All) (blast intro: mat_Opt0 mat_Opt1 elim: mat_OptE)
next
  case (Star a)
  have "y \<in> set (star_ends (ends a) (length (snd x)) x) \<longleftrightarrow> mat (Star a) x y"
    using star_ends_sound [of "ends a" a y _ x] star_ends_complete [of a "ends a" "Star a" x y]
      Star.IH by blast
  then show ?case by simp
qed

lemma ends_Nil_iff: "ends r x = [] \<longleftrightarrow> (\<nexists>y. mat r x y)"
proof -
  have "ends r x = [] \<longleftrightarrow> (\<nexists>y. y \<in> set (ends r x))"
    by (cases "ends r x") auto
  then show ?thesis by (simp only: ends_iff_mat)
qed

subsection \<open>Searching\<close>

lemma search_from_iff:
  "search_from r p s \<longleftrightarrow> (\<exists>u t y. s = u @ t \<and> mat r (last_opt p u, t) y)"
proof (induction s arbitrary: p)
  case Nil
  show ?case
    by (subst search_from.simps) (auto simp: ends_Nil_iff)
next
  case (Cons c s)
  have step: "search_from r p (c # s) \<longleftrightarrow>
      (\<exists>y. mat r (p, c # s) y) \<or> (\<exists>u t y. s = u @ t \<and> mat r (last_opt (Some c) u, t) y)"
    by (subst search_from.simps) (simp add: ends_Nil_iff Cons.IH)
  show ?case (is "_ \<longleftrightarrow> ?R")
  proof
    assume "search_from r p (c # s)"
    then consider y where "mat r (p, c # s) y"
      | u t y where "s = u @ t" "mat r (last_opt (Some c) u, t) y"
      unfolding step by blast
    then show ?R
    proof cases
      case 1
      then show ?thesis by (metis append_Nil last_opt_simps(1))
    next
      case 2
      then show ?thesis by (metis append_Cons last_opt_simps(2))
    qed
  next
    assume ?R
    then obtain u t y where eq: "c # s = u @ t" and m: "mat r (last_opt p u, t) y" by blast
    show "search_from r p (c # s)"
    proof (cases u)
      case Nil
      with eq m have "mat r (p, c # s) y" by simp
      then show ?thesis unfolding step by blast
    next
      case (Cons d v)
      with eq m have "s = v @ t" and "mat r (last_opt (Some c) v, t) y" by simp_all
      then show ?thesis unfolding step by blast
    qed
  qed
qed

lemma re_search_iff:
  "re_search r s \<longleftrightarrow> (\<exists>u w v q. s = u @ w @ v \<and> mat r (last_opt None u, w @ v) (q, v))"
  (is "_ \<longleftrightarrow> ?R")
proof
  assume "re_search r s"
  then obtain u t y where s: "s = u @ t" and m: "mat r (last_opt None u, t) y"
    unfolding re_search_def search_from_iff by blast
  from mat_steps [OF m] obtain w where "t = w @ snd y" by (auto simp: steps_over_def)
  with s m show ?R by (metis prod.collapse)
next
  assume ?R
  then show "re_search r s" unfolding re_search_def search_from_iff by blast
qed

end
