(* ===== verification/RegexClean.thy ===== *)
theory RegexClean
  imports PyRegex
begin

section \<open>What a substitution leaves behind\<close>

text \<open>
  Redaction substitutes bracketed marks such as \<open>[REDACTED_SSN]\<close> for the matches of several
  patterns, one pattern after the other. This theory proves the general facts about \<open>re_sub\<close>
  which make that safe: after a pass nothing the pattern denotes is left (\<open>sub_clean_own\<close>), and
  a later pass cannot bring back what an earlier one removed (\<open>sub_clean_other\<close>), although a
  mark changes the characters next to what is kept, and so where the word boundaries are.
\<close>

subsection \<open>The language of a pattern without word boundaries\<close>

fun bnd_free :: "regex \<Rightarrow> bool" where
  "bnd_free Bnd \<longleftrightarrow> False"
| "bnd_free (Cat a b) \<longleftrightarrow> bnd_free a \<and> bnd_free b"
| "bnd_free (Alt a b) \<longleftrightarrow> bnd_free a \<and> bnd_free b"
| "bnd_free (Opt a) \<longleftrightarrow> bnd_free a"
| "bnd_free (Star a) \<longleftrightarrow> bnd_free a"
| "bnd_free _ \<longleftrightarrow> True"

inductive lang :: "regex \<Rightarrow> string \<Rightarrow> bool" where
  lang_Cls: "P c \<Longrightarrow> lang (Cls P) [c]"
| lang_Eps: "lang Eps []"
| lang_Cat: "lang a u \<Longrightarrow> lang b v \<Longrightarrow> lang (Cat a b) (u @ v)"
| lang_AltL: "lang a u \<Longrightarrow> lang (Alt a b) u"
| lang_AltR: "lang b u \<Longrightarrow> lang (Alt a b) u"
| lang_Opt0: "lang (Opt a) []"
| lang_Opt1: "lang a u \<Longrightarrow> lang (Opt a) u"
| lang_Star0: "lang (Star a) []"
| lang_Star1: "lang a u \<Longrightarrow> lang (Star a) v \<Longrightarrow> lang (Star a) (u @ v)"

inductive_simps lang_Cls_iff: "lang (Cls P) w"
inductive_simps lang_Eps_iff: "lang Eps w"
inductive_simps lang_Cat_iff: "lang (Cat a b) w"
inductive_simps lang_Alt_iff: "lang (Alt a b) w"
inductive_simps lang_Opt_iff: "lang (Opt a) w"

lemma mat_imp_lang: "mat r x y \<Longrightarrow> bnd_free r \<Longrightarrow> \<exists>w. steps_over x w y \<and> lang r w"
proof (induction rule: mat.induct)
  case (mat_Cls P c p s)
  then have "steps_over (p, c # s) [c] (Some c, s) \<and> lang (Cls P) [c]"
    by (simp add: steps_over_def lang_Cls)
  then show ?case by blast
next
  case (mat_Cat a x y b z)
  then show ?case by (auto intro: steps_over_trans lang_Cat)
next
  case (mat_Star1 a x y z)
  then show ?case by (auto intro: steps_over_trans lang_Star1)
qed (auto intro: lang.intros steps_over_refl)

lemma lang_imp_mat: "lang r w \<Longrightarrow> mat r (p, w @ v) (last_opt p w, v)"
proof (induction arbitrary: p v rule: lang.induct)
  case (lang_Cat a u b w)
  then have "mat a (p, u @ w @ v) (last_opt p u, w @ v)"
    and "mat b (last_opt p u, w @ v) (last_opt (last_opt p u) w, v)" by auto
  then show ?case by (simp add: mat_Cat)
next
  case (lang_Star1 a u w)
  then have "mat a (p, u @ w @ v) (last_opt p u, w @ v)"
    and "mat (Star a) (last_opt p u, w @ v) (last_opt (last_opt p u) w, v)" by auto
  then show ?case by (simp add: mat_Star1)
qed (auto intro: mat.intros)

theorem mat_iff_lang:
  assumes "bnd_free r"
  shows "mat r x y \<longleftrightarrow> (\<exists>w. steps_over x w y \<and> lang r w)"
proof
  assume "\<exists>w. steps_over x w y \<and> lang r w"
  then obtain w where w: "steps_over x w y" and l: "lang r w" by blast
  from lang_imp_mat [OF l, of "fst x" "snd y"] w show "mat r x y"
    by (cases x; cases y) (simp add: steps_over_def)
qed (simp add: assms mat_imp_lang)

subsection \<open>Denotations: a set of words and the boundaries around them\<close>

text \<open>
  Each substituted pattern matches the words of a set, possibly only where no word character
  stands before it (\<open>lb\<close>) or after it (\<open>rb\<close>).
\<close>

record denot =
  dn_lb :: bool
  dn_rb :: bool
  dn_words :: "string \<Rightarrow> bool"

definition occurs_at :: "denot \<Rightarrow> char option \<Rightarrow> string \<Rightarrow> bool" where
  "occurs_at D p s \<longleftrightarrow> (\<exists>w v. s = w @ v \<and> dn_words D w
     \<and> (dn_lb D \<longrightarrow> \<not> word_opt p) \<and> (dn_rb D \<longrightarrow> \<not> word_opt (next_opt v)))"

definition free_of :: "denot \<Rightarrow> char option \<Rightarrow> string \<Rightarrow> bool" where
  "free_of D p s \<longleftrightarrow> (\<forall>u v. s = u @ v \<longrightarrow> \<not> occurs_at D (last_opt p u) v)"

definition denotes :: "regex \<Rightarrow> denot \<Rightarrow> bool" where
  "denotes r D \<longleftrightarrow> (\<forall>p s. (\<exists>y. mat r (p, s) y) \<longleftrightarrow> occurs_at D p s)"

lemma denotes_ends: "denotes r D \<Longrightarrow> ends r (p, s) = [] \<Longrightarrow> \<not> occurs_at D p s"
  unfolding denotes_def ends_Nil_iff by blast

lemma search_from_free: "denotes r D \<Longrightarrow> search_from r p s \<longleftrightarrow> \<not> free_of D p s"
  unfolding search_from_iff free_of_def denotes_def by blast

lemma free_of_Nil: "(\<And>w. dn_words D w \<Longrightarrow> w \<noteq> []) \<Longrightarrow> free_of D p []"
  by (auto simp: free_of_def occurs_at_def)

lemma free_of_Cons:
  "free_of D p (c # s) \<longleftrightarrow> \<not> occurs_at D p (c # s) \<and> free_of D (Some c) s"
proof
  assume fr: "free_of D p (c # s)"
  have "\<not> occurs_at D p (c # s)" using fr unfolding free_of_def by (metis append_Nil last_opt_simps(1))
  moreover have "free_of D (Some c) s"
    using fr unfolding free_of_def by (metis append_Cons last_opt_simps(2))
  ultimately show "\<not> occurs_at D p (c # s) \<and> free_of D (Some c) s" by blast
next
  assume "\<not> occurs_at D p (c # s) \<and> free_of D (Some c) s"
  then have now: "\<not> occurs_at D p (c # s)"
    and later: "\<And>u v. s = u @ v \<Longrightarrow> \<not> occurs_at D (last_opt (Some c) u) v"
    by (auto simp: free_of_def)
  show "free_of D p (c # s)" unfolding free_of_def
  proof (intro allI impI)
    fix u v assume "c # s = u @ v"
    then show "\<not> occurs_at D (last_opt p u) v"
      by (cases u) (use now later in auto)
  qed
qed

lemma free_of_append: "free_of D p (u @ v) \<Longrightarrow> free_of D (last_opt p u) v"
  by (induction u arbitrary: p) (auto simp: free_of_Cons)

subsection \<open>One pass of substitution\<close>

text \<open>
  What the passes have in common: the mark is a bracketed text, a match ends where no word
  character follows (\<open>ends_open\<close>), and a match cannot begin right behind a word character that
  the scan has just passed over (\<open>starts_open\<close>): it would have begun there or earlier.
\<close>

definition bracketed :: "string \<Rightarrow> bool" where
  "bracketed rep \<longleftrightarrow> (\<exists>m. rep = CHR ''['' # m @ [CHR '']''])"

definition no_bracket :: "string \<Rightarrow> bool" where
  "no_bracket w \<longleftrightarrow> CHR ''['' \<notin> set w \<and> CHR '']'' \<notin> set w"

definition sub_pass :: "regex \<Rightarrow> string \<Rightarrow> bool" where
  "sub_pass r rep \<longleftrightarrow> bracketed rep
     \<and> (\<forall>p s q t ys. ends r (p, s) = (q, t) # ys \<longrightarrow> length t < length s \<and> \<not> word_opt (next_opt t))
     \<and> (\<forall>p c s. is_word c \<longrightarrow> ends r (p, c # s) = [] \<longrightarrow> ends r (Some c, s) = [])"

lemma sub_pass_endsD:
  "sub_pass r rep \<Longrightarrow> ends r (p, s) = (q, t) # ys \<Longrightarrow> length t < length s \<and> \<not> word_opt (next_opt t)"
  unfolding sub_pass_def by blast

lemma sub_pass_startD:
  "sub_pass r rep \<Longrightarrow> is_word c \<Longrightarrow> ends r (p, c # s) = [] \<Longrightarrow> ends r (Some c, s) = []"
  unfolding sub_pass_def by blast

lemma sub_pass_bracketed: "sub_pass r rep \<Longrightarrow> bracketed rep"
  unfolding sub_pass_def by blast

lemma next_opt_simps [simp]: "next_opt [] = None" "next_opt (c # s) = Some c"
  by (simp_all add: next_opt_def)

lemma word_opt_simps [simp]: "word_opt None = False" "word_opt (Some c) = is_word c"
  by (simp_all add: word_opt_def)

lemma brackets_no_word [simp]: "\<not> is_word (CHR ''['')" "\<not> is_word (CHR '']'')"
  by (simp_all add: is_word_def code_point_def)

lemma bracketedE:
  assumes "bracketed rep"
  obtains m where "rep = CHR ''['' # m @ [CHR '']'']"
  using assms by (auto simp: bracketed_def)

lemma bracketed_next [simp]: "bracketed rep \<Longrightarrow> next_opt (rep @ v) = Some CHR ''[''"
  by (auto simp: bracketed_def)

lemma sub_from_Nil [simp]: "sub_from r rep p [] = []"
  by (subst sub_from.simps) simp

lemma sub_from_match:
  assumes "ends r (p, s) = (q, t) # ys" and "length t < length s"
  shows "sub_from r rep p s = rep @ sub_from r rep q t"
  using assms by (subst sub_from.simps) (cases s; simp)

lemma sub_from_skip:
  assumes "ends r (p, c # s) = []"
  shows "sub_from r rep p (c # s) = c # sub_from r rep (Some c) s"
  using assms by (subst sub_from.simps) simp

text \<open>Induction over the scan of one pass: the end of the text, a match, a character kept.\<close>

lemma sub_pass_induct [consumes 1, case_names Nil match skip]:
  assumes pass: "sub_pass r rep"
    and Nil: "\<And>p. Q p []"
    and match: "\<And>p s q t w. ends r (p, s) \<noteq> [] \<Longrightarrow> s = w @ t \<Longrightarrow> w \<noteq> [] \<Longrightarrow> q = last_opt p w \<Longrightarrow>
       \<not> word_opt (next_opt t) \<Longrightarrow> sub_from r rep p s = rep @ sub_from r rep q t \<Longrightarrow> Q q t \<Longrightarrow> Q p s"
    and skip: "\<And>p c s. ends r (p, c # s) = [] \<Longrightarrow>
       sub_from r rep p (c # s) = c # sub_from r rep (Some c) s \<Longrightarrow> Q (Some c) s \<Longrightarrow> Q p (c # s)"
  shows "Q p s"
proof (induction "length s" arbitrary: p s rule: less_induct)
  case less
  show ?case
  proof (cases "ends r (p, s)")
    case Nil
    show ?thesis
    proof (cases s)
      case (Cons c s')
      with Nil less show ?thesis by (auto intro: skip sub_from_skip)
    qed (simp add: assms(2))
  next
    case (Cons y ys)
    obtain q t where y: "y = (q, t)" by (cases y)
    from sub_pass_endsD [OF pass Cons [unfolded y]]
    have short: "length t < length s" and nw: "\<not> word_opt (next_opt t)" by auto
    have "mat r (p, s) (q, t)" using ends_iff_mat [of "(q, t)" r "(p, s)"] Cons y by simp
    from mat_steps [OF this] obtain w where w: "s = w @ t" "q = last_opt p w"
      by (auto simp: steps_over_def)
    show ?thesis
      by (rule match [of p s w t q])
        (use Cons y w short nw less sub_from_match in auto)
  qed
qed

text \<open>
  Kept text is original text: a bracket-free beginning of the output that ends in a word
  character is a beginning of the input, and no word character follows it there if none follows
  it in the output.
\<close>

lemma sub_pass_kept:
  assumes pass: "sub_pass r rep"
  shows "sub_from r rep p s = w @ v \<Longrightarrow> no_bracket w \<Longrightarrow> w \<noteq> [] \<Longrightarrow>
    \<exists>v0. s = w @ v0 \<and> v = sub_from r rep (last_opt p w) v0
      \<and> (is_word (last w) \<longrightarrow> \<not> word_opt (next_opt v) \<longrightarrow> \<not> word_opt (next_opt v0))"
proof (induction w arbitrary: p s)
  case Nil
  then show ?case by simp
next
  case (Cons c w)
  from pass obtain m where rep: "rep = CHR ''['' # m @ [CHR '']'']"
    by (auto dest: sub_pass_bracketed elim: bracketedE)
  have nomatch: "ends r (p, s) = []"
  proof (rule ccontr)
    assume "ends r (p, s) \<noteq> []"
    then obtain q t ys where e: "ends r (p, s) = (q, t) # ys" by (cases "ends r (p, s)") auto
    with sub_pass_endsD [OF pass e] have "sub_from r rep p s = rep @ sub_from r rep q t"
      by (blast intro: sub_from_match)
    with Cons.prems rep show False by (simp add: no_bracket_def)
  qed
  from Cons.prems(1) obtain d s' where s: "s = d # s'" by (cases s) auto
  from nomatch Cons.prems(1) s have d: "d = c" and rest: "sub_from r rep (Some c) s' = w @ v"
    by (auto simp: sub_from_skip)
  show ?case
  proof (cases "w = []")
    case True
    have "\<not> word_opt (next_opt s')" if "is_word c" "\<not> word_opt (next_opt v)"
    proof (cases s')
      case (Cons e s'')
      from sub_pass_startD [OF pass that(1)] nomatch s d have "ends r (Some c, s') = []"
        by simp
      with Cons rest True that(2) show ?thesis by (auto simp: sub_from_skip)
    qed simp
    with True s d rest show ?thesis by auto
  next
    case False
    with Cons.IH [OF rest] Cons.prems(2) s d show ?thesis
      by (auto simp: no_bracket_def)
  qed
qed

text \<open>
  The general step: if no word of \<open>D\<close> occurs where the scan finds no match, none occurs in the
  output. The context \<open>p'\<close> of the output may differ from the context \<open>p\<close> of the input.
\<close>

definition safe_words :: "denot \<Rightarrow> string \<Rightarrow> bool" where
  "safe_words D rep \<longleftrightarrow> (\<forall>w. dn_words D w \<longrightarrow> w \<noteq> [] \<and> no_bracket w
     \<and> (dn_lb D \<longrightarrow> is_word (hd w)) \<and> (dn_rb D \<longrightarrow> is_word (last w)) \<and> \<not> str_in w rep)"

lemma occurs_after_mark:
  assumes D: "safe_words D rep" and rep: "bracketed rep"
    and occ: "\<not> free_of D p' (rep @ X)"
  shows "\<not> free_of D (Some CHR '']'') X"
proof -
  from occ obtain u w v where eq: "rep @ X = u @ w @ v" and w: "dn_words D w"
    and lb: "dn_lb D \<longrightarrow> \<not> word_opt (last_opt p' u)" and rb: "dn_rb D \<longrightarrow> \<not> word_opt (next_opt v)"
    unfolding free_of_def occurs_at_def by blast
  from D w have wok: "w \<noteq> []" "no_bracket w" "\<not> str_in w rep" by (auto simp: safe_words_def)
  from rep obtain m where m: "rep = m @ [CHR '']'']" "m \<noteq> []" by (auto elim: bracketedE)
  show ?thesis
  proof (cases "length rep \<le> length u")
    case True
    with eq obtain u' where u: "u = rep @ u'" and X: "X = u' @ w @ v"
      by (auto simp: append_eq_append_conv_if) (metis append_take_drop_id)
    from m u have "last_opt p' u = last_opt (Some CHR '']'') u'" by (simp add: last_opt_def)
    with lb rb w X show ?thesis unfolding free_of_def occurs_at_def by metis
  next
    case False
    have "\<not> length (u @ w) \<le> length rep"
    proof
      assume "length (u @ w) \<le> length rep"
      moreover from eq have "rep @ X = (u @ w) @ v" by simp
      ultimately obtain z where "rep = (u @ w) @ z"
        by (metis append_eq_append_conv_if append_take_drop_id)
      then have "rep = u @ w @ z" by simp
      then have "str_in w rep" unfolding str_in_iff by blast
      with wok show False by simp
    qed
    then have "length u < length rep" "length rep < length u + length w \<or> length rep = length u + length w"
      using False by auto
    then have "rep ! (length rep - 1) \<in> set w"
    proof -
      let ?i = "length rep - 1"
      have i: "length u \<le> ?i" "?i < length u + length w" "?i < length rep"
        using False \<open>\<not> length (u @ w) \<le> length rep\<close> m by auto
      have "rep ! ?i = (rep @ X) ! ?i" using i by (simp add: nth_append)
      also have "\<dots> = (w @ v) ! (?i - length u)" unfolding eq using i by (simp add: nth_append)
      also have "\<dots> = w ! (?i - length u)" using i by (subst nth_append) auto
      also have "\<dots> \<in> set w" using i by (intro nth_mem) linarith
      finally show ?thesis .
    qed
    moreover have "rep ! (length rep - 1) = CHR '']''" using m by (simp add: nth_append)
    ultimately show ?thesis using wok by (simp add: no_bracket_def)
  qed
qed

lemma sub_pass_free:
  assumes pass: "sub_pass r rep" and D: "safe_words D rep"
    and quiet: "\<And>u v. s = u @ v \<Longrightarrow> ends r (last_opt p u, v) = [] \<Longrightarrow> \<not> occurs_at D (last_opt p u) v"
    and ctx: "word_opt p' = word_opt p \<or> \<not> word_opt (next_opt s)"
  shows "free_of D p' (sub_from r rep p s)"
  using quiet ctx
proof (induction p s arbitrary: p' rule: sub_pass_induct [OF pass, consumes 0])
  case (1 p)
  from D have "\<And>w. dn_words D w \<Longrightarrow> w \<noteq> []" by (auto simp: safe_words_def)
  then show ?case by (simp add: free_of_Nil)
next
  case (2 p s q t w)
  have "free_of D (Some CHR '']'') (sub_from r rep q t)"
  proof (rule "2.IH")
    fix u v assume "t = u @ v" "ends r (last_opt q u, v) = []"
    with "2.prems"(1) [of "w @ u" v] "2.hyps" show "\<not> occurs_at D (last_opt q u) v" by simp
  qed (use "2.hyps" in simp)
  then have "free_of D p' (rep @ sub_from r rep q t)"
    using occurs_after_mark [OF D sub_pass_bracketed [OF pass]] by blast
  with "2.hyps" show ?case by simp
next
  case (3 p c s)
  have "\<not> occurs_at D p' (c # sub_from r rep (Some c) s)"
  proof
    assume "occurs_at D p' (c # sub_from r rep (Some c) s)"
    then obtain w v where eq: "sub_from r rep p (c # s) = w @ v" and w: "dn_words D w"
      and lb: "dn_lb D \<longrightarrow> \<not> word_opt p'" and rb: "dn_rb D \<longrightarrow> \<not> word_opt (next_opt v)"
      using "3.hyps"(2) unfolding occurs_at_def by auto
    from D w have wok: "w \<noteq> []" "no_bracket w" "dn_lb D \<longrightarrow> is_word (hd w)"
      "dn_rb D \<longrightarrow> is_word (last w)" by (auto simp: safe_words_def)
    from sub_pass_kept [OF pass eq wok(2,1)] obtain v0 where v0: "c # s = w @ v0"
      and nw: "is_word (last w) \<longrightarrow> \<not> word_opt (next_opt v) \<longrightarrow> \<not> word_opt (next_opt v0)" by blast
    from v0 wok(1) have "hd w = c" by (cases w) auto
    with lb wok(3) "3.prems"(2) have "dn_lb D \<longrightarrow> \<not> word_opt p" by auto
    with v0 w rb nw wok(4) have "occurs_at D p (c # s)" unfolding occurs_at_def by blast
    with "3.prems"(1) [of "[]" "c # s"] "3.hyps"(1) show False by simp
  qed
  moreover have "free_of D (Some c) (sub_from r rep (Some c) s)"
  proof (rule "3.IH")
    fix u v assume "s = u @ v" "ends r (last_opt (Some c) u, v) = []"
    with "3.prems"(1) [of "c # u" v] show "\<not> occurs_at D (last_opt (Some c) u) v" by simp
  qed simp
  ultimately show ?case unfolding "3.hyps"(2) free_of_Cons by blast
qed

text \<open>A pass removes what its own pattern denotes, and brings back nothing that was gone.\<close>

theorem sub_clean_own:
  assumes "sub_pass r rep" "safe_words D rep" "denotes r D"
  shows "free_of D None (re_sub r rep s)"
  unfolding re_sub_def
  by (rule sub_pass_free [OF assms(1,2)]) (auto dest: denotes_ends [OF assms(3)])

theorem sub_clean_other:
  assumes "sub_pass r rep" "safe_words D rep" "free_of D None s"
  shows "free_of D None (re_sub r rep s)"
  unfolding re_sub_def
  by (rule sub_pass_free [OF assms(1,2)]) (use assms(3) in \<open>auto simp: free_of_def\<close>)

text \<open>Where a search finds nothing, a substitution changes nothing.\<close>

lemma sub_from_id: "\<not> search_from r p s \<Longrightarrow> sub_from r rep p s = s"
proof (induction s arbitrary: p)
  case (Cons c s)
  then have "ends r (p, c # s) = []" "\<not> search_from r (Some c) s"
    by (auto simp: search_from.simps [of r p])
  with Cons.IH show ?case by (simp add: sub_from_skip)
qed simp

lemma re_sub_id: "\<not> re_search r s \<Longrightarrow> re_sub r rep s = s"
  by (simp add: re_sub_def re_search_def sub_from_id)

subsection \<open>Reading a pattern off its syntax\<close>

text \<open>
  What a word of a pattern can be made of, and what it begins and ends with, follow from the
  character classes of the pattern.
\<close>

fun all_cls :: "(char \<Rightarrow> bool) \<Rightarrow> regex \<Rightarrow> bool" where
  "all_cls P (Cls Q) \<longleftrightarrow> (\<forall>c. Q c \<longrightarrow> P c)"
| "all_cls P (Cat a b) \<longleftrightarrow> all_cls P a \<and> all_cls P b"
| "all_cls P (Alt a b) \<longleftrightarrow> all_cls P a \<and> all_cls P b"
| "all_cls P (Opt a) \<longleftrightarrow> all_cls P a"
| "all_cls P (Star a) \<longleftrightarrow> all_cls P a"
| "all_cls P _ \<longleftrightarrow> True"

fun first_cls :: "(char \<Rightarrow> bool) \<Rightarrow> regex \<Rightarrow> bool" where
  "first_cls P (Cls Q) \<longleftrightarrow> (\<forall>c. Q c \<longrightarrow> P c)"
| "first_cls P (Cat a b) \<longleftrightarrow> first_cls P a"
| "first_cls P (Alt a b) \<longleftrightarrow> first_cls P a \<and> first_cls P b"
| "first_cls P _ \<longleftrightarrow> False"

fun last_cls :: "(char \<Rightarrow> bool) \<Rightarrow> regex \<Rightarrow> bool" where
  "last_cls P (Cls Q) \<longleftrightarrow> (\<forall>c. Q c \<longrightarrow> P c)"
| "last_cls P (Cat a b) \<longleftrightarrow> last_cls P b"
| "last_cls P (Alt a b) \<longleftrightarrow> last_cls P a \<and> last_cls P b"
| "last_cls P _ \<longleftrightarrow> False"

lemma lang_all_cls: "lang r w \<Longrightarrow> all_cls P r \<Longrightarrow> c \<in> set w \<Longrightarrow> P c"
  by (induction rule: lang.induct) auto

lemma lang_first_cls: "lang r w \<Longrightarrow> first_cls P r \<Longrightarrow> w \<noteq> [] \<and> P (hd w)"
  by (induction rule: lang.induct) auto

lemma lang_last_cls: "lang r w \<Longrightarrow> last_cls P r \<Longrightarrow> w \<noteq> [] \<and> P (last w)"
  by (induction rule: lang.induct) auto

lemma all_cls_Times [simp]: "all_cls P (Times (Suc n) r) \<longleftrightarrow> all_cls P r"
  by (induction n) auto

lemma first_cls_Times [simp]: "first_cls P (Times (Suc n) r) \<longleftrightarrow> first_cls P r"
  by (cases n) auto

lemma last_cls_Times [simp]: "last_cls P (Times (Suc n) r) \<longleftrightarrow> last_cls P r"
  by (induction n) auto

lemma bnd_free_Times [simp]: "bnd_free (Times (Suc n) r) \<longleftrightarrow> bnd_free r"
  by (induction n) auto

lemma mat_cats_append:
  "xs \<noteq> [] \<Longrightarrow> ys \<noteq> [] \<Longrightarrow>
     mat (cats (xs @ ys)) x z \<longleftrightarrow> (\<exists>y. mat (cats xs) x y \<and> mat (cats ys) y z)"
proof (induction xs arbitrary: x)
  case Nil
  then show ?case by simp
next
  case (Cons r xs)
  show ?case
  proof (cases "xs = []")
    case True
    with Cons.prems obtain s ss where "ys = s # ss" by (cases ys) auto
    with True show ?thesis by (simp add: mat_Cat_iff)
  next
    case False
    then obtain s ss where xs: "xs = s # ss" by (cases xs) auto
    have "mat (cats ((r # xs) @ ys)) x z \<longleftrightarrow> (\<exists>y. mat r x y \<and> mat (cats (xs @ ys)) y z)"
      unfolding xs by (simp add: mat_Cat_iff)
    also have "\<dots> \<longleftrightarrow> (\<exists>y y'. mat r x y \<and> mat (cats xs) y y' \<and> mat (cats ys) y' z)"
      using Cons.IH False Cons.prems(2) by blast
    also have "\<dots> \<longleftrightarrow> (\<exists>y'. mat (cats (r # xs)) x y' \<and> mat (cats ys) y' z)"
      unfolding xs cats.simps mat_Cat_iff by (simp only: split_paired_Ex) blast
    finally show ?thesis .
  qed
qed

text \<open>The two shapes of the substituted patterns: no boundary, or one on both sides.\<close>

lemma denotes_bnd_free: "bnd_free r \<Longrightarrow> denotes r \<lparr>dn_lb = False, dn_rb = False, dn_words = lang r\<rparr>"
  by (auto simp: denotes_def occurs_at_def mat_iff_lang steps_over_def)

lemma bounded_mat_iff:
  assumes "bnd_free (cats rs)" "first_cls is_word (cats rs)" "last_cls is_word (cats rs)" "rs \<noteq> []"
  shows "mat (cats (Bnd # rs @ [Bnd])) (p, s) (q, t) \<longleftrightarrow>
    (\<exists>w. s = w @ t \<and> q = last_opt p w \<and> lang (cats rs) w \<and> \<not> word_opt p \<and> \<not> word_opt (next_opt t))"
proof -
  obtain r rs' where rs: "rs = r # rs'" using assms(4) by (cases rs) auto
  have "mat (cats (Bnd # rs @ [Bnd])) (p, s) (q, t) \<longleftrightarrow>
      (\<exists>y. mat (cats ([Bnd] @ rs)) (p, s) y \<and> mat (cats [Bnd]) y (q, t))"
    using mat_cats_append [of "[Bnd] @ rs" "[Bnd]"] by simp
  also have "\<dots> \<longleftrightarrow> mat Bnd (q, t) (q, t) \<and> mat (cats ([Bnd] @ rs)) (p, s) (q, t)"
    by (auto simp: mat_Bnd_iff)
  also have "mat (cats ([Bnd] @ rs)) (p, s) (q, t) \<longleftrightarrow> at_boundary (p, s) \<and> mat (cats rs) (p, s) (q, t)"
    unfolding rs by (simp add: mat_Cat_iff mat_Bnd_iff)
  also have "mat Bnd (q, t) (q, t) \<longleftrightarrow> at_boundary (q, t)"
    by (simp add: mat_Bnd_iff)
  also have "mat (cats rs) (p, s) (q, t) \<longleftrightarrow> (\<exists>w. s = w @ t \<and> q = last_opt p w \<and> lang (cats rs) w)"
    unfolding mat_iff_lang [OF assms(1)] steps_over_def by simp
  finally have iff: "mat (cats (Bnd # rs @ [Bnd])) (p, s) (q, t) \<longleftrightarrow>
      at_boundary (q, t) \<and> at_boundary (p, s) \<and> (\<exists>w. s = w @ t \<and> q = last_opt p w \<and> lang (cats rs) w)" .
  have "at_boundary (p, w @ t) \<longleftrightarrow> \<not> word_opt p"
    and "at_boundary (last_opt p w, t) \<longleftrightarrow> \<not> word_opt (next_opt t)" if "lang (cats rs) w" for w
    using lang_first_cls [OF that assms(2)] lang_last_cls [OF that assms(3)]
    by (cases w; simp add: at_boundary_def last_opt_def)+
  then show ?thesis unfolding iff by blast
qed

lemma denotes_bounded:
  assumes "bnd_free (cats rs)" "first_cls is_word (cats rs)" "last_cls is_word (cats rs)" "rs \<noteq> []"
  shows "denotes (cats (Bnd # rs @ [Bnd])) \<lparr>dn_lb = True, dn_rb = True, dn_words = lang (cats rs)\<rparr>"
  unfolding denotes_def occurs_at_def by (auto simp: bounded_mat_iff [OF assms])

subsection \<open>Greedy ends\<close>

text \<open>The first end \<open>re\<close> takes for a pattern that ends in a repeated class is where the class stops.\<close>

lemma star_cls_first:
  "\<exists>ys. star_ends (ends (Cls P)) (length s) (p, s) = (last_opt p (takeWhile P s), dropWhile P s) # ys"
proof (induction s arbitrary: p)
  case (Cons c s)
  then obtain ys where
    ys: "star_ends (ends (Cls P)) (length s) (Some c, s) = (last_opt (Some c) (takeWhile P s), dropWhile P s) # ys"
    by blast
  have "ends (Cls P) (p, c # s) = (if P c then [(Some c, s)] else [])" by simp
  with ys show ?case by (cases "P c") (simp_all del: ends.simps(1))
qed simp

lemma plus_cls_first:
  assumes "ends (Plus (Cls P)) (p, s) = (q, t) # ys"
  shows "next_opt t = Some c \<Longrightarrow> \<not> P c"
proof -
  from assms obtain d s' where s: "s = d # s'" "P d"
    by (auto simp: Plus_def split: list.splits if_splits)
  obtain zs where "star_ends (ends (Cls P)) (length s') (Some d, s')
      = (last_opt (Some d) (takeWhile P s'), dropWhile P s') # zs"
    using star_cls_first by blast
  with assms s have "t = dropWhile P s'" by (auto simp: Plus_def)
  moreover assume "next_opt t = Some c"
  ultimately show ?thesis
    by (metis hd_dropWhile list.sel(1) next_opt_simps(1) next_opt_simps(2) option.distinct(1)
        option.inject neq_Nil_conv)
qed

lemma concat_map_first: "concat (map f xs) = y # ys \<Longrightarrow> \<exists>x zs. x \<in> set xs \<and> f x = y # zs"
proof (induction xs)
  case (Cons x xs)
  then show ?case by (cases "f x") auto
qed simp

lemma cats_first_end:
  "ends (cats (rs @ [r])) x = y # ys \<Longrightarrow> \<exists>z zs. ends r z = y # zs"
proof (induction rs arbitrary: x ys)
  case Nil
  then show ?case by (cases x) auto
next
  case (Cons a rs)
  obtain b bs where rs: "rs @ [r] = b # bs" by (cases rs) auto
  from Cons.prems have "concat (map (ends (cats (rs @ [r]))) (ends a x)) = y # ys"
    by (simp add: rs)
  from concat_map_first [OF this] obtain z zs where "ends (cats (rs @ [r])) z = y # zs" by blast
  then show ?case by (rule Cons.IH)
qed

text \<open>A pattern with a boundary on both sides makes a pass.\<close>

lemma sub_pass_bounded:
  assumes shape: "bnd_free (cats rs)" "first_cls is_word (cats rs)" "last_cls is_word (cats rs)" "rs \<noteq> []"
    and rep: "bracketed rep"
  shows "sub_pass (cats (Bnd # rs @ [Bnd])) rep"
  unfolding sub_pass_def
proof (intro conjI allI impI rep)
  fix p s q t ys assume e: "ends (cats (Bnd # rs @ [Bnd])) (p, s) = (q, t) # ys"
  then have "mat (cats (Bnd # rs @ [Bnd])) (p, s) (q, t)"
    using ends_iff_mat [of "(q, t)" "cats (Bnd # rs @ [Bnd])" "(p, s)"] by simp
  then obtain w where w: "s = w @ t" "lang (cats rs) w" "\<not> word_opt (next_opt t)"
    unfolding bounded_mat_iff [OF shape] by blast
  from lang_first_cls [OF w(2) shape(2)] w show "length t < length s" by simp
  from w show "\<not> word_opt (next_opt t)" by simp
next
  fix p c s assume c: "is_word c"
  then have "\<not> mat (cats (Bnd # rs @ [Bnd])) (Some c, s) (q, t)" for q t
    unfolding bounded_mat_iff [OF shape] by simp
  then show "ends (cats (Bnd # rs @ [Bnd])) (Some c, s) = []"
    unfolding ends_Nil_iff by auto
qed

subsection \<open>Literals and repeated classes\<close>

lemma lang_Lit_Cons: "lang (Lit (c # w)) v \<longleftrightarrow> (\<exists>v'. v = c # v' \<and> lang (Lit w) v')"
proof (cases w)
  case Nil
  then show ?thesis by (auto simp: Lit_def Ch_def lang_Cls_iff lang_Eps_iff)
next
  case (Cons d w')
  then show ?thesis by (auto simp: Lit_def Ch_def lang_Cat_iff [of "Cls _"] lang_Cls_iff)
qed

lemma lang_Lit_iff [simp]: "lang (Lit w) v \<longleftrightarrow> v = w"
proof (induction w arbitrary: v)
  case Nil
  show ?case by (simp add: Lit_def lang_Eps_iff)
qed (auto simp: lang_Lit_Cons)

lemma bnd_free_Lit [simp]: "bnd_free (Lit w)"
proof (induction w rule: induct_list012)
qed (simp_all add: Lit_def Ch_def)

lemma lang_Star_all: "lang r v \<Longrightarrow> r = Star (Cls P) \<Longrightarrow> list_all P v"
  by (induction rule: lang.induct) (auto simp: lang_Cls_iff)

lemma lang_Star_Cls_iff: "lang (Star (Cls P)) v \<longleftrightarrow> list_all P v"
proof
  show "list_all P v \<Longrightarrow> lang (Star (Cls P)) v"
  proof (induction v)
    case (Cons c v)
    then have "lang (Star (Cls P)) ([c] @ v)" by (intro lang_Star1 lang_Cls) simp_all
    then show ?case by simp
  qed (simp add: lang_Star0)
qed (auto dest: lang_Star_all)

end
