(* ===== verification/Attribution.thy ===== *)
theory Attribution
  imports Embedding RegexClean
begin

section \<open>What the user asked for: call text, sub-tasks, goal drift\<close>

text \<open>
  Models \<open>attribution/call_text.py\<close>, \<open>subtask.py\<close>, \<open>boundary_classifier.py\<close>, \<open>goal_drift.py\<close>,
  \<open>drift_trigger.py\<close> and, but for the task that \<open>start\<close> makes, \<open>drift_scheduler.py\<close>. The language model behind a Groq client is a
  parameter: a function from the prompt to the text of its answer, which may raise. Shown: the
  Groq-backed components never raise and fall back on an unusable answer; a refinement never
  moves the anchor a turn is judged against; a standing drift decision is never staler than the
  check interval, and the detector is called at most once per interval of new calls.
\<close>

type_synonym llm = "string \<Rightarrow> string result"

subsection \<open>The text of a call\<close>

text \<open>A format string: literal text and named fields.\<close>

datatype fmt = Txt string | Fld string

fun call_templates :: "string \<Rightarrow> fmt list option" where
  "call_templates tool_name =
    (if tool_name = ''read_inbox'' then Some [Txt ''read inbox check emails count '', Fld ''count'']
     else if tool_name = ''reply_to_email'' then Some [Txt ''reply to email regarding '', Fld ''body'']
     else if tool_name = ''search_flights'' then
       Some [Txt ''search for flight from '', Fld ''origin'', Txt '' to '', Fld ''destination'']
     else if tool_name = ''book_flight'' then Some [Txt ''book flight reservation confirm booking'']
     else if tool_name = ''get_calendar'' then Some [Txt ''check calendar for date '', Fld ''date'']
     else if tool_name = ''add_calendar_event'' then Some [Txt ''add calendar event '', Fld ''title'']
     else if tool_name = ''list_files'' then
       Some [Txt ''find the document '', Fld ''query'', Txt '' to share'']
     else if tool_name = ''share_file'' then
       Some [Txt ''share document file with team recipient '', Fld ''recipient'']
     else if tool_name = ''search_contacts'' then
       Some [Txt ''look up find contact information name '', Fld ''name'']
     else if tool_name = ''update_contact'' then Some [Txt ''update contact information '', Fld ''field'']
     else if tool_name = ''send_payment'' then
       Some [Txt ''send payment transfer money amount '', Fld ''amount'', Txt '' to '', Fld ''recipient'']
     else if tool_name = ''set_forwarding_rule'' then
       Some [Txt ''forward all email messages to external address '', Fld ''target'']
     else if tool_name = ''delete_data'' then
       Some [Txt ''delete remove destroy data files '', Fld ''target'']
     else if tool_name = ''modify_permissions'' then
       Some [Txt ''modify change grant elevate access permissions for '', Fld ''user'', Txt '' to '', Fld ''level'']
     else None)"

fun format_fmt :: "fmt list \<Rightarrow> params \<Rightarrow> string result" where
  "format_fmt [] ps = Inr []"
| "format_fmt (Txt t # fs) ps = res_bind (format_fmt fs ps) (\<lambda>rest. Inr (t @ rest))"
| "format_fmt (Fld k # fs) ps =
     (case dict_get ps k of
        None \<Rightarrow> Inl (PyKeyError k)
      | Some v \<Rightarrow> res_bind (format_fmt fs ps) (\<lambda>rest. Inr (v @ rest)))"

definition fallback_call_text :: "string \<Rightarrow> params \<Rightarrow> string" where
  "fallback_call_text tool_name ps = str_join '' '' ([tool_name] @ map (\<lambda>(k, v). k @ '' '' @ v) ps)"

definition call_topic_text :: "string \<Rightarrow> params \<Rightarrow> string" where
  "call_topic_text tool_name ps =
     (case call_templates tool_name of
        None \<Rightarrow> fallback_call_text tool_name ps
      | Some template \<Rightarrow>
          (case format_fmt template ps of
             Inr text \<Rightarrow> text
           | Inl _ \<Rightarrow> fallback_call_text tool_name ps))"

subsection \<open>Boundary classifiers\<close>

type_synonym boundary_classifier = "string \<Rightarrow> string \<Rightarrow> bool result"

definition EmbeddingBoundaryClassifier :: "embedder \<Rightarrow> pyfloat \<Rightarrow> boundary_classifier" where
  "EmbeddingBoundaryClassifier embed_fn threshold current_task_text new_user_text =
     res_bind (embed_fn current_task_text) (\<lambda>current_vector.
     res_bind (embed_fn new_user_text) (\<lambda>new_vector.
     Inr (cosine_similarity current_vector new_vector < threshold)))"

text \<open>
  \<open>str.upper\<close> on Latin-1, except the letters whose upper case is not one Latin-1 letter, which
  occur in neither of the words the answer is searched for.
\<close>

definition upper_char :: "char \<Rightarrow> char" where
  "upper_char c = (let n = code_point c in
     if (97 \<le> n \<and> n \<le> 122) \<or> (224 \<le> n \<and> n \<le> 254 \<and> n \<noteq> 247) then char_of (n - 32) else c)"

definition nl :: string where
  "nl = [CHR 0x0A]"

definition boundary_prompt :: "string \<Rightarrow> string \<Rightarrow> string" where
  "boundary_prompt current_task_text new_user_text =
     ''An AI agent is working on a task for a user. The task so far, ''
     @ ''based on what the user has said: '' @ [CHR 0x22] @ current_task_text @ [CHR 0x22] @ nl @ nl
     @ ''The user just said: '' @ [CHR 0x22] @ new_user_text @ [CHR 0x22] @ nl @ nl
     @ ''Is this new statement a REFINEMENT or continuation of the ''
     @ ''SAME task (e.g. adding detail, correcting something, ''
     @ ''clarifying preferences), or does it introduce a GENUINELY ''
     @ ''DIFFERENT, unrelated task?'' @ nl @ nl
     @ ''Respond with EXACTLY one word: REFINEMENT or NEW_TASK.''"

definition GroqBoundaryClassifier :: "llm \<Rightarrow> boundary_classifier \<Rightarrow> boundary_classifier" where
  "GroqBoundaryClassifier llm fallback current_task_text new_user_text =
     (case llm (boundary_prompt current_task_text new_user_text) of
        Inl _ \<Rightarrow> fallback current_task_text new_user_text
      | Inr content \<Rightarrow>
          let answer = map upper_char (strip is_space content)
          in if str_in ''NEW_TASK'' answer then Inr True
             else if str_in ''REFINEMENT'' answer then Inr False
             else fallback current_task_text new_user_text)"

subsection \<open>Sub-tasks\<close>

definition DEFAULT_BOUNDARY_THRESHOLD :: pyfloat where
  "DEFAULT_BOUNDARY_THRESHOLD = 15 / 100"

record task_representation =
  tp_embedder :: embedder
  tp_current_vector :: vector
  tp_current_task_text :: string
  tp_sub_task_index :: nat
  tp_history :: "vector list"

definition tp_start :: "embedder \<Rightarrow> string \<Rightarrow> task_representation result" where
  "tp_start embed_fn initial_user_text =
     res_bind (embed_fn initial_user_text) (\<lambda>v.
       Inr \<lparr>tp_embedder = embed_fn, tp_current_vector = v, tp_current_task_text = initial_user_text,
            tp_sub_task_index = 0, tp_history = [v]\<rparr>)"

definition tp_update_from_user_turn ::
    "string \<Rightarrow> boundary_classifier \<Rightarrow> task_representation \<Rightarrow> bool result \<times> task_representation" where
  "tp_update_from_user_turn user_text classifier tp =
     (case classifier (tp_current_task_text tp) user_text of
        Inl e \<Rightarrow> (Inl e, tp)
      | Inr is_new \<Rightarrow>
          (case tp_embedder tp user_text of
             Inl e \<Rightarrow> (Inl e, tp)
           | Inr v \<Rightarrow>
               let tp = tp\<lparr>tp_current_vector := v, tp_history := tp_history tp @ [v]\<rparr>
               in (Inr is_new,
                   if is_new then tp\<lparr>tp_sub_task_index := tp_sub_task_index tp + 1,
                                     tp_current_task_text := user_text\<rparr>
                   else tp)))"

text \<open>A conversation: the turns one after the other; a turn that raises is an HTTP error.\<close>

definition tp_turns :: "boundary_classifier \<Rightarrow> string list \<Rightarrow> task_representation \<Rightarrow> task_representation" where
  "tp_turns classifier turns tp = fold (\<lambda>t. snd \<circ> tp_update_from_user_turn t classifier) turns tp"

text \<open>The anchor of every turn, by definition: the last text that opened a sub-task.\<close>

fun anchor_of :: "boundary_classifier \<Rightarrow> string \<Rightarrow> string list \<Rightarrow> string \<times> nat" where
  "anchor_of C txt [] = (txt, 0)"
| "anchor_of C txt (t # ts) =
     (if C txt t = Inr True then (case anchor_of C t ts of (a, n) \<Rightarrow> (a, Suc n)) else anchor_of C txt ts)"

lemma tp_turn_step:
  assumes "\<And>a b. \<exists>r. C a b = Inr r" "tp_embedder tp t = Inr v"
  shows "snd (tp_update_from_user_turn t C tp) =
    tp\<lparr>tp_current_vector := v, tp_history := tp_history tp @ [v],
       tp_sub_task_index := tp_sub_task_index tp + (if C (tp_current_task_text tp) t = Inr True then 1 else 0),
       tp_current_task_text := (if C (tp_current_task_text tp) t = Inr True then t else tp_current_task_text tp)\<rparr>"
proof -
  obtain r where "C (tp_current_task_text tp) t = Inr r" using assms(1) by blast
  with assms(2) show ?thesis by (cases r) (simp_all add: tp_update_from_user_turn_def Let_def)
qed

lemma tp_turns_spec:
  assumes C: "\<And>a b. \<exists>r. C a b = Inr r"
  shows "tp_embedder tp = (\<lambda>t. Inr (emb t)) \<Longrightarrow>
    tp_turns C ts tp = tp\<lparr>tp_current_vector := (if ts = [] then tp_current_vector tp else emb (last ts)),
      tp_history := tp_history tp @ map emb ts,
      tp_sub_task_index := tp_sub_task_index tp + snd (anchor_of C (tp_current_task_text tp) ts),
      tp_current_task_text := fst (anchor_of C (tp_current_task_text tp) ts)\<rparr>"
proof (induction ts arbitrary: tp)
  case (Cons t ts)
  have "tp_turns C (t # ts) tp = tp_turns C ts (snd (tp_update_from_user_turn t C tp))"
    by (simp add: tp_turns_def)
  moreover have "tp_embedder (snd (tp_update_from_user_turn t C tp)) = (\<lambda>t. Inr (emb t))"
    using Cons.prems by (simp add: tp_turn_step [OF C])
  ultimately show ?case
    using Cons.prems by (simp add: Cons.IH tp_turn_step [OF C] split: prod.split)
qed (simp add: tp_turns_def)

text \<open>
  Over a whole conversation, with a classifier and an embedder that answer, every turn is
  embedded in order into the history, whose last entry is the current vector; the task text is
  that of the last turn judged to open a sub-task, judged against the previous anchor and not
  against the previous turn; and if every turn refines the first text, neither text nor index
  has moved.
\<close>

theorem subtask_anchor_stable:
  assumes "\<And>a b. \<exists>r. C a b = Inr r" "tp_start (\<lambda>t. Inr (emb t)) txt = Inr tp"
  shows "tp_history (tp_turns C ts tp) = map emb (txt # ts)
    \<and> tp_current_vector (tp_turns C ts tp) = last (tp_history (tp_turns C ts tp))
    \<and> (tp_current_task_text (tp_turns C ts tp), tp_sub_task_index (tp_turns C ts tp)) = anchor_of C txt ts
    \<and> (list_all (\<lambda>t. C txt t = Inr False) ts \<longrightarrow>
         tp_current_task_text (tp_turns C ts tp) = txt \<and> tp_sub_task_index (tp_turns C ts tp) = 0)"
proof -
  have same: "list_all (\<lambda>t. C txt t = Inr False) ts \<Longrightarrow> anchor_of C txt ts = (txt, 0)"
    by (induction ts) auto
  from assms(2) have tp: "tp = \<lparr>tp_embedder = (\<lambda>t. Inr (emb t)), tp_current_vector = emb txt,
      tp_current_task_text = txt, tp_sub_task_index = 0, tp_history = [emb txt]\<rparr>"
    by (simp add: tp_start_def)
  then have "tp_turns C ts tp = tp\<lparr>tp_current_vector := (if ts = [] then emb txt else emb (last ts)),
      tp_history := emb txt # map emb ts, tp_sub_task_index := snd (anchor_of C txt ts),
      tp_current_task_text := fst (anchor_of C txt ts)\<rparr>"
    using tp_turns_spec [OF assms(1), where tp = tp and emb = emb and ts = ts] by simp
  with same show ?thesis by (auto simp: last_map)
qed

theorem subtask_anchor_stable_witness:
  "tp_current_task_text (tp_turns (\<lambda>a b. Inr (a = b)) [''in the morning'', ''on Monday'']
     \<lparr>tp_embedder = (\<lambda>t. Inr [0]), tp_current_vector = [0], tp_current_task_text = ''book a flight'',
      tp_sub_task_index = 0, tp_history = [[0]]\<rparr>) = ''book a flight''"
  using subtask_anchor_stable [of "\<lambda>a b. Inr (a = b)" "\<lambda>t. [0]" "''book a flight''"
      "\<lparr>tp_embedder = (\<lambda>t. Inr [0]), tp_current_vector = [0], tp_current_task_text = ''book a flight'',
      tp_sub_task_index = 0, tp_history = [[0]]\<rparr>" "[''in the morning'', ''on Monday'']"]
  by (simp add: tp_start_def)

subsection \<open>Goal drift\<close>

record drift_result =
  dr_is_drifted :: bool
  dr_reasoning :: "string option"

type_synonym drift_detector = "string \<Rightarrow> string list \<Rightarrow> drift_result result"

definition NullDriftDetector :: drift_detector where
  "NullDriftDetector task_description call_history = Inr \<lparr>dr_is_drifted = False, dr_reasoning = None\<rparr>"

text \<open>\<^verbatim>\<open>VERDICT:\s*\<close>, and the group \<^verbatim>\<open>(ON_TRACK|DRIFTED)\<close>\<close>

definition verdict_prefix :: regex where
  "verdict_prefix = Cat (Lit ''VERDICT:'') (Star (Cls is_space))"

definition drift_group :: regex where
  "drift_group = alts [Lit ''ON_TRACK'', Lit ''DRIFTED'']"

definition numbered_calls :: "string list \<Rightarrow> string" where
  "numbered_calls call_history =
     str_join nl (map (\<lambda>(i, c). nat_str (i + 1) @ ''. '' @ c) (enumerate 0 call_history))"

definition drift_prompt :: "string \<Rightarrow> string list \<Rightarrow> string" where
  "drift_prompt task_description call_history =
     ''An AI agent is working on this task for a user: '' @ [CHR 0x22] @ task_description @ [CHR 0x22] @ nl @ nl
     @ ''Actions taken so far:'' @ nl @ numbered_calls call_history @ nl @ nl
     @ ''Considering the FULL SEQUENCE as a whole (not just the last ''
     @ ''action), has the agent drifted from the original task into ''
     @ ''something the user did not ask for? Give 1-2 sentences of ''
     @ ''reasoning, then on a NEW final line write exactly: ''
     @ ''VERDICT: ON_TRACK or VERDICT: DRIFTED''"

definition GroqDriftDetector :: "llm \<Rightarrow> drift_detector \<Rightarrow> drift_detector" where
  "GroqDriftDetector llm fallback task_description call_history =
     (case llm (drift_prompt task_description call_history) of
        Inl _ \<Rightarrow> fallback task_description call_history
      | Inr content \<Rightarrow>
          let text = strip is_space content
          in (case re_group verdict_prefix drift_group text of
                None \<Rightarrow> fallback task_description call_history
              | Some verdict \<Rightarrow>
                  Inr \<lparr>dr_is_drifted = (verdict = ''DRIFTED''), dr_reasoning = Some text\<rparr>))"

text \<open>What a group match tells about the text.\<close>

lemma first_match_in: "first_match g ms = Some (m, e) \<Longrightarrow> m \<in> set ms \<and> e \<in> set (ends g m)"
  by (induction ms) (auto split: list.splits)

lemma group_from_sound:
  "group_from r g p s = Some w \<Longrightarrow>
     \<exists>u v p' q t. s = u @ v @ w @ t \<and> mat r (last_opt p u, v @ w @ t) (p', w @ t) \<and> mat g (p', w @ t) (q, t)"
proof (induction r g p s rule: group_from.induct)
  case (1 r g p s)
  show ?case
  proof (cases "first_match g (ends r (p, s))")
    case (Some x)
    obtain p' sm q t where x: "x = ((p', sm), (q, t))" by (cases x) auto
    from first_match_in [OF Some [unfolded x]] have m: "mat r (p, s) (p', sm)" "mat g (p', sm) (q, t)"
      by (simp_all add: ends_iff_mat)
    from mat_steps [OF m(1)] obtain v where v: "s = v @ sm" by (auto simp: steps_over_def)
    from mat_steps [OF m(2)] obtain w' where w': "sm = w' @ t" by (auto simp: steps_over_def)
    from "1.prems" Some x w' have "w = w'" by (subst (asm) group_from.simps) simp
    with v w' m show ?thesis
      by (intro exI [of _ "[]"] exI [of _ v] exI [of _ p'] exI [of _ q] exI [of _ t]) simp
  next
    case None
    with "1.prems" obtain c s' where s: "s = c # s'" and g: "group_from r g (Some c) s' = Some w"
      by (subst (asm) group_from.simps) (auto split: list.splits)
    from "1.IH" [OF None s g] obtain u v p' q t where "s' = u @ v @ w @ t"
      "mat r (last_opt (Some c) u, v @ w @ t) (p', w @ t)" "mat g (p', w @ t) (q, t)" by blast
    with s show ?thesis
      by (intro exI [of _ "c # u"] exI [of _ v] exI [of _ p'] exI [of _ q] exI [of _ t]) simp
  qed
qed

lemma re_group_sound:
  "re_group r g s = Some w \<Longrightarrow>
     \<exists>u v p' q t. s = u @ v @ w @ t \<and> mat r (last_opt None u, v @ w @ t) (p', w @ t) \<and> mat g (p', w @ t) (q, t)"
  unfolding re_group_def by (rule group_from_sound)

text \<open>The text states the verdict \<open>w\<close>.\<close>

definition states_verdict :: "string \<Rightarrow> string \<Rightarrow> bool" where
  "states_verdict s w \<longleftrightarrow> (\<exists>u sp t. s = u @ ''VERDICT:'' @ sp @ w @ t \<and> list_all is_space sp)"

lemma verdict_match:
  assumes "re_group verdict_prefix (alts [Lit a, Lit b]) s = Some w"
  shows "states_verdict s w" and "w = a \<or> w = b"
proof -
  obtain u v p' q t where s: "s = u @ v @ w @ t"
    and r: "mat verdict_prefix (last_opt None u, v @ w @ t) (p', w @ t)"
    and g: "mat (alts [Lit a, Lit b]) (p', w @ t) (q, t)"
    using re_group_sound [OF assms] by blast
  have "bnd_free verdict_prefix" by (simp add: verdict_prefix_def)
  with r have "lang verdict_prefix v" by (auto simp: mat_iff_lang steps_over_def)
  then obtain sp where v: "v = ''VERDICT:'' @ sp" "list_all is_space sp"
    by (auto simp: verdict_prefix_def lang_Cat_iff lang_Star_Cls_iff)
  from g have "lang (alts [Lit a, Lit b]) w"
    by (auto simp: mat_iff_lang steps_over_def)
  then show "w = a \<or> w = b" by (simp add: lang_Alt_iff)
  from s v show "states_verdict s w" unfolding states_verdict_def by auto
qed

text \<open>
  Whatever the language model answers, and when it does not answer, the drift detector with
  its null fallback returns a result; it reports drift only when the stripped answer contains
  \<^verbatim>\<open>VERDICT:\<close>, white space and \<^verbatim>\<open>DRIFTED\<close>; and the boundary classifier raises only what its
  fallback raises.
\<close>

theorem llm_backed_fail_open:
  "(\<exists>res. GroqDriftDetector llm NullDriftDetector td hist = Inr res
      \<and> (dr_is_drifted res = True \<longrightarrow> (\<exists>content. llm (drift_prompt td hist) = Inr content
           \<and> states_verdict (strip is_space content) ''DRIFTED'')))
   \<and> (GroqBoundaryClassifier llm fallback cur new = Inl e \<longrightarrow> fallback cur new = Inl e)"
proof
  show "\<exists>res. GroqDriftDetector llm NullDriftDetector td hist = Inr res
      \<and> (dr_is_drifted res = True \<longrightarrow> (\<exists>content. llm (drift_prompt td hist) = Inr content
           \<and> states_verdict (strip is_space content) ''DRIFTED''))"
  proof (cases "llm (drift_prompt td hist)")
    case (Inr content)
    show ?thesis
    proof (cases "re_group verdict_prefix drift_group (strip is_space content)")
      case (Some verdict)
      with verdict_match [of "''ON_TRACK''" "''DRIFTED''" "strip is_space content" verdict] Inr
      show ?thesis by (auto simp: GroqDriftDetector_def Let_def drift_group_def)
    qed (simp add: GroqDriftDetector_def NullDriftDetector_def Let_def Inr)
  qed (simp add: GroqDriftDetector_def NullDriftDetector_def)
  show "GroqBoundaryClassifier llm fallback cur new = Inl e \<longrightarrow> fallback cur new = Inl e"
    by (auto simp: GroqBoundaryClassifier_def Let_def split: sum.splits if_splits)
qed

theorem llm_backed_fail_open_witness:
  "\<exists>res. GroqDriftDetector (\<lambda>_. Inl (External ''timeout'')) NullDriftDetector ''book a flight'' [] = Inr res"
  using llm_backed_fail_open [of "\<lambda>_. Inl (External ''timeout'')" "''book a flight''" "[]"
      "\<lambda>_ _. Inr True" "''a''" "''b''" ValueError] by blast

subsection \<open>The drift scheduler\<close>

definition DEFAULT_DRIFT_CHECK_INTERVAL :: int where
  "DEFAULT_DRIFT_CHECK_INTERVAL = 3"

definition should_check_drift :: "int \<Rightarrow> int \<Rightarrow> bool" where
  "should_check_drift calls_since_last_check interval \<longleftrightarrow> calls_since_last_check \<ge> interval"

record standing_decision =
  sd_result :: drift_result
  sd_checked_at_call_count :: nat

record drift_scheduler =
  ds_drift_detector :: drift_detector
  ds_check_interval_calls :: int
  ds_last_checked :: "(string, nat) dict"
  ds_standing :: "(string, standing_decision) dict"

definition ds_new :: "drift_detector \<Rightarrow> int \<Rightarrow> drift_scheduler" where
  "ds_new detector interval = \<lparr>ds_drift_detector = detector, ds_check_interval_calls = interval,
     ds_last_checked = [], ds_standing = []\<rparr>"

definition ds_get_standing_decision :: "string \<Rightarrow> drift_scheduler \<Rightarrow> standing_decision option" where
  "ds_get_standing_decision session_id ds = dict_get (ds_standing ds) session_id"

definition ds_due :: "string \<Rightarrow> string list \<Rightarrow> drift_scheduler \<Rightarrow> bool" where
  "ds_due session_id call_history ds \<longleftrightarrow>
     should_check_drift (int (length call_history) - int (dict_get_or (ds_last_checked ds) session_id 0))
       (ds_check_interval_calls ds)"

definition ds_run_once ::
    "string \<Rightarrow> string \<Rightarrow> string list \<Rightarrow> drift_scheduler \<Rightarrow> standing_decision option result \<times> drift_scheduler" where
  "ds_run_once session_id task_description call_history ds =
     (if \<not> ds_due session_id call_history ds then (Inr (dict_get (ds_standing ds) session_id), ds)
      else (case ds_drift_detector ds task_description call_history of
              Inl e \<Rightarrow> (Inl e, ds)
            | Inr res \<Rightarrow>
                let decision = \<lparr>sd_result = res, sd_checked_at_call_count = length call_history\<rparr>
                in (Inr (Some decision),
                    ds\<lparr>ds_standing := dict_set (ds_standing ds) session_id decision,
                       ds_last_checked := dict_set (ds_last_checked ds) session_id (length call_history)\<rparr>)))"

text \<open>One pass of the background loop over the active sessions; an exception ends the loop.\<close>

fun ds_scan :: "(string \<times> string \<times> string list) list \<Rightarrow> drift_scheduler \<Rightarrow> unit result \<times> drift_scheduler" where
  "ds_scan [] ds = (Inr (), ds)"
| "ds_scan ((session_id, task_description, call_history) # sessions) ds =
     (case ds_run_once session_id task_description call_history ds of
        (Inl e, ds') \<Rightarrow> (Inl e, ds')
      | (Inr _, ds') \<Rightarrow> ds_scan sessions ds')"

text \<open>A standing decision is filed with the call count it was made at.\<close>

definition ds_ok :: "drift_scheduler \<Rightarrow> bool" where
  "ds_ok ds \<longleftrightarrow> (\<forall>sid. map_option sd_checked_at_call_count (dict_get (ds_standing ds) sid)
     = dict_get (ds_last_checked ds) sid)"

lemma ds_ok_run_once [inv_intros]: "ds_ok ds \<Longrightarrow> ds_ok (snd (ds_run_once sid td hist ds))"
  by (auto simp: ds_ok_def ds_run_once_def Let_def split: sum.splits)

lemma ds_run_once_frame [frame_simps]:
  "ds_check_interval_calls (snd (ds_run_once sid td hist ds)) = ds_check_interval_calls ds"
  "ds_drift_detector (snd (ds_run_once sid td hist ds)) = ds_drift_detector ds"
  "sid' \<noteq> sid \<Longrightarrow> dict_get (ds_standing (snd (ds_run_once sid td hist ds))) sid' = dict_get (ds_standing ds) sid'"
  by (auto simp: ds_run_once_def Let_def split: sum.splits)

text \<open>
  The detector calls of a series of scans of one session, given the length of its history at
  each scan.
\<close>

fun ds_checks :: "string \<Rightarrow> string \<Rightarrow> string list list \<Rightarrow> drift_scheduler \<Rightarrow> nat" where
  "ds_checks sid td [] ds = 0"
| "ds_checks sid td (hist # hists) ds =
     (if ds_due sid hist ds then 1 else 0) + ds_checks sid td hists (snd (ds_run_once sid td hist ds))"

definition ds_last :: "string \<Rightarrow> drift_scheduler \<Rightarrow> nat" where
  "ds_last sid ds = dict_get_or (ds_last_checked ds) sid 0"

lemma ds_last_run_once:
  "ds_drift_detector ds td hist = Inr res \<Longrightarrow>
     ds_last sid (snd (ds_run_once sid td hist ds)) = (if ds_due sid hist ds then length hist else ds_last sid ds)"
  by (simp add: ds_last_def dict_get_or_def ds_run_once_def Let_def)

lemma ds_due_iff: "ds_due sid hist ds \<longleftrightarrow> ds_check_interval_calls ds \<le> int (length hist) - int (ds_last sid ds)"
  by (simp add: ds_due_def should_check_drift_def ds_last_def)

lemma ds_checks_bound:
  assumes "\<And>h. \<exists>res. D td h = Inr res" "0 < k"
  shows "ds_drift_detector ds = D \<Longrightarrow> ds_check_interval_calls ds = k \<Longrightarrow>
    sorted (ds_last sid ds # map length hists) \<Longrightarrow>
    int (ds_checks sid td hists ds) * k + int (ds_last sid ds) \<le> int (last (ds_last sid ds # map length hists))"
proof (induction hists arbitrary: ds)
  case (Cons hist hists)
  obtain res where res: "ds_drift_detector ds td hist = Inr res" using assms(1) Cons.prems(1) by blast
  let ?ds = "snd (ds_run_once sid td hist ds)"
  have "sorted (ds_last sid ?ds # map length hists)"
    using Cons.prems(3) by (auto simp: ds_last_run_once [OF res])
  then have IH: "int (ds_checks sid td hists ?ds) * k + int (ds_last sid ?ds)
      \<le> int (last (ds_last sid ?ds # map length hists))"
    using Cons.prems by (intro Cons.IH) (simp_all add: frame_simps)
  have "last (ds_last sid ?ds # map length hists) \<le> last (ds_last sid ds # map length (hist # hists))"
    using Cons.prems(3) by (auto simp: ds_last_run_once [OF res])
  with IH Cons.prems(2) show ?case
    by (auto simp: ds_due_iff ds_last_run_once [OF res] algebra_simps)
qed simp

text \<open>
  With a detector that answers, after a scan a session's standing decision, if it has one, is
  the one made at its recorded call count, and fewer than \<open>check_interval_calls\<close> calls have come
  since; over scans of a growing history, the detector runs at most once per interval of calls.
\<close>

theorem drift_scheduler_interval:
  assumes "\<And>h. \<exists>res. D td h = Inr res" "0 < k" "sorted (map length (hists @ [hist]))"
    and ds: "ds = fold (\<lambda>h. snd \<circ> ds_run_once sid td h) (hists @ [hist]) (ds_new D k)"
  shows "int (length hist) - int (ds_last sid ds) < k
    \<and> map_option sd_checked_at_call_count (ds_get_standing_decision sid ds) = dict_get (ds_last_checked ds) sid
    \<and> int (ds_checks sid td (hists @ [hist]) (ds_new D k)) * k \<le> int (length hist)"
proof -
  have keep: "ds_drift_detector (fold (\<lambda>h. snd \<circ> ds_run_once sid td h) hs x) = ds_drift_detector x
      \<and> ds_check_interval_calls (fold (\<lambda>h. snd \<circ> ds_run_once sid td h) hs x) = ds_check_interval_calls x
      \<and> (ds_ok x \<longrightarrow> ds_ok (fold (\<lambda>h. snd \<circ> ds_run_once sid td h) hs x))" for hs x
    by (induction hs arbitrary: x) (simp_all add: frame_simps inv_intros)
  have new: "ds_ok (ds_new D k)" "ds_last sid (ds_new D k) = 0"
    by (simp_all add: ds_ok_def ds_new_def ds_last_def dict_get_or_def)
  define d0 where "d0 = fold (\<lambda>h. snd \<circ> ds_run_once sid td h) hists (ds_new D k)"
  have d0: "ds_drift_detector d0 = D" "ds_check_interval_calls d0 = k"
    using keep [of hists "ds_new D k"] by (simp_all add: d0_def ds_new_def)
  have ds': "ds = snd (ds_run_once sid td hist d0)" by (simp add: ds d0_def)
  obtain res where "ds_drift_detector d0 td hist = Inr res" using assms(1) d0(1) by blast
  then have "int (length hist) - int (ds_last sid ds) < k"
    using assms(2) by (auto simp: ds' ds_last_run_once ds_due_iff d0)
  moreover have "ds_ok ds" using keep [of "hists @ [hist]" "ds_new D k"] new(1) by (simp add: ds)
  moreover have "int (ds_checks sid td (hists @ [hist]) (ds_new D k)) * k \<le> int (length hist)"
    using ds_checks_bound [where D = D and td = td and k = k and ds = "ds_new D k" and sid = sid
        and hists = "hists @ [hist]"] assms(1-3)
    by (simp add: new(2)) (simp add: ds_new_def)
  ultimately show ?thesis by (simp add: ds_ok_def ds_get_standing_decision_def)
qed

theorem drift_scheduler_interval_witness:
  "ds_last ''s'' (snd (ds_run_once ''s'' ''t'' [''a'', ''b'', ''c''] (ds_new NullDriftDetector 3))) = 3"
  using drift_scheduler_interval [of NullDriftDetector "''t''" 3 "[]" "[''a'', ''b'', ''c'']"
      "snd (ds_run_once ''s'' ''t'' [''a'', ''b'', ''c''] (ds_new NullDriftDetector 3))" "''s''"]
  by (simp add: NullDriftDetector_def ds_run_once_def ds_due_def should_check_drift_def ds_new_def
      ds_last_def dict_get_or_def Let_def)

end
