(* ===== verification/TaskSim.thy ===== *)
theory TaskSim
  imports Prelude
begin

section \<open>Simulated task sessions\<close>

text \<open>
  Models \<open>task_sim/session.py\<close> and \<open>task_sim/task_text.py\<close>: the task types, the templates with
  their parameter generators, and \<open>generate_session\<close>. The generator \<open>random.Random\<close> is a record
  of its methods over a generator state; \<open>rng_lawful\<close> says that they answer in the documented
  ranges. Shown: the shape of a generated session (tools in template order, repeats in range,
  consecutive turn indices) for every generator.
\<close>

subsection \<open>Random numbers\<close>

text \<open>
  \<open>choice(xs)\<close> is \<open>xs[i]\<close> for the index \<open>i\<close> that \<open>rng_index (len xs)\<close> draws.
\<close>

record 'g rng =
  rng_randint :: "int \<Rightarrow> int \<Rightarrow> 'g \<Rightarrow> int \<times> 'g"
  rng_index :: "nat \<Rightarrow> 'g \<Rightarrow> nat \<times> 'g"
  rng_getrandbits :: "nat \<Rightarrow> 'g \<Rightarrow> nat \<times> 'g"

definition rng_lawful :: "'g rng \<Rightarrow> bool" where
  "rng_lawful R \<longleftrightarrow>
     (\<forall>a b g. a \<le> b \<longrightarrow> a \<le> fst (rng_randint R a b g) \<and> fst (rng_randint R a b g) \<le> b)
   \<and> (\<forall>n g. 0 < n \<longrightarrow> fst (rng_index R n g) < n)
   \<and> (\<forall>k g. fst (rng_getrandbits R k g) < 2 ^ k)"

definition rng_choice :: "'g rng \<Rightarrow> 'a list \<Rightarrow> 'g \<Rightarrow> 'a \<times> 'g" where
  "rng_choice R xs g = (let (i, g') = rng_index R (length xs) g in (xs ! i, g'))"

lemma rng_randint_range:
  "rng_lawful R \<Longrightarrow> a \<le> b \<Longrightarrow> rng_randint R a b g = (i, g') \<Longrightarrow> a \<le> i \<and> i \<le> b"
  unfolding rng_lawful_def by (metis fst_conv)

lemma rng_choice_in: "rng_lawful R \<Longrightarrow> xs \<noteq> [] \<Longrightarrow> rng_choice R xs g = (x, g') \<Longrightarrow> x \<in> set xs"
  by (auto simp: rng_choice_def rng_lawful_def split: prod.splits)
    (metis fst_conv length_greater_0_conv nth_mem)

text \<open>A generator that draws every number from the counter that is its state.\<close>

definition rng_counter :: "nat rng" where
  "rng_counter = \<lparr>rng_randint = (\<lambda>a b g. (a + int g mod (b - a + 1), Suc g)),
     rng_index = (\<lambda>n g. (g mod n, Suc g)), rng_getrandbits = (\<lambda>k g. (g mod 2 ^ k, Suc g))\<rparr>"

lemma rng_counter_lawful: "rng_lawful rng_counter"
proof -
  have "a \<le> a + int g mod (b - a + 1) \<and> a + int g mod (b - a + 1) \<le> b" if "a \<le> b" for a b g
    using that pos_mod_sign [of "b - a + 1" "int g"] pos_mod_bound [of "b - a + 1" "int g"] by simp
  then show ?thesis by (simp add: rng_lawful_def rng_counter_def)
qed

subsection \<open>Data\<close>

datatype task_type =
  INBOX_TRIAGE | FLIGHT_BOOKING | CALENDAR_SCHEDULING | FILE_SHARING | CONTACT_UPDATE

definition all_task_types :: "task_type list" where
  "all_task_types = [INBOX_TRIAGE, FLIGHT_BOOKING, CALENDAR_SCHEDULING, FILE_SHARING, CONTACT_UPDATE]"

fun task_type_value :: "task_type \<Rightarrow> string" where
  "task_type_value INBOX_TRIAGE = ''inbox_triage''"
| "task_type_value FLIGHT_BOOKING = ''flight_booking''"
| "task_type_value CALENDAR_SCHEDULING = ''calendar_scheduling''"
| "task_type_value FILE_SHARING = ''file_sharing''"
| "task_type_value CONTACT_UPDATE = ''contact_update''"

record tool_call =
  tc_tool_name :: string
  tc_params :: params
  tc_turn_index :: int

record session =
  ss_session_id :: string
  ss_task_type :: task_type
  ss_calls :: "tool_call list"

type_synonym 'g param_fn = "'g rng \<Rightarrow> 'g \<Rightarrow> params \<times> 'g"

record 'g step_group =
  sg_tool_name :: string
  sg_param_fn :: "'g param_fn"
  sg_min_repeat :: int
  sg_max_repeat :: int

record 'g task_template =
  tt_task_type :: task_type
  tt_groups :: "'g step_group list"

subsection \<open>Parameter generators\<close>

definition inbox_triage_read_params :: "'g param_fn" where
  "inbox_triage_read_params R g = (let (n, g) = rng_randint R 3 10 g in ([(''count'', int_str n)], g))"

definition reply_bodies :: "string list" where
  "reply_bodies =
    [''Acknowledged, will follow up.'',
     ''Thanks for the update, I will review this shortly.'',
     ''Got it, forwarding to the right person on the team.'',
     ''Confirmed, scheduling time to address this today.'',
     ''Noted, will circle back once I have more details.'']"

definition inbox_triage_reply_params :: "'g param_fn" where
  "inbox_triage_reply_params R g =
     (let (n, g) = rng_randint R 1 999 g; (body, g) = rng_choice R reply_bodies g
      in ([(''email_id'', int_str n), (''body'', body)], g))"

definition flight_origins :: "string list" where
  "flight_origins = [''JFK'', ''LAX'', ''ORD'', ''SFO'', ''ATL'', ''DFW'', ''SEA'', ''BOS'']"

definition flight_dests :: "string list" where
  "flight_dests = [''LHR'', ''CDG'', ''NRT'', ''SYD'', ''DXB'', ''SIN'', ''FRA'', ''AMS'']"

definition flight_search_params :: "'g param_fn" where
  "flight_search_params R g =
     (let (orig, g) = rng_choice R flight_origins g; (dest, g) = rng_choice R flight_dests g
      in ([(''origin'', orig), (''destination'', dest)], g))"

definition flight_book_params :: "'g param_fn" where
  "flight_book_params R g =
     (let (n, g) = rng_randint R 1000 9999 g in ([(''flight_id'', ''FL'' @ int_str n)], g))"

text \<open>The format \<open>:02d\<close>.\<close>

definition pad2 :: "int \<Rightarrow> string" where
  "pad2 n = (let s = int_str n in replicate (2 - length s) CHR ''0'' @ s)"

definition calendar_get_params :: "'g param_fn" where
  "calendar_get_params R g =
     (let (month, g) = rng_randint R 1 12 g; (day, g) = rng_randint R 1 28 g
      in ([(''date'', ''2026-'' @ pad2 month @ ''-'' @ pad2 day)], g))"

definition calendar_titles :: "string list" where
  "calendar_titles =
    [''Team sync'', ''Dentist appointment'', ''Project review'', ''Lunch with client'',
     ''1:1 with manager'', ''Quarterly planning'', ''Client onboarding call'',
     ''Budget review'', ''Sprint retrospective'', ''Vendor check-in'',
     ''Interview panel'', ''All-hands meeting'']"

definition calendar_add_params :: "'g param_fn" where
  "calendar_add_params R g = (let (title, g) = rng_choice R calendar_titles g in ([(''title'', title)], g))"

definition file_queries :: "string list" where
  "file_queries =
    [''quarterly report'', ''project proposal'', ''meeting notes'', ''budget spreadsheet'',
     ''design mockups'', ''onboarding checklist'', ''vendor contract'', ''roadmap draft'']"

definition file_list_params :: "'g param_fn" where
  "file_list_params R g = (let (query, g) = rng_choice R file_queries g in ([(''query'', query)], g))"

definition share_recipients :: "string list" where
  "share_recipients =
    [''colleague@company.com'', ''manager@company.com'', ''team-lead@company.com'',
     ''finance@company.com'', ''legal@company.com'', ''hr@company.com'',
     ''product@company.com'', ''design@company.com'']"

definition file_share_params :: "'g param_fn" where
  "file_share_params R g =
     (let (n, g) = rng_randint R 1000 9999 g; (recipient, g) = rng_choice R share_recipients g
      in ([(''file_id'', ''FILE'' @ int_str n), (''recipient'', recipient)], g))"

definition contact_names :: "string list" where
  "contact_names = [''Smith'', ''Johnson'', ''Williams'', ''Brown'', ''Garcia'', ''Miller'',
     ''Davis'', ''Rodriguez'', ''Martinez'', ''Chen'']"

definition contact_search_params :: "'g param_fn" where
  "contact_search_params R g = (let (name, g) = rng_choice R contact_names g in ([(''name'', name)], g))"

definition contact_fields :: "string list" where
  "contact_fields = [''phone'', ''email'', ''title'', ''department'']"

definition contact_update_params :: "'g param_fn" where
  "contact_update_params R g =
     (let (n, g) = rng_randint R 100 999 g; (field, g) = rng_choice R contact_fields g
      in ([(''contact_id'', ''CONTACT'' @ int_str n), (''field'', field)], g))"

subsection \<open>Templates\<close>

definition step_group :: "string \<Rightarrow> 'g param_fn \<Rightarrow> int \<Rightarrow> int \<Rightarrow> 'g step_group" where
  "step_group tool_name param_fn min_repeat max_repeat =
     \<lparr>sg_tool_name = tool_name, sg_param_fn = param_fn, sg_min_repeat = min_repeat,
      sg_max_repeat = max_repeat\<rparr>"

fun template_groups :: "task_type \<Rightarrow> 'g step_group list" where
  "template_groups INBOX_TRIAGE =
    [step_group ''read_inbox'' inbox_triage_read_params 1 3,
     step_group ''reply_to_email'' inbox_triage_reply_params 2 6]"
| "template_groups FLIGHT_BOOKING =
    [step_group ''search_flights'' flight_search_params 2 5,
     step_group ''book_flight'' flight_book_params 1 2]"
| "template_groups CALENDAR_SCHEDULING =
    [step_group ''get_calendar'' calendar_get_params 1 3,
     step_group ''add_calendar_event'' calendar_add_params 2 5]"
| "template_groups FILE_SHARING =
    [step_group ''list_files'' file_list_params 1 3,
     step_group ''share_file'' file_share_params 2 6]"
| "template_groups CONTACT_UPDATE =
    [step_group ''search_contacts'' contact_search_params 1 3,
     step_group ''update_contact'' contact_update_params 2 5]"

definition templates :: "task_type \<Rightarrow> 'g task_template" where
  "templates task_type = \<lparr>tt_task_type = task_type, tt_groups = template_groups task_type\<rparr>"

subsection \<open>Generation\<close>

text \<open>\<open>str(uuid.UUID(int=n))\<close>: 32 hexadecimal digits in five groups.\<close>

fun hex_digits :: "nat \<Rightarrow> nat \<Rightarrow> string" where
  "hex_digits 0 n = []"
| "hex_digits (Suc k) n = hex_digits k (n div 16) @ [hex_digit (n mod 16)]"

definition uuid_str :: "nat \<Rightarrow> string" where
  "uuid_str n = (let h = hex_digits 32 n in
     take 8 h @ ''-'' @ take 4 (drop 8 h) @ ''-'' @ take 4 (drop 12 h) @ ''-''
       @ take 4 (drop 16 h) @ ''-'' @ drop 20 h)"

text \<open>The two loops of \<open>generate_session\<close>: the repeats of one group, and the groups.\<close>

fun generate_repeats ::
    "'g rng \<Rightarrow> 'g step_group \<Rightarrow> nat \<Rightarrow> tool_call list \<times> nat \<times> 'g \<Rightarrow> tool_call list \<times> nat \<times> 'g" where
  "generate_repeats R grp 0 st = st"
| "generate_repeats R grp (Suc n) (calls, turn_index, g) =
     (let (ps, g') = sg_param_fn grp R g
      in generate_repeats R grp n
           (calls @ [\<lparr>tc_tool_name = sg_tool_name grp, tc_params = ps, tc_turn_index = int turn_index\<rparr>],
            turn_index + 1, g'))"

fun generate_groups ::
    "'g rng \<Rightarrow> 'g step_group list \<Rightarrow> tool_call list \<times> nat \<times> 'g \<Rightarrow> tool_call list \<times> nat \<times> 'g" where
  "generate_groups R [] st = st"
| "generate_groups R (grp # groups) (calls, turn_index, g) =
     (let (repeat_count, g') = rng_randint R (sg_min_repeat grp) (sg_max_repeat grp) g
      in generate_groups R groups
           (generate_repeats R grp (nat repeat_count) (calls, turn_index, g')))"

definition generate_session :: "'g rng \<Rightarrow> task_type \<Rightarrow> 'g \<Rightarrow> session \<times> 'g" where
  "generate_session R task_type g =
     (let (calls, _, g) = generate_groups R (tt_groups (templates task_type)) ([], 0, g);
          (n, g) = rng_getrandbits R 128 g
      in (\<lparr>ss_session_id = uuid_str n, ss_task_type = task_type, ss_calls = calls\<rparr>, g))"

fun TASK_INITIAL_USER_TEXT :: "task_type \<Rightarrow> string" where
  "TASK_INITIAL_USER_TEXT INBOX_TRIAGE = ''Please check my inbox and reply to anything urgent''"
| "TASK_INITIAL_USER_TEXT FLIGHT_BOOKING = ''Please search for a flight and book it for me''"
| "TASK_INITIAL_USER_TEXT CALENDAR_SCHEDULING = ''Please check my calendar and schedule a new event''"
| "TASK_INITIAL_USER_TEXT FILE_SHARING = ''Please find that document and share it with the team''"
| "TASK_INITIAL_USER_TEXT CONTACT_UPDATE = ''Please look up that contact and update their information''"

subsection \<open>The shape of a session\<close>

text \<open>
  \<open>from_group R grp c\<close>: the call \<open>c\<close> is one the generator of the group makes from some state.
\<close>

definition from_group :: "'g rng \<Rightarrow> 'g step_group \<Rightarrow> tool_call \<Rightarrow> bool" where
  "from_group R grp c \<longleftrightarrow> tc_tool_name c = sg_tool_name grp
     \<and> (\<exists>g. tc_params c = fst (sg_param_fn grp R g))"

lemma generate_repeats_shape:
  "\<exists>new g'. generate_repeats R grp n (calls, turn, g) = (calls @ new, turn + n, g')
     \<and> length new = n \<and> map tc_turn_index new = map int [turn..<turn + n] \<and> list_all (from_group R grp) new"
proof (induction n arbitrary: calls turn g)
  case (Suc n)
  obtain ps g1 where ps: "sg_param_fn grp R g = (ps, g1)" by (cases "sg_param_fn grp R g")
  let ?c = "\<lparr>tc_tool_name = sg_tool_name grp, tc_params = ps, tc_turn_index = int turn\<rparr>"
  obtain new g' where new: "generate_repeats R grp n (calls @ [?c], turn + 1, g1)
      = ((calls @ [?c]) @ new, turn + 1 + n, g')"
    "length new = n" "map tc_turn_index new = map int [turn + 1..<turn + 1 + n]" "list_all (from_group R grp) new"
    using Suc.IH by blast
  have "generate_repeats R grp (Suc n) (calls, turn, g) = (calls @ (?c # new), turn + Suc n, g')"
    using new(1) ps by simp
  moreover have "from_group R grp ?c"
    unfolding from_group_def using ps by (metis fst_conv tool_call.select_convs(1,2))
  moreover have "map tc_turn_index (?c # new) = map int [turn..<turn + Suc n]"
    using new(3) by (simp add: upt_conv_Cons)
  ultimately show ?case using new(2,4)
    by (intro exI [of _ "?c # new"] exI [of _ g']) simp
qed simp

text \<open>
  The calls of a session split into one run per group: the run's length in the range of its group.
\<close>

definition run_of :: "'g rng \<Rightarrow> 'g step_group \<Rightarrow> tool_call list \<Rightarrow> bool" where
  "run_of R grp cs \<longleftrightarrow> sg_min_repeat grp \<le> int (length cs) \<and> int (length cs) \<le> sg_max_repeat grp
     \<and> list_all (from_group R grp) cs"

definition groups_ok :: "'g step_group list \<Rightarrow> bool" where
  "groups_ok groups \<longleftrightarrow>
     list_all (\<lambda>gr. 0 \<le> sg_min_repeat gr \<and> sg_min_repeat gr \<le> sg_max_repeat gr) groups"

lemma generate_groups_shape:
  assumes "rng_lawful R"
  shows "groups_ok groups \<Longrightarrow> \<exists>runs g'. generate_groups R groups (calls, turn, g)
        = (calls @ concat runs, turn + length (concat runs), g')
     \<and> list_all2 (run_of R) groups runs
     \<and> map tc_turn_index (concat runs) = map int [turn..<turn + length (concat runs)]"
proof (induction groups arbitrary: calls turn g)
  case (Cons grp groups)
  obtain k g1 where k: "rng_randint R (sg_min_repeat grp) (sg_max_repeat grp) g = (k, g1)"
    by fastforce
  from Cons.prems have range: "0 \<le> sg_min_repeat grp" "sg_min_repeat grp \<le> sg_max_repeat grp"
    and rest: "groups_ok groups" by (auto simp: groups_ok_def)
  from rng_randint_range [OF assms range(2) k] have kr: "sg_min_repeat grp \<le> k" "k \<le> sg_max_repeat grp"
    by auto
  obtain new g2 where new: "generate_repeats R grp (nat k) (calls, turn, g1) = (calls @ new, turn + nat k, g2)"
    "length new = nat k" "map tc_turn_index new = map int [turn..<turn + nat k]" "list_all (from_group R grp) new"
    using generate_repeats_shape [of R grp "nat k" calls turn g1] by auto
  obtain runs g' where runs: "generate_groups R groups (calls @ new, turn + nat k, g2)
      = ((calls @ new) @ concat runs, turn + nat k + length (concat runs), g')"
    "list_all2 (run_of R) groups runs"
    "map tc_turn_index (concat runs) = map int [turn + nat k..<turn + nat k + length (concat runs)]"
    using Cons.IH [OF rest] by blast
  have "run_of R grp new" using new kr range by (simp add: run_of_def)
  moreover have "map int [turn..<turn + nat k] @ map int [turn + nat k..<turn + nat k + length (concat runs)]
      = map int [turn..<turn + nat k + length (concat runs)]"
    by (metis le_add1 map_append upt_add_eq_append)
  ultimately show ?case using k new runs
    by (intro exI [of _ "new # runs"] exI [of _ g']) (simp add: add.assoc)
qed simp

lemma template_groups_ok: "groups_ok (template_groups tt)"
  by (cases tt) (simp_all add: groups_ok_def step_group_def)

lemma generate_session_shape:
  assumes "rng_lawful R" "generate_session R tt g = (s, g')"
  obtains runs where "ss_calls s = concat runs" "list_all2 (run_of R) (template_groups tt) runs"
    "map tc_turn_index (ss_calls s) = map int [0..<length (ss_calls s)]" "ss_task_type s = tt"
proof -
  obtain runs g1 where runs: "generate_groups R (template_groups tt) ([], 0, g)
      = (concat runs, length (concat runs), g1)"
    "list_all2 (run_of R) (template_groups tt) runs"
    "map tc_turn_index (concat runs) = map int [0..<length (concat runs)]"
    using generate_groups_shape [OF assms(1) template_groups_ok, of tt "[]" 0 g] by auto
  with assms(2) have "ss_calls s = concat runs" "ss_task_type s = tt"
    by (auto simp: generate_session_def templates_def split: prod.splits)
  with runs that show thesis by simp
qed

text \<open>The two runs of a session, as every template has two groups.\<close>

lemma generate_session_runs:
  assumes "rng_lawful R" "generate_session R tt g = (s, g')" "template_groups tt = [a, b]"
  obtains as bs where "ss_calls s = as @ bs" "run_of R a as" "run_of R b bs"
proof -
  obtain runs where runs: "ss_calls s = concat runs" "list_all2 (run_of R) (template_groups tt) runs"
    using generate_session_shape [OF assms(1,2)] by blast
  from runs(2) [unfolded assms(3)] obtain as bs where "runs = [as, bs]" "run_of R a as" "run_of R b bs"
    by (auto simp: list_all2_Cons1)
  with runs(1) that show thesis by simp
qed

lemma run_of_step_group [simp]:
  "run_of R (step_group n f lo hi) cs \<longleftrightarrow> lo \<le> int (length cs) \<and> int (length cs) \<le> hi
     \<and> list_all (from_group R (step_group n f lo hi)) cs"
  by (simp add: run_of_def step_group_def)

lemma from_group_step_group:
  "from_group R (step_group n f lo hi) c \<longleftrightarrow> tc_tool_name c = n \<and> (\<exists>g. tc_params c = fst (f R g))"
  by (simp add: from_group_def step_group_def)

lemma session_length:
  assumes "rng_lawful R" "generate_session R tt g = (s, g')"
  shows "3 \<le> length (ss_calls s)" "length (ss_calls s) \<le> 9"
proof -
  obtain runs where runs: "ss_calls s = concat runs" "list_all2 (run_of R) (template_groups tt) runs"
    by (rule generate_session_shape [OF assms])
  from runs(2) have "3 \<le> length (concat runs) \<and> length (concat runs) \<le> 9"
    by (cases tt) (auto simp: list_all2_Cons1)
  with runs(1) show "3 \<le> length (ss_calls s)" "length (ss_calls s) \<le> 9" by simp_all
qed

text \<open>
  With a generator that keeps its documented ranges, a generated session has from three to
  nine calls with consecutive turn indices from zero, and its calls are one run per step group
  of its template, in the template's order, each run as long as the group allows and made by the
  group's parameter generator.
\<close>

theorem generated_session_shape:
  assumes "rng_lawful R" "generate_session R tt g = (s, g')"
  shows "ss_task_type s = tt \<and> 3 \<le> length (ss_calls s) \<and> length (ss_calls s) \<le> 9
    \<and> map tc_turn_index (ss_calls s) = map int [0..<length (ss_calls s)]
    \<and> (\<exists>runs. ss_calls s = concat runs \<and> list_all2 (run_of R) (template_groups tt) runs)"
proof -
  obtain runs where runs: "ss_calls s = concat runs" "list_all2 (run_of R) (template_groups tt) runs"
    and rest: "map tc_turn_index (ss_calls s) = map int [0..<length (ss_calls s)]" "ss_task_type s = tt"
    by (rule generate_session_shape [OF assms])
  with rest session_length [OF assms] show ?thesis by auto
qed

definition demo_session :: session where
  "demo_session = fst (generate_session rng_counter INBOX_TRIAGE 1)"

theorem generated_session_shape_witness:
  "3 \<le> length (ss_calls demo_session) \<and> length (ss_calls demo_session) \<le> 9"
  using generated_session_shape [OF rng_counter_lawful, of INBOX_TRIAGE 1 demo_session
      "snd (generate_session rng_counter INBOX_TRIAGE 1)"]
  by (simp add: demo_session_def)

end
