(* ===== verification/SessionStore.thy ===== *)
theory SessionStore
  imports TaskSim
begin

section \<open>Session stores\<close>

text \<open>
  Models \<open>session/store.py\<close> and \<open>session/redis_store.py\<close>. A store is a record of the
  protocol's operations over a state \<open>'s\<close>, any of which may raise; what detectors and the
  interception layer rely on is the locale \<open>session_store\<close>, stated over the log of attempts a
  store state holds. Both stores meet it: the in-memory one by interpretation, the Redis one on
  every server that implements the list commands. Of the Redis store the round trip through
  JSON and the sliding expiry are shown too.
\<close>

subsection \<open>Attempts\<close>

datatype call_outcome = ALLOWED | BLOCKED | TOOL_ERROR | PENDING_APPROVAL

fun call_outcome_value :: "call_outcome \<Rightarrow> string" where
  "call_outcome_value ALLOWED = ''allowed''"
| "call_outcome_value BLOCKED = ''blocked''"
| "call_outcome_value TOOL_ERROR = ''tool_error''"
| "call_outcome_value PENDING_APPROVAL = ''pending_approval''"

text \<open>\<open>CallOutcome(value)\<close>.\<close>

definition call_outcome_of :: "string \<Rightarrow> call_outcome result" where
  "call_outcome_of v =
     (if v = ''allowed'' then Inr ALLOWED
      else if v = ''blocked'' then Inr BLOCKED
      else if v = ''tool_error'' then Inr TOOL_ERROR
      else if v = ''pending_approval'' then Inr PENDING_APPROVAL
      else Inl ValueError)"

lemma call_outcome_roundtrip [simp]: "call_outcome_of (call_outcome_value out) = Inr out"
  by (cases out) (simp_all add: call_outcome_of_def)

record call_attempt =
  ca_call :: tool_call
  ca_outcome :: call_outcome
  ca_scoring_detail :: "json option"

definition call_attempt :: "tool_call \<Rightarrow> call_outcome \<Rightarrow> json option \<Rightarrow> call_attempt" where
  "call_attempt call outcome scoring_detail =
     \<lparr>ca_call = call, ca_outcome = outcome, ca_scoring_detail = scoring_detail\<rparr>"

lemma call_attempt_sel [simp]:
  "ca_call (call_attempt c out d) = c" "ca_outcome (call_attempt c out d) = out"
  "ca_scoring_detail (call_attempt c out d) = d"
  by (simp_all add: call_attempt_def)

definition attempt_tool :: "call_attempt \<Rightarrow> string" where
  "attempt_tool a = tc_tool_name (ca_call a)"

subsection \<open>The protocol\<close>

record 's store_ops =
  so_append_attempt :: "string \<Rightarrow> tool_call \<Rightarrow> call_outcome \<Rightarrow> json option \<Rightarrow> 's \<Rightarrow> unit result \<times> 's"
  so_append_call :: "string \<Rightarrow> tool_call \<Rightarrow> 's \<Rightarrow> unit result \<times> 's"
  so_get_attempts :: "string \<Rightarrow> 's \<Rightarrow> call_attempt list result"
  so_get_calls :: "string \<Rightarrow> 's \<Rightarrow> tool_call list result"
  so_get_tool_footprint :: "string \<Rightarrow> 's \<Rightarrow> string set result"

type_synonym attempt_log = "string \<Rightarrow> call_attempt list"

definition log_append :: "string \<Rightarrow> call_attempt \<Rightarrow> attempt_log \<Rightarrow> attempt_log" where
  "log_append sid a l = l(sid := l sid @ [a])"

lemma log_append_apply [simp]:
  "log_append sid a l sid' = (if sid' = sid then l sid @ [a] else l sid')"
  by (simp add: log_append_def)

text \<open>A detail is never the JSON value \<open>null\<close>: the code stores a dictionary or \<open>None\<close>.\<close>

definition detail_ok :: "json option \<Rightarrow> bool" where
  "detail_ok d \<longleftrightarrow> d \<noteq> Some JNull"

text \<open>
  \<open>good s\<close>: the store answers in the state \<open>s\<close>; \<open>log s\<close>: the attempts of every session.
\<close>

locale session_store =
  fixes S :: "'s store_ops" and good :: "'s \<Rightarrow> bool" and log :: "'s \<Rightarrow> attempt_log"
  assumes attempts: "good s \<Longrightarrow> so_get_attempts S sid s = Inr (log s sid)"
    and calls: "good s \<Longrightarrow> so_get_calls S sid s = Inr (map ca_call (log s sid))"
    and footprint: "good s \<Longrightarrow> so_get_tool_footprint S sid s = Inr (attempt_tool ` set (log s sid))"
    and append_attempt: "good s \<Longrightarrow> detail_ok d \<Longrightarrow> \<exists>s'. so_append_attempt S sid c out d s = (Inr (), s')
          \<and> good s' \<and> log s' = log_append sid (call_attempt c out d) (log s)"
    and append_call: "so_append_call S sid c s = so_append_attempt S sid c ALLOWED None s"
begin

lemma append_attemptE:
  assumes "good s" "detail_ok d"
  obtains s' where "so_append_attempt S sid c out d s = (Inr (), s')" "good s'"
    "log s' = log_append sid (call_attempt c out d) (log s)"
  using append_attempt [OF assms] by blast

lemma append_read:
  assumes "good s" "detail_ok d" "so_append_attempt S sid c out d s = (r, s')"
  shows "so_get_attempts S sid s' = Inr (log s sid @ [call_attempt c out d])"
    and "sid' \<noteq> sid \<Longrightarrow> so_get_attempts S sid' s' = so_get_attempts S sid' s"
    and "so_get_tool_footprint S sid s' = Inr (insert (tc_tool_name c) (attempt_tool ` set (log s sid)))"
  using append_attempt [OF assms(1,2), of sid c out] assms
  by (auto simp: attempts footprint attempt_tool_def)

text \<open>The footprint never shrinks while attempts are appended.\<close>

lemma append_footprint_mono:
  assumes "good s" "detail_ok d" "so_append_attempt S sid c out d s = (r, s')"
    and "so_get_tool_footprint S sid' s = Inr F" "so_get_tool_footprint S sid' s' = Inr F'"
  shows "F \<subseteq> F'"
  using append_attempt [OF assms(1,2), of sid c out] assms
  by (auto simp: footprint attempt_tool_def split: if_splits)

end

subsection \<open>The in-memory store\<close>

type_synonym memory_store = "(string, call_attempt list) dict"

definition mem_append_attempt ::
    "string \<Rightarrow> tool_call \<Rightarrow> call_outcome \<Rightarrow> json option \<Rightarrow> memory_store \<Rightarrow> unit result \<times> memory_store" where
  "mem_append_attempt session_id call outcome scoring_detail sessions =
     (Inr (), dict_set sessions session_id
        (dict_get_or sessions session_id [] @ [call_attempt call outcome scoring_detail]))"

definition mem_append_call :: "string \<Rightarrow> tool_call \<Rightarrow> memory_store \<Rightarrow> unit result \<times> memory_store" where
  "mem_append_call session_id call sessions = mem_append_attempt session_id call ALLOWED None sessions"

definition mem_get_attempts :: "string \<Rightarrow> memory_store \<Rightarrow> call_attempt list result" where
  "mem_get_attempts session_id sessions = Inr (dict_get_or sessions session_id [])"

definition mem_get_calls :: "string \<Rightarrow> memory_store \<Rightarrow> tool_call list result" where
  "mem_get_calls session_id sessions = Inr (map ca_call (dict_get_or sessions session_id []))"

definition mem_get_tool_footprint :: "string \<Rightarrow> memory_store \<Rightarrow> string set result" where
  "mem_get_tool_footprint session_id sessions =
     Inr (set (map (\<lambda>a. tc_tool_name (ca_call a)) (dict_get_or sessions session_id [])))"

definition memory_ops :: "memory_store store_ops" where
  "memory_ops = \<lparr>so_append_attempt = mem_append_attempt, so_append_call = mem_append_call,
     so_get_attempts = mem_get_attempts, so_get_calls = mem_get_calls,
     so_get_tool_footprint = mem_get_tool_footprint\<rparr>"

definition mem_log :: "memory_store \<Rightarrow> attempt_log" where
  "mem_log sessions sid = dict_get_or sessions sid []"

lemma mem_log_append:
  "mem_log (snd (mem_append_attempt sid c out d s)) = log_append sid (call_attempt c out d) (mem_log s)"
  by (rule ext) (simp add: mem_log_def mem_append_attempt_def dict_get_or_def)

interpretation mem: session_store memory_ops "\<lambda>_. True" mem_log
proof
  fix s :: memory_store and sid c out d
  have "mem_append_attempt sid c out d s = (Inr (), snd (mem_append_attempt sid c out d s))"
    by (simp add: mem_append_attempt_def)
  then show "\<exists>s'. so_append_attempt memory_ops sid c out d s = (Inr (), s') \<and> True
      \<and> mem_log s' = log_append sid (call_attempt c out d) (mem_log s)"
    using mem_log_append by (auto simp: memory_ops_def)
qed (auto simp: memory_ops_def mem_get_attempts_def mem_get_calls_def mem_get_tool_footprint_def
    mem_append_call_def mem_log_def attempt_tool_def)

subsection \<open>The store in Redis\<close>

text \<open>
  The Redis server is a parameter: the list commands, over a server state \<open>'r\<close>, and the passing of
  a number of seconds. A stored text is kept as the JSON value it encodes (\<open>json.dumps\<close> and
  \<open>json.loads\<close> are inverse on the plain data the code stores). The code does not check the types
  of a stored record's fields; a text of other types is \<open>External\<close>.
\<close>

record 'r redis_lists =
  rl_rpush :: "string \<Rightarrow> json \<Rightarrow> 'r \<Rightarrow> 'r"
  rl_lrange :: "string \<Rightarrow> 'r \<Rightarrow> json list"
  rl_expire :: "string \<Rightarrow> int \<Rightarrow> 'r \<Rightarrow> 'r"
  rl_ttl :: "string \<Rightarrow> 'r \<Rightarrow> int"
  rl_elapse :: "int \<Rightarrow> 'r \<Rightarrow> 'r"

text \<open>
  The documented behaviour of \<open>RPUSH\<close>, \<open>LRANGE 0 -1\<close>, \<open>EXPIRE\<close> and \<open>TTL\<close> (\<open>-2\<close> for a missing key)
  for positive expiry times.
\<close>

definition redis_lists_lawful :: "'r redis_lists \<Rightarrow> bool" where
  "redis_lists_lawful R \<longleftrightarrow>
     (\<forall>k k' v r. rl_lrange R k' (rl_rpush R k v r)
        = (if k' = k then rl_lrange R k r @ [v] else rl_lrange R k' r))
   \<and> (\<forall>k k' v r. k' \<noteq> k \<longrightarrow> rl_ttl R k' (rl_rpush R k v r) = rl_ttl R k' r)
   \<and> (\<forall>k k' t r. 0 < t \<longrightarrow> rl_lrange R k' (rl_expire R k t r) = rl_lrange R k' r)
   \<and> (\<forall>k k' t r. 0 < t \<longrightarrow> rl_lrange R k r \<noteq> [] \<longrightarrow>
        rl_ttl R k' (rl_expire R k t r) = (if k' = k then t else rl_ttl R k' r))
   \<and> (\<forall>k d r. 0 \<le> d \<longrightarrow> rl_lrange R k (rl_elapse R d r)
        = (if 0 \<le> rl_ttl R k r \<and> rl_ttl R k r \<le> d then [] else rl_lrange R k r))"

definition session_key_prefix :: string where
  "session_key_prefix = ''simulacrum:session''"

definition DEFAULT_SESSION_TTL_SECONDS :: int where
  "DEFAULT_SESSION_TTL_SECONDS = 24 * 60 * 60"

definition session_key :: "string \<Rightarrow> string" where
  "session_key session_id = session_key_prefix @ '':'' @ session_id @ '':attempts''"

lemma session_key_inj [simp]: "session_key a = session_key b \<longleftrightarrow> a = b"
  by (simp add: session_key_def)

definition json_of_params :: "params \<Rightarrow> json" where
  "json_of_params ps = JDict (map (\<lambda>(k, v). (k, JStr v)) ps)"

definition serialize_attempt :: "call_attempt \<Rightarrow> json" where
  "serialize_attempt a = JDict
    [(''tool_name'', JStr (tc_tool_name (ca_call a))),
     (''params'', json_of_params (tc_params (ca_call a))),
     (''turn_index'', JInt (tc_turn_index (ca_call a))),
     (''outcome'', JStr (call_outcome_value (ca_outcome a))),
     (''scoring_detail'', json_opt id (ca_scoring_detail a))]"

definition json_key :: "json \<Rightarrow> string \<Rightarrow> json result" where
  "json_key j k = (case json_get j k of Some v \<Rightarrow> Inr v | None \<Rightarrow> Inl (PyKeyError k))"

fun json_params :: "json \<Rightarrow> params result" where
  "json_params (JDict d) = res_map (\<lambda>(k, v). case v of JStr s \<Rightarrow> Inr (k, s) | _ \<Rightarrow> Inl (External ''json'')) d"
| "json_params _ = Inl (External ''json'')"

definition typed :: "(json \<Rightarrow> 'a option) \<Rightarrow> json \<Rightarrow> 'a result" where
  "typed f j = (case f j of Some a \<Rightarrow> Inr a | None \<Rightarrow> Inl (External ''json''))"

definition deserialize_attempt :: "json \<Rightarrow> call_attempt result" where
  "deserialize_attempt j =
     res_bind (res_bind (json_key j ''tool_name'') (typed json_str)) (\<lambda>tool_name.
     res_bind (res_bind (json_key j ''params'') json_params) (\<lambda>ps.
     res_bind (res_bind (json_key j ''turn_index'') (typed json_int)) (\<lambda>turn_index.
     res_bind (res_bind (res_bind (json_key j ''outcome'') (typed json_str)) call_outcome_of) (\<lambda>outcome.
     Inr \<lparr>ca_call = \<lparr>tc_tool_name = tool_name, tc_params = ps, tc_turn_index = turn_index\<rparr>,
          ca_outcome = outcome,
          ca_scoring_detail = (case json_get j ''scoring_detail'' of
             Some JNull \<Rightarrow> None | d \<Rightarrow> d)\<rparr>))))"

record 'r redis_store =
  rs_redis :: "'r redis_lists"
  rs_session_ttl_seconds :: int

definition rs_append_attempt ::
    "'r redis_store \<Rightarrow> string \<Rightarrow> tool_call \<Rightarrow> call_outcome \<Rightarrow> json option \<Rightarrow> 'r \<Rightarrow> unit result \<times> 'r" where
  "rs_append_attempt T session_id call outcome scoring_detail r =
     (let attempt = call_attempt call outcome scoring_detail;
          key = session_key session_id;
          r = rl_rpush (rs_redis T) key (serialize_attempt attempt) r
      in (Inr (), rl_expire (rs_redis T) key (rs_session_ttl_seconds T) r))"

definition rs_append_call :: "'r redis_store \<Rightarrow> string \<Rightarrow> tool_call \<Rightarrow> 'r \<Rightarrow> unit result \<times> 'r" where
  "rs_append_call T session_id call r = rs_append_attempt T session_id call ALLOWED None r"

definition rs_get_attempts :: "'r redis_store \<Rightarrow> string \<Rightarrow> 'r \<Rightarrow> call_attempt list result" where
  "rs_get_attempts T session_id r =
     res_map deserialize_attempt (rl_lrange (rs_redis T) (session_key session_id) r)"

definition rs_get_calls :: "'r redis_store \<Rightarrow> string \<Rightarrow> 'r \<Rightarrow> tool_call list result" where
  "rs_get_calls T session_id r =
     res_bind (rs_get_attempts T session_id r) (\<lambda>as. Inr (map ca_call as))"

definition rs_get_tool_footprint :: "'r redis_store \<Rightarrow> string \<Rightarrow> 'r \<Rightarrow> string set result" where
  "rs_get_tool_footprint T session_id r =
     res_bind (rs_get_attempts T session_id r)
       (\<lambda>as. Inr (set (map (\<lambda>a. tc_tool_name (ca_call a)) as)))"

definition rs_get_ttl_seconds :: "'r redis_store \<Rightarrow> string \<Rightarrow> 'r \<Rightarrow> int option" where
  "rs_get_ttl_seconds T session_id r =
     (let ttl = rl_ttl (rs_redis T) (session_key session_id) r in if ttl \<ge> 0 then Some ttl else None)"

definition redis_store_ops :: "'r redis_store \<Rightarrow> 'r store_ops" where
  "redis_store_ops T = \<lparr>so_append_attempt = rs_append_attempt T, so_append_call = rs_append_call T,
     so_get_attempts = rs_get_attempts T, so_get_calls = rs_get_calls T,
     so_get_tool_footprint = rs_get_tool_footprint T\<rparr>"

subsection \<open>The Redis store meets the contract\<close>

lemma json_params_roundtrip: "json_params (json_of_params ps) = Inr ps"
  unfolding json_of_params_def by (induction ps) auto

lemma attempt_roundtrip:
  "detail_ok (ca_scoring_detail a) \<Longrightarrow> deserialize_attempt (serialize_attempt a) = Inr a"
  by (cases "ca_scoring_detail a")
    (auto simp: deserialize_attempt_def serialize_attempt_def json_key_def typed_def
      json_params_roundtrip detail_ok_def split: json.splits)

lemma redis_listsD:
  assumes "redis_lists_lawful R"
  shows "rl_lrange R k' (rl_rpush R k v r) = (if k' = k then rl_lrange R k r @ [v] else rl_lrange R k' r)"
    and "k' \<noteq> k \<Longrightarrow> rl_ttl R k' (rl_rpush R k v r) = rl_ttl R k' r"
    and "0 < t \<Longrightarrow> rl_lrange R k' (rl_expire R k t r) = rl_lrange R k' r"
    and "0 < t \<Longrightarrow> rl_lrange R k r \<noteq> [] \<Longrightarrow>
        rl_ttl R k' (rl_expire R k t r) = (if k' = k then t else rl_ttl R k' r)"
    and "0 \<le> d \<Longrightarrow> rl_lrange R k (rl_elapse R d r)
        = (if 0 \<le> rl_ttl R k r \<and> rl_ttl R k r \<le> d then [] else rl_lrange R k r)"
  using assms unfolding redis_lists_lawful_def by blast+

lemma res_map_append:
  "res_map f (xs @ ys) = res_bind (res_map f xs) (\<lambda>as. res_bind (res_map f ys) (\<lambda>bs. Inr (as @ bs)))"
proof (induction xs)
  case Nil
  show ?case by (cases "res_map f ys") simp_all
next
  case (Cons x xs)
  then show ?case by (cases "f x"; cases "res_map f xs"; cases "res_map f ys") simp_all
qed

lemma rs_append_read:
  assumes "redis_lists_lawful (rs_redis T)" "0 < rs_session_ttl_seconds T" "detail_ok d"
  shows "rs_get_attempts T sid' (snd (rs_append_attempt T sid c out d r)) =
    (if sid' = sid then res_bind (rs_get_attempts T sid r) (\<lambda>as. Inr (as @ [call_attempt c out d]))
     else rs_get_attempts T sid' r)"
  using assms
  by (simp add: rs_get_attempts_def rs_append_attempt_def Let_def redis_listsD res_map_append
      attempt_roundtrip)

definition rs_good :: "'r redis_store \<Rightarrow> 'r \<Rightarrow> bool" where
  "rs_good T r \<longleftrightarrow> (\<forall>sid. \<exists>as. rs_get_attempts T sid r = Inr as)"

definition rs_log :: "'r redis_store \<Rightarrow> 'r \<Rightarrow> attempt_log" where
  "rs_log T r sid = (case rs_get_attempts T sid r of Inr as \<Rightarrow> as | Inl _ \<Rightarrow> [])"

lemma rs_log_good: "rs_good T r \<Longrightarrow> rs_get_attempts T sid r = Inr (rs_log T r sid)"
  unfolding rs_good_def rs_log_def by (metis (no_types, lifting) sum.simps(6))

theorem redis_store_contract:
  assumes R: "redis_lists_lawful (rs_redis T)" "0 < rs_session_ttl_seconds T"
  shows "session_store (redis_store_ops T) (rs_good T) (rs_log T)"
proof
  fix s sid c out d assume good: "rs_good T s" and d: "detail_ok d"
  let ?s' = "snd (rs_append_attempt T sid c out d s)"
  have read: "rs_get_attempts T sid' ?s' = Inr (log_append sid (call_attempt c out d) (rs_log T s) sid')" for sid'
    by (simp add: rs_append_read [OF R d] rs_log_good [OF good])
  then have "rs_good T ?s'" by (auto simp: rs_good_def)
  moreover have "rs_log T ?s' = log_append sid (call_attempt c out d) (rs_log T s)"
    by (rule ext) (simp add: rs_log_def [of T ?s'] read)
  moreover have "rs_append_attempt T sid c out d s = (Inr (), ?s')"
    by (simp add: rs_append_attempt_def Let_def)
  ultimately show "\<exists>s'. so_append_attempt (redis_store_ops T) sid c out d s = (Inr (), s')
      \<and> rs_good T s' \<and> rs_log T s' = log_append sid (call_attempt c out d) (rs_log T s)"
    by (auto simp: redis_store_ops_def)
qed (auto simp: redis_store_ops_def rs_get_calls_def rs_get_tool_footprint_def rs_log_good
    rs_append_call_def attempt_tool_def fun_eq_iff)

subsection \<open>Expiry\<close>

text \<open>A session in use: each attempt comes a number of seconds after the previous one.\<close>

type_synonym timed_attempt = "int \<times> tool_call \<times> call_outcome \<times> json option"

fun rs_use :: "'r redis_store \<Rightarrow> string \<Rightarrow> timed_attempt list \<Rightarrow> 'r \<Rightarrow> 'r" where
  "rs_use T sid [] r = r"
| "rs_use T sid ((d, c, out, detail) # es) r =
     rs_use T sid es (snd (rs_append_attempt T sid c out detail (rl_elapse (rs_redis T) d r)))"

definition timed_call :: "timed_attempt \<Rightarrow> call_attempt" where
  "timed_call e = (case e of (_, c, out, detail) \<Rightarrow> call_attempt c out detail)"

definition gaps_ok :: "'r redis_store \<Rightarrow> timed_attempt list \<Rightarrow> bool" where
  "gaps_ok T es \<longleftrightarrow> list_all (\<lambda>(d, _, _, detail). 0 \<le> d \<and> d < rs_session_ttl_seconds T \<and> detail_ok detail) es"

lemma rs_append_ttl:
  assumes "redis_lists_lawful (rs_redis T)" "0 < rs_session_ttl_seconds T"
  shows "rl_ttl (rs_redis T) (session_key sid) (snd (rs_append_attempt T sid c out d r))
    = rs_session_ttl_seconds T"
  using assms by (simp add: rs_append_attempt_def Let_def redis_listsD)

lemma rs_use_log:
  assumes R: "redis_lists_lawful (rs_redis T)" "0 < rs_session_ttl_seconds T"
  shows "gaps_ok T es \<Longrightarrow> rs_get_attempts T sid r = Inr as \<Longrightarrow>
    as = [] \<or> rl_ttl (rs_redis T) (session_key sid) r = rs_session_ttl_seconds T \<Longrightarrow>
    rs_get_attempts T sid (rs_use T sid es r) = Inr (as @ map timed_call es)
    \<and> (es = [] \<or> rl_ttl (rs_redis T) (session_key sid) (rs_use T sid es r) = rs_session_ttl_seconds T)"
proof (induction es arbitrary: r as)
  case (Cons e es)
  obtain d c out detail where e: "e = (d, c, out, detail)" by (cases e)
  from Cons.prems(1) have d: "0 \<le> d" "d < rs_session_ttl_seconds T" "detail_ok detail"
    and rest: "gaps_ok T es" by (auto simp: gaps_ok_def e)
  let ?r = "rl_elapse (rs_redis T) d r"
  have "rs_get_attempts T sid ?r = Inr as"
  proof (cases "as = []")
    case True
    with Cons.prems(2) have "rl_lrange (rs_redis T) (session_key sid) r = []"
      by (cases "rl_lrange (rs_redis T) (session_key sid) r") (auto simp: rs_get_attempts_def res_bind_eq_Inr)
    with True d(1) show ?thesis by (simp add: rs_get_attempts_def redis_listsD(5) [OF R(1)])
  next
    case False
    with Cons.prems(2,3) d show ?thesis
      by (simp add: rs_get_attempts_def redis_listsD(5) [OF R(1)])
  qed
  then have "rs_get_attempts T sid (snd (rs_append_attempt T sid c out detail ?r))
      = Inr (as @ [call_attempt c out detail])"
    by (simp add: rs_append_read [OF R d(3)])
  from Cons.IH [OF rest this] rs_append_ttl [OF R, of sid c out detail ?r] show ?case
    by (auto simp: e timed_call_def)
qed simp

text \<open>
  C29: a session kept in Redis and used with gaps shorter than its time to live keeps all its
  attempts in order, over any number of attempts; an idle time of the time to live or more
  leaves none of them, a shorter one leaves all.
\<close>

theorem redis_sliding_expiry:
  assumes R: "redis_lists_lawful (rs_redis T)" "0 < rs_session_ttl_seconds T"
    and "gaps_ok T es" "rs_get_attempts T sid r = Inr []" "0 \<le> idle"
  shows "rs_get_attempts T sid (rl_elapse (rs_redis T) idle (rs_use T sid es r))
    = Inr (if idle < rs_session_ttl_seconds T then map timed_call es else [])"
proof -
  have log: "rs_get_attempts T sid (rs_use T sid es r) = Inr (map timed_call es)"
    and ttl: "es = [] \<or> rl_ttl (rs_redis T) (session_key sid) (rs_use T sid es r) = rs_session_ttl_seconds T"
    using rs_use_log [OF R assms(3,4)] by auto
  have "rl_lrange (rs_redis T) (session_key sid) r = []" if "es = []"
    using assms(4)
    by (cases "rl_lrange (rs_redis T) (session_key sid) r") (auto simp: rs_get_attempts_def res_bind_eq_Inr)
  with log ttl R(2) show ?thesis
    by (auto simp: rs_get_attempts_def redis_listsD(5) [OF R(1) assms(5)])
qed

text \<open>A server as a map from keys to a list and its remaining seconds, if it has an expiry.\<close>

type_synonym redis_list_map = "string \<Rightarrow> (json list \<times> int option) option"

definition redis_list_map :: "redis_list_map redis_lists" where
  "redis_list_map = \<lparr>
     rl_rpush = (\<lambda>k v r. r(k \<mapsto> (case r k of None \<Rightarrow> ([v], None) | Some (vs, t) \<Rightarrow> (vs @ [v], t)))),
     rl_lrange = (\<lambda>k r. case r k of None \<Rightarrow> [] | Some (vs, _) \<Rightarrow> vs),
     rl_expire = (\<lambda>k t r. case r k of None \<Rightarrow> r | Some (vs, _) \<Rightarrow> r(k \<mapsto> (vs, Some t))),
     rl_ttl = (\<lambda>k r. case r k of None \<Rightarrow> - 2 | Some (_, None) \<Rightarrow> - 1 | Some (_, Some t) \<Rightarrow> max (- 1) t),
     rl_elapse = (\<lambda>d r k. case r k of Some (vs, Some t) \<Rightarrow> if 0 \<le> t \<and> t \<le> d then None else Some (vs, Some (t - d))
        | x \<Rightarrow> x)\<rparr>"

lemma redis_list_map_lawful: "redis_lists_lawful redis_list_map"
  by (auto simp: redis_lists_lawful_def redis_list_map_def split: option.splits if_splits)

definition redis_store_demo :: "redis_list_map redis_store" where
  "redis_store_demo = \<lparr>rs_redis = redis_list_map, rs_session_ttl_seconds = DEFAULT_SESSION_TTL_SECONDS\<rparr>"

theorem redis_sliding_expiry_witness:
  "let es = [(5, \<lparr>tc_tool_name = ''read_inbox'', tc_params = [(''count'', ''3'')], tc_turn_index = 0\<rparr>, ALLOWED, None)]
   in rs_get_attempts redis_store_demo ''s'' (rl_elapse redis_list_map 86400
        (rs_use redis_store_demo ''s'' es Map.empty)) = Inr []"
  using redis_sliding_expiry [of redis_store_demo
      "[(5, \<lparr>tc_tool_name = ''read_inbox'', tc_params = [(''count'', ''3'')], tc_turn_index = 0\<rparr>, ALLOWED, None)]"
      "''s''" Map.empty 86400] redis_list_map_lawful
  by (simp add: redis_store_demo_def gaps_ok_def detail_ok_def DEFAULT_SESSION_TTL_SECONDS_def
      rs_get_attempts_def redis_list_map_def)

text \<open>
  C28: both stores answer as the log of attempts: after an append, reading the session returns what
  it held followed by the new attempt, every other session is unchanged, and the footprint is the
  set of tools of the log. The Redis store does so on every server that implements the list
  commands, across the round trip of each attempt through JSON.
\<close>

theorem stores_append_read:
  assumes "redis_lists_lawful (rs_redis T)" "0 < rs_session_ttl_seconds T" "rs_good T r" "detail_ok d"
  shows "rs_get_attempts T sid' (snd (rs_append_attempt T sid c out d r)) =
      Inr (if sid' = sid then rs_log T r sid @ [call_attempt c out d] else rs_log T r sid')
    \<and> rs_get_tool_footprint T sid (snd (rs_append_attempt T sid c out d r)) =
      Inr (insert (tc_tool_name c) (attempt_tool ` set (rs_log T r sid)))
    \<and> mem_get_attempts sid' (snd (mem_append_attempt sid c out d m)) =
      Inr (if sid' = sid then mem_log m sid @ [call_attempt c out d] else mem_log m sid')"
  using rs_append_read [OF assms(1,2,4)] rs_log_good [OF assms(3)] mem_log_append [of sid c out d m]
  by (simp add: rs_get_tool_footprint_def attempt_tool_def mem_get_attempts_def mem_log_def fun_eq_iff)

definition demo_call :: tool_call where
  "demo_call = \<lparr>tc_tool_name = ''read_inbox'', tc_params = [(''count'', ''3'')], tc_turn_index = 0\<rparr>"

theorem stores_append_read_witness:
  "rs_get_attempts redis_store_demo ''s'' (snd (rs_append_attempt redis_store_demo ''s'' demo_call ALLOWED None Map.empty))
     = Inr [call_attempt demo_call ALLOWED None]"
  using stores_append_read [of redis_store_demo Map.empty None "''s''" "''s''" demo_call ALLOWED "[]"]
    redis_list_map_lawful
  by (simp add: redis_store_demo_def rs_good_def rs_log_def rs_get_attempts_def detail_ok_def
      DEFAULT_SESSION_TTL_SECONDS_def redis_list_map_def)

end
