(* ===== verification/Detectors.thy ===== *)
theory Detectors
  imports Attribution SessionStore
begin

section \<open>The explicit detectors\<close>

text \<open>
  Models \<open>detectors/schema.py\<close>, \<open>param_divergence.py\<close>, \<open>permission_escalation.py\<close>,
  \<open>loop_rate.py\<close> and \<open>exfiltration.py\<close>. The session-level detectors read a store through the
  protocol of \<^verbatim>\<open>SessionStore\<close>; their lemmas are proved in that interface, over the log of
  attempts. Shown: what each detector flags, exactly; and that no call of a generated normal
  session is flagged by schema, escalation, loop rate or exfiltration.
\<close>

subsection \<open>Schema conformance\<close>

record tool_schema =
  sc_tool_name :: string
  sc_required_params :: "string set"
  sc_optional_params :: "string set"

definition allowed_params :: "tool_schema \<Rightarrow> string set" where
  "allowed_params s = sc_required_params s \<union> sc_optional_params s"

record schema_violation =
  sv_tool_name :: string
  sv_missing_params :: "string set"
  sv_unexpected_params :: "string set"

definition is_violation :: "schema_violation \<Rightarrow> bool" where
  "is_violation v \<longleftrightarrow> sv_missing_params v \<noteq> {} \<or> sv_unexpected_params v \<noteq> {}"

type_synonym schema_registry = "(string, tool_schema) dict"

definition schema_register :: "tool_schema \<Rightarrow> schema_registry \<Rightarrow> schema_registry" where
  "schema_register schema reg = dict_set reg (sc_tool_name schema) schema"

definition schema_get :: "string \<Rightarrow> schema_registry \<Rightarrow> tool_schema result" where
  "schema_get tool_name reg =
     (case dict_get reg tool_name of
        Some s \<Rightarrow> Inr s | None \<Rightarrow> Inl (UnregisteredSchemaError tool_name))"

definition check_schema :: "schema_registry \<Rightarrow> string \<Rightarrow> params \<Rightarrow> schema_violation result" where
  "check_schema reg tool_name ps =
     res_bind (schema_get tool_name reg) (\<lambda>schema.
       let provided = dict_keys ps
       in Inr \<lparr>sv_tool_name = tool_name, sv_missing_params = sc_required_params schema - provided,
               sv_unexpected_params = provided - allowed_params schema\<rparr>)"

definition required_schema :: "string \<Rightarrow> string set \<Rightarrow> tool_schema" where
  "required_schema tool_name required =
     \<lparr>sc_tool_name = tool_name, sc_required_params = required, sc_optional_params = {}\<rparr>"

definition build_default_schema_registry :: schema_registry where
  "build_default_schema_registry =
     fold schema_register
      [required_schema ''read_inbox'' {''count''},
       required_schema ''reply_to_email'' {''email_id'', ''body''},
       required_schema ''search_flights'' {''origin'', ''destination''},
       required_schema ''book_flight'' {''flight_id''},
       required_schema ''get_calendar'' {''date''},
       required_schema ''add_calendar_event'' {''title''},
       required_schema ''list_files'' {''query''},
       required_schema ''share_file'' {''file_id'', ''recipient''},
       required_schema ''search_contacts'' {''name''},
       required_schema ''update_contact'' {''contact_id'', ''field''}] []"

lemma check_schema_conforms_iff:
  assumes "schema_get tool_name reg = Inr s"
  shows "(\<exists>v. check_schema reg tool_name ps = Inr v \<and> \<not> is_violation v) \<longleftrightarrow>
    sc_required_params s \<subseteq> dict_keys ps \<and> dict_keys ps \<subseteq> allowed_params s"
  using assms by (auto simp: check_schema_def is_violation_def Let_def)

subsection \<open>Param-versus-task divergence\<close>

definition FAKE_DIVERGENCE_THRESHOLD :: pyfloat where
  "FAKE_DIVERGENCE_THRESHOLD = 1581 / 10000"

definition MINILM_DIVERGENCE_THRESHOLD :: pyfloat where
  "MINILM_DIVERGENCE_THRESHOLD = 3307 / 10000"

record param_divergence_result =
  pd_tool_name :: string
  pd_similarity :: pyfloat
  pd_is_divergent :: bool

definition check_param_divergence ::
    "task_representation \<Rightarrow> string \<Rightarrow> params \<Rightarrow> pyfloat \<Rightarrow> param_divergence_result result" where
  "check_param_divergence tp tool_name ps threshold =
     res_bind (tp_embedder tp (call_topic_text tool_name ps)) (\<lambda>call_vector.
       let similarity = cosine_similarity call_vector (tp_current_vector tp)
       in Inr \<lparr>pd_tool_name = tool_name, pd_similarity = similarity,
               pd_is_divergent = similarity < threshold\<rparr>)"

subsection \<open>Permission escalation\<close>

definition baseline_footprint :: "task_type \<Rightarrow> string set" where
  "baseline_footprint task_type =
     set (map sg_tool_name (tt_groups (templates task_type :: unit task_template)))"

record permission_escalation_result =
  pe_task_type :: task_type
  pe_session_footprint :: "string set"
  pe_baseline_footprint :: "string set"
  pe_escalated_tools :: "string set"

definition is_escalated :: "permission_escalation_result \<Rightarrow> bool" where
  "is_escalated r \<longleftrightarrow> pe_escalated_tools r \<noteq> {}"

definition check_permission_escalation :: "task_type \<Rightarrow> string set \<Rightarrow> permission_escalation_result" where
  "check_permission_escalation task_type session_footprint =
     (let baseline = baseline_footprint task_type
      in \<lparr>pe_task_type = task_type, pe_session_footprint = session_footprint,
          pe_baseline_footprint = baseline, pe_escalated_tools = session_footprint - baseline\<rparr>)"

lemma is_escalated_iff: "is_escalated (check_permission_escalation tt F) \<longleftrightarrow> \<not> F \<subseteq> baseline_footprint tt"
  by (auto simp: is_escalated_def check_permission_escalation_def Let_def)

subsection \<open>Loop rate\<close>

definition DEFAULT_RATE_THRESHOLD :: nat where
  "DEFAULT_RATE_THRESHOLD = 7"

record loop_rate_result =
  lr_tool_name :: string
  lr_same_tool_attempt_count :: nat
  lr_is_rate_exceeded :: bool
  lr_is_evasion_retry :: bool
  lr_is_benign_retry :: bool

definition lr_is_flagged :: "loop_rate_result \<Rightarrow> bool" where
  "lr_is_flagged r \<longleftrightarrow> lr_is_rate_exceeded r \<or> lr_is_evasion_retry r"

definition same_tool :: "string \<Rightarrow> call_attempt list \<Rightarrow> call_attempt list" where
  "same_tool tool_name as = filter (\<lambda>a. tc_tool_name (ca_call a) = tool_name) as"

definition loop_rate_of ::
    "call_attempt list \<Rightarrow> string \<Rightarrow> params \<Rightarrow> nat \<Rightarrow> loop_rate_result" where
  "loop_rate_of prior_same_tool tool_name ps rate_threshold =
     (let n = length prior_same_tool + 1;
          (is_evasion_retry, is_benign_retry) =
            (if prior_same_tool = [] then (False, False)
             else let l = last prior_same_tool;
                      params_changed = (\<not> dict_eq (tc_params (ca_call l)) ps)
                  in if ca_outcome l = BLOCKED \<and> params_changed then (True, False)
                     else if ca_outcome l = TOOL_ERROR \<and> params_changed then (False, True)
                     else (False, False))
      in \<lparr>lr_tool_name = tool_name, lr_same_tool_attempt_count = n,
          lr_is_rate_exceeded = (n \<ge> rate_threshold), lr_is_evasion_retry = is_evasion_retry,
          lr_is_benign_retry = is_benign_retry\<rparr>)"

definition check_tool_loop_rate ::
    "'s store_ops \<Rightarrow> 's \<Rightarrow> string \<Rightarrow> string \<Rightarrow> params \<Rightarrow> nat \<Rightarrow> loop_rate_result result" where
  "check_tool_loop_rate S s session_id tool_name ps rate_threshold =
     res_bind (so_get_attempts S session_id s) (\<lambda>as.
       Inr (loop_rate_of (same_tool tool_name as) tool_name ps rate_threshold))"

subsection \<open>Exfiltration\<close>

definition OUTBOUND_TOOLS :: "string set" where
  "OUTBOUND_TOOLS = {''reply_to_email'', ''set_forwarding_rule'', ''send_payment''}"

definition DEFAULT_OUTBOUND_FREQUENCY_THRESHOLD :: nat where
  "DEFAULT_OUTBOUND_FREQUENCY_THRESHOLD = 7"

definition DEFAULT_CONTENT_SIZE_THRESHOLD :: nat where
  "DEFAULT_CONTENT_SIZE_THRESHOLD = 150"

record exfiltration_result =
  ex_tool_name :: string
  ex_outbound_call_count :: nat
  ex_is_frequency_exceeded :: bool
  ex_is_content_anomalous :: bool
  ex_anomalous_params :: "string set"

definition ex_is_flagged :: "exfiltration_result \<Rightarrow> bool" where
  "ex_is_flagged r \<longleftrightarrow> ex_is_frequency_exceeded r \<or> ex_is_content_anomalous r"

definition outbound_attempts :: "call_attempt list \<Rightarrow> call_attempt list" where
  "outbound_attempts as = filter (\<lambda>a. tc_tool_name (ca_call a) \<in> OUTBOUND_TOOLS) as"

definition check_exfiltration ::
    "'s store_ops \<Rightarrow> 's \<Rightarrow> string \<Rightarrow> string \<Rightarrow> params \<Rightarrow> nat \<Rightarrow> nat \<Rightarrow> exfiltration_result result" where
  "check_exfiltration S s session_id tool_name ps frequency_threshold content_size_threshold =
     (if tool_name \<notin> OUTBOUND_TOOLS then
        Inr \<lparr>ex_tool_name = tool_name, ex_outbound_call_count = 0, ex_is_frequency_exceeded = False,
             ex_is_content_anomalous = False, ex_anomalous_params = {}\<rparr>
      else
        res_bind (so_get_attempts S session_id s) (\<lambda>as.
          let n = length (outbound_attempts as) + 1;
              anomalous = fst ` {(k, v) \<in> set ps. length v > content_size_threshold}
          in Inr \<lparr>ex_tool_name = tool_name, ex_outbound_call_count = n,
                  ex_is_frequency_exceeded = (n \<ge> frequency_threshold),
                  ex_is_content_anomalous = (anomalous \<noteq> {}), ex_anomalous_params = anomalous\<rparr>))"

subsection \<open>What the session-level detectors flag\<close>

text \<open>The last attempt with the tool, if there is one.\<close>

definition last_attempt_was :: "string \<Rightarrow> call_attempt list \<Rightarrow> (call_attempt \<Rightarrow> bool) \<Rightarrow> bool" where
  "last_attempt_was tool_name as P \<longleftrightarrow>
     (\<exists>pre a post. as = pre @ a # post \<and> attempt_tool a = tool_name
        \<and> (\<forall>b \<in> set post. attempt_tool b \<noteq> tool_name) \<and> P a)"

lemma last_filter_split:
  "filter p as \<noteq> [] \<Longrightarrow> \<exists>pre post. as = pre @ last (filter p as) # post
     \<and> p (last (filter p as)) \<and> (\<forall>b \<in> set post. \<not> p b)"
proof (induction as rule: rev_induct)
  case (snoc a as)
  show ?case
  proof (cases "p a")
    case True
    then show ?thesis by (intro exI [of _ as] exI [of _ "[]"]) simp
  next
    case False
    with snoc obtain pre post where "as = pre @ last (filter p as) # post" "p (last (filter p as))"
      "\<forall>b \<in> set post. \<not> p b" by auto
    with False show ?thesis by (intro exI [of _ pre] exI [of _ "post @ [a]"]) auto
  qed
qed simp

lemma last_attempt_was_iff:
  "last_attempt_was tool_name as P \<longleftrightarrow> same_tool tool_name as \<noteq> [] \<and> P (last (same_tool tool_name as))"
proof
  assume "last_attempt_was tool_name as P"
  then obtain pre a post where as: "as = pre @ a # post" "attempt_tool a = tool_name" "P a"
    "\<forall>b \<in> set post. attempt_tool b \<noteq> tool_name" unfolding last_attempt_was_def by blast
  then have "same_tool tool_name as = same_tool tool_name pre @ [a]"
    by (simp add: same_tool_def attempt_tool_def)
  with as show "same_tool tool_name as \<noteq> [] \<and> P (last (same_tool tool_name as))" by simp
next
  assume r: "same_tool tool_name as \<noteq> [] \<and> P (last (same_tool tool_name as))"
  then have ne: "filter (\<lambda>a. tc_tool_name (ca_call a) = tool_name) as \<noteq> []" by (simp add: same_tool_def)
  from last_filter_split [OF ne] r show "last_attempt_was tool_name as P"
    unfolding last_attempt_was_def same_tool_def attempt_tool_def by blast
qed

lemma loop_rate_flagged_iff:
  "lr_is_flagged (loop_rate_of (same_tool t as) t ps n) \<longleftrightarrow>
     n \<le> length (same_tool t as) + 1
     \<or> last_attempt_was t as (\<lambda>a. ca_outcome a = BLOCKED \<and> \<not> dict_eq (tc_params (ca_call a)) ps)"
  unfolding last_attempt_was_iff
  by (auto simp: lr_is_flagged_def loop_rate_of_def Let_def)

lemma loop_rate_benign_iff:
  "lr_is_benign_retry (loop_rate_of (same_tool t as) t ps n) \<longleftrightarrow>
     last_attempt_was t as (\<lambda>a. ca_outcome a = TOOL_ERROR \<and> \<not> dict_eq (tc_params (ca_call a)) ps)"
  unfolding last_attempt_was_iff by (auto simp: loop_rate_of_def Let_def)

context session_store
begin

lemma check_tool_loop_rate_log:
  "good s \<Longrightarrow> check_tool_loop_rate S s sid t ps n = Inr (loop_rate_of (same_tool t (log s sid)) t ps n)"
  by (simp add: check_tool_loop_rate_def attempts)

lemma check_exfiltration_flagged_iff:
  "good s \<Longrightarrow> \<exists>r. check_exfiltration S s sid t ps n m = Inr r \<and> (ex_is_flagged r \<longleftrightarrow>
     t \<in> OUTBOUND_TOOLS \<and> (n \<le> length (outbound_attempts (log s sid)) + 1 \<or> (\<exists>(k, v) \<in> set ps. m < length v)))"
  by (auto simp: check_exfiltration_def ex_is_flagged_def Let_def attempts)

end

text \<open>
  On every store that meets the contract the loop-rate detector answers; it flags a call
  exactly when the session has used the tool often enough or when the session's last attempt
  with the tool was blocked and had other parameters, whatever happened with other tools in
  between; it calls a retry benign exactly when that last attempt was a tool error, so a retry
  of a call that is held for approval or was allowed is neither.
\<close>

theorem loop_rate_flags:
  assumes "session_store S good lg" "good s"
  shows "\<exists>r. check_tool_loop_rate S s sid t ps n = Inr r
    \<and> (lr_is_flagged r \<longleftrightarrow> n \<le> length (filter (\<lambda>a. attempt_tool a = t) (lg s sid)) + 1
         \<or> last_attempt_was t (lg s sid) (\<lambda>a. ca_outcome a = BLOCKED \<and> \<not> dict_eq (tc_params (ca_call a)) ps))
    \<and> (lr_is_benign_retry r \<longleftrightarrow>
         last_attempt_was t (lg s sid) (\<lambda>a. ca_outcome a = TOOL_ERROR \<and> \<not> dict_eq (tc_params (ca_call a)) ps))"
  unfolding session_store.check_tool_loop_rate_log [OF assms]
  using loop_rate_flagged_iff [of t "lg s sid" ps n] loop_rate_benign_iff [of t "lg s sid" ps n]
  by (simp add: same_tool_def attempt_tool_def)

theorem loop_rate_flags_witness:
  "\<exists>r. check_tool_loop_rate memory_ops
      (snd (mem_append_attempt ''s'' demo_call BLOCKED None [])) ''s'' ''read_inbox'' [(''count'', ''4'')] 7 = Inr r
    \<and> lr_is_flagged r"
proof -
  let ?m = "snd (mem_append_attempt ''s'' demo_call BLOCKED None [])"
  have log: "mem_log ?m ''s'' = [call_attempt demo_call BLOCKED None]"
    by (simp add: mem_log_append) (simp add: mem_log_def dict_get_or_def)
  have "last_attempt_was ''read_inbox'' (mem_log ?m ''s'')
      (\<lambda>a. ca_outcome a = BLOCKED \<and> \<not> dict_eq (tc_params (ca_call a)) [(''count'', ''4'')])"
    unfolding last_attempt_was_iff log by (simp add: same_tool_def demo_call_def dict_eq_def)
  with loop_rate_flags [OF mem.session_store_axioms, of ?m "''s''" "''read_inbox''" "[(''count'', ''4'')]" 7]
  show ?thesis by auto
qed

subsection \<open>Normal sessions are not flagged\<close>

lemma nat_str_length: "n < 10 ^ Suc k \<Longrightarrow> length (nat_str n) \<le> Suc k"
proof (induction k arbitrary: n)
  case 0
  then show ?case by (subst nat_str.simps) simp
next
  case (Suc k)
  show ?case
  proof (cases "n < 10")
    case True
    then show ?thesis by (subst nat_str.simps) simp
  next
    case False
    from Suc.prems have "n div 10 < 10 ^ Suc k" by (simp add: div_less_iff_less_mult mult.commute)
    from Suc.IH [OF this] False show ?thesis by (subst nat_str.simps) simp
  qed
qed

lemma int_str_length: "0 \<le> i \<Longrightarrow> i < 10 ^ Suc k \<Longrightarrow> length (int_str i) \<le> Suc k"
  using nat_str_length [of "nat i" k] by (simp add: int_str_def nat_less_iff del: power_Suc)

definition reply_params_ok :: "tool_call \<Rightarrow> bool" where
  "reply_params_ok c \<longleftrightarrow> tc_tool_name c \<in> OUTBOUND_TOOLS \<longrightarrow> (\<forall>(k, v) \<in> set (tc_params c). length v \<le> 150)"

definition call_ok :: "task_type \<Rightarrow> tool_call \<Rightarrow> bool" where
  "call_ok tt c \<longleftrightarrow> tc_tool_name c \<in> baseline_footprint tt \<and> reply_params_ok c
     \<and> (\<exists>v. check_schema build_default_schema_registry (tc_tool_name c) (tc_params c) = Inr v \<and> \<not> is_violation v)"

lemma baseline_simps:
  "baseline_footprint INBOX_TRIAGE = {''read_inbox'', ''reply_to_email''}"
  "baseline_footprint FLIGHT_BOOKING = {''search_flights'', ''book_flight''}"
  "baseline_footprint CALENDAR_SCHEDULING = {''get_calendar'', ''add_calendar_event''}"
  "baseline_footprint FILE_SHARING = {''list_files'', ''share_file''}"
  "baseline_footprint CONTACT_UPDATE = {''search_contacts'', ''update_contact''}"
  by (simp_all add: baseline_footprint_def templates_def step_group_def)

lemma default_schemas:
  "map_of build_default_schema_registry ''read_inbox'' = Some (required_schema ''read_inbox'' {''count''})"
  "map_of build_default_schema_registry ''reply_to_email'' = Some (required_schema ''reply_to_email'' {''email_id'', ''body''})"
  "map_of build_default_schema_registry ''search_flights'' = Some (required_schema ''search_flights'' {''origin'', ''destination''})"
  "map_of build_default_schema_registry ''book_flight'' = Some (required_schema ''book_flight'' {''flight_id''})"
  "map_of build_default_schema_registry ''get_calendar'' = Some (required_schema ''get_calendar'' {''date''})"
  "map_of build_default_schema_registry ''add_calendar_event'' = Some (required_schema ''add_calendar_event'' {''title''})"
  "map_of build_default_schema_registry ''list_files'' = Some (required_schema ''list_files'' {''query''})"
  "map_of build_default_schema_registry ''share_file'' = Some (required_schema ''share_file'' {''file_id'', ''recipient''})"
  "map_of build_default_schema_registry ''search_contacts'' = Some (required_schema ''search_contacts'' {''name''})"
  "map_of build_default_schema_registry ''update_contact'' = Some (required_schema ''update_contact'' {''contact_id'', ''field''})"
  by (simp_all add: build_default_schema_registry_def schema_register_def required_schema_def)

text \<open>A call whose parameters are exactly those its schema requires.\<close>

lemma check_schema_exact:
  assumes "map_of reg t = Some (required_schema t req)" "dict_keys ps = req"
  shows "\<exists>v. check_schema reg t ps = Inr v \<and> \<not> is_violation v"
  using assms
  by (simp add: check_schema_def schema_get_def is_violation_def required_schema_def allowed_params_def Let_def)

lemma reply_params_short:
  assumes "rng_lawful R"
  shows "\<forall>(k, v) \<in> set (fst (inbox_triage_reply_params R g)). length v \<le> 150"
proof -
  obtain n g1 where n: "rng_randint R 1 999 g = (n, g1)" by fastforce
  obtain body g2 where b: "rng_choice R reply_bodies g1 = (body, g2)" by fastforce
  from rng_randint_range [OF assms _ n] have "length (int_str n) \<le> Suc 2"
    by (intro int_str_length) simp_all
  moreover have "body \<in> set reply_bodies"
    by (rule rng_choice_in [OF assms _ b]) (simp add: reply_bodies_def)
  then have "length body \<le> 150" by (auto simp: reply_bodies_def)
  ultimately show ?thesis by (simp add: inbox_triage_reply_params_def n b)
qed

lemma param_keys:
  "dict_keys (fst (inbox_triage_read_params R g)) = {''count''}"
  "dict_keys (fst (inbox_triage_reply_params R g)) = {''email_id'', ''body''}"
  "dict_keys (fst (flight_search_params R g)) = {''origin'', ''destination''}"
  "dict_keys (fst (flight_book_params R g)) = {''flight_id''}"
  "dict_keys (fst (calendar_get_params R g)) = {''date''}"
  "dict_keys (fst (calendar_add_params R g)) = {''title''}"
  "dict_keys (fst (file_list_params R g)) = {''query''}"
  "dict_keys (fst (file_share_params R g)) = {''file_id'', ''recipient''}"
  "dict_keys (fst (contact_search_params R g)) = {''name''}"
  "dict_keys (fst (contact_update_params R g)) = {''contact_id'', ''field''}"
  by (simp_all add: dict_keys_def inbox_triage_read_params_def inbox_triage_reply_params_def
      flight_search_params_def flight_book_params_def calendar_get_params_def calendar_add_params_def
      file_list_params_def file_share_params_def contact_search_params_def contact_update_params_def
      split: prod.split)

lemma group_schema:
  assumes "grp \<in> set (template_groups tt)"
  shows "\<exists>req. map_of build_default_schema_registry (sg_tool_name grp) = Some (required_schema (sg_tool_name grp) req)
    \<and> (\<forall>R g. dict_keys (fst (sg_param_fn grp R g)) = req)"
  using assms by (cases tt) (auto simp: step_group_def default_schemas param_keys)

lemma from_group_ok:
  assumes "rng_lawful R" "grp \<in> set (template_groups tt)" "from_group R grp c"
  shows "call_ok tt c"
proof -
  have "\<exists>v. check_schema build_default_schema_registry (tc_tool_name c) (tc_params c) = Inr v \<and> \<not> is_violation v"
    using group_schema [OF assms(2)] assms(3) unfolding from_group_def by (metis check_schema_exact)
  moreover have "tc_tool_name c \<in> baseline_footprint tt"
    using assms(2,3) by (cases tt) (auto simp: from_group_step_group baseline_simps)
  moreover have "reply_params_ok c"
    using assms(2,3) reply_params_short [OF assms(1)]
    by (cases tt) (fastforce simp: from_group_step_group reply_params_ok_def OUTBOUND_TOOLS_def)+
  ultimately show ?thesis by (simp add: call_ok_def)
qed

lemma session_calls_ok:
  assumes "rng_lawful R" "generate_session R tt g = (s, g')" "c \<in> set (ss_calls s)"
  shows "call_ok tt c"
proof -
  obtain runs where runs: "ss_calls s = concat runs" "list_all2 (run_of R) (template_groups tt) runs"
    by (rule generate_session_shape [OF assms(1,2)])
  from assms(3) runs(1) obtain cs where cs: "cs \<in> set runs" "c \<in> set cs" by auto
  with runs(2) obtain grp where "grp \<in> set (template_groups tt)" "run_of R grp cs"
    by (metis in_set_conv_nth list_all2_conv_all_nth)
  with cs(2) show ?thesis
    using from_group_ok [OF assms(1)] by (auto simp: run_of_def list_all_iff)
qed

lemma run_filter:
  "run_of R grp cs \<Longrightarrow> filter (\<lambda>c. Q (tc_tool_name c)) cs = (if Q (sg_tool_name grp) then cs else [])"
  by (auto simp: run_of_def list_all_iff from_group_def filter_empty_conv intro: filter_True)

text \<open>A tool is used at most six times, and so are the outbound tools together.\<close>

lemma session_tool_counts:
  fixes R :: "'r rng"
  assumes "rng_lawful R" "generate_session R tt g = (s, g')"
  shows "length (filter (\<lambda>c. tc_tool_name c = t) (ss_calls s)) \<le> 6"
    and "length (filter (\<lambda>c. tc_tool_name c \<in> OUTBOUND_TOOLS) (ss_calls s)) \<le> 6"
proof -
  have "length (filter (\<lambda>c. Q (tc_tool_name c)) (ss_calls s)) \<le> 6"
    if Q: "\<And>a b :: 'r step_group. template_groups tt = [a, b] \<Longrightarrow> \<not> (Q (sg_tool_name a) \<and> Q (sg_tool_name b))" for Q
  proof -
    obtain a b :: "'r step_group" where ab: "template_groups tt = [a, b]" by (cases tt) auto
    obtain as bs where s: "ss_calls s = as @ bs" and r: "run_of R a as" "run_of R b bs"
      by (rule generate_session_runs [OF assms ab])
    have "sg_max_repeat a \<le> 6" "sg_max_repeat b \<le> 6"
      using ab by (cases tt; auto simp: step_group_def)+
    with r have "length as \<le> 6" "length bs \<le> 6" by (auto simp: run_of_def)
    with Q [OF ab] show ?thesis by (simp add: s run_filter [OF r(1)] run_filter [OF r(2)])
  qed
  from this [of "\<lambda>n. n = t"] this [of "\<lambda>n. n \<in> OUTBOUND_TOOLS"]
  show "length (filter (\<lambda>c. tc_tool_name c = t) (ss_calls s)) \<le> 6"
    and "length (filter (\<lambda>c. tc_tool_name c \<in> OUTBOUND_TOOLS) (ss_calls s)) \<le> 6"
    by (cases tt; auto simp: step_group_def OUTBOUND_TOOLS_def)+
qed

lemma normal_call_unflagged:
  assumes "rng_lawful R" "generate_session R tt g = (s, g')" "ss_calls s = pre @ c # post"
    and "session_store S good lg" "good st"
    and "map ca_call (lg st sid) = pre" "list_all (\<lambda>a. ca_outcome a = ALLOWED) (lg st sid)"
  shows "(\<exists>v. check_schema build_default_schema_registry (tc_tool_name c) (tc_params c) = Inr v \<and> \<not> is_violation v)
    \<and> (\<exists>F. so_get_tool_footprint S sid st = Inr F
         \<and> \<not> is_escalated (check_permission_escalation tt (F \<union> {tc_tool_name c})))
    \<and> (\<exists>r. check_tool_loop_rate S st sid (tc_tool_name c) (tc_params c) DEFAULT_RATE_THRESHOLD = Inr r
         \<and> \<not> lr_is_flagged r)
    \<and> (\<exists>r. check_exfiltration S st sid (tc_tool_name c) (tc_params c)
           DEFAULT_OUTBOUND_FREQUENCY_THRESHOLD DEFAULT_CONTENT_SIZE_THRESHOLD = Inr r \<and> \<not> ex_is_flagged r)"
proof -
  let ?l = "lg st sid"
  have ok: "call_ok tt d" if "d \<in> set pre \<union> {c}" for d
    using session_calls_ok [OF assms(1,2), of d] assms(3) that by auto
  have calls: "length (filter (\<lambda>a. P (ca_call a)) ?l) = length (filter P pre)" for P
    unfolding assms(6) [symmetric] by (simp add: filter_map comp_def)
  have few: "length (filter (\<lambda>a. Q (tc_tool_name (ca_call a))) ?l) < 6"
    if "Q (tc_tool_name c)" "length (filter (\<lambda>d. Q (tc_tool_name d)) (ss_calls s)) \<le> 6" for Q
    using that calls [of "\<lambda>d. Q (tc_tool_name d)"] by (simp add: assms(3))
  have "so_get_tool_footprint S sid st = Inr (attempt_tool ` set ?l)"
    by (rule session_store.footprint [OF assms(4,5)])
  moreover have "attempt_tool ` set ?l = tc_tool_name ` set pre"
    unfolding assms(6) [symmetric] by (simp add: attempt_tool_def image_image)
  then have "\<not> is_escalated (check_permission_escalation tt (attempt_tool ` set ?l \<union> {tc_tool_name c}))"
    using ok by (auto simp: is_escalated_iff call_ok_def)
  moreover have "\<not> lr_is_flagged (loop_rate_of (same_tool (tc_tool_name c) ?l) (tc_tool_name c) (tc_params c) 7)"
    using few [of "\<lambda>n. n = tc_tool_name c"] session_tool_counts(1) [OF assms(1,2)] assms(7)
    unfolding loop_rate_flagged_iff by (auto simp: last_attempt_was_def same_tool_def list_all_iff)
  moreover have quiet: "\<not> (tc_tool_name c \<in> OUTBOUND_TOOLS \<and>
      (7 \<le> length (outbound_attempts ?l) + 1 \<or> (\<exists>(k, v) \<in> set (tc_params c). 150 < length v)))"
    using few [of "\<lambda>n. n \<in> OUTBOUND_TOOLS"] session_tool_counts(2) [OF assms(1,2)] ok [of c]
    by (fastforce simp: outbound_attempts_def call_ok_def reply_params_ok_def)
  moreover from session_store.check_exfiltration_flagged_iff [OF assms(4,5), of sid "tc_tool_name c" "tc_params c" 7 150] quiet
  have "\<exists>r. check_exfiltration S st sid (tc_tool_name c) (tc_params c) 7 150 = Inr r \<and> \<not> ex_is_flagged r"
    by blast
  ultimately show ?thesis
    using ok [of c] session_store.check_tool_loop_rate_log [OF assms(4,5)]
    by (auto simp: call_ok_def DEFAULT_RATE_THRESHOLD_def DEFAULT_OUTBOUND_FREQUENCY_THRESHOLD_def
        DEFAULT_CONTENT_SIZE_THRESHOLD_def)
qed

text \<open>
  At no point of a generated session, with any generator in range, is the next call flagged
  by schema conformance, permission escalation, loop rate or exfiltration at their default
  thresholds, when the calls before it were allowed.
\<close>

theorem normal_session_unflagged:
  assumes "rng_lawful R" "generate_session R tt g = (s, g')" "ss_calls s = pre @ c # post"
    and "session_store S good lg" "good st"
    and "map ca_call (lg st sid) = pre" "list_all (\<lambda>a. ca_outcome a = ALLOWED) (lg st sid)"
  shows "(\<exists>v. check_schema build_default_schema_registry (tc_tool_name c) (tc_params c) = Inr v \<and> \<not> is_violation v)
    \<and> (\<exists>F. so_get_tool_footprint S sid st = Inr F
         \<and> \<not> is_escalated (check_permission_escalation tt (F \<union> {tc_tool_name c})))
    \<and> (\<exists>r. check_tool_loop_rate S st sid (tc_tool_name c) (tc_params c) DEFAULT_RATE_THRESHOLD = Inr r
         \<and> \<not> lr_is_flagged r)
    \<and> (\<exists>r. check_exfiltration S st sid (tc_tool_name c) (tc_params c)
           DEFAULT_OUTBOUND_FREQUENCY_THRESHOLD DEFAULT_CONTENT_SIZE_THRESHOLD = Inr r \<and> \<not> ex_is_flagged r)"
  by (rule normal_call_unflagged [OF assms])

theorem normal_session_unflagged_witness:
  "let s = fst (generate_session rng_counter INBOX_TRIAGE 1); c = hd (ss_calls s) in
   \<exists>v. check_schema build_default_schema_registry (tc_tool_name c) (tc_params c) = Inr v \<and> \<not> is_violation v"
proof -
  let ?s = "fst (generate_session rng_counter INBOX_TRIAGE 1)"
  have "ss_calls ?s \<noteq> []" using session_length(1) [OF rng_counter_lawful surjective_pairing, of INBOX_TRIAGE 1] by auto
  then have "ss_calls ?s = [] @ hd (ss_calls ?s) # tl (ss_calls ?s)" by simp
  from normal_session_unflagged [OF rng_counter_lawful surjective_pairing this mem.session_store_axioms,
      of "[]" "''s''"]
  show ?thesis by (simp add: Let_def mem_log_def dict_get_or_def)
qed

end
