(* ===== verification/Redaction.thy ===== *)
theory Redaction
  imports RegexClean
begin

section \<open>Redaction of sensitive text\<close>

text \<open>
  Models \<open>redaction/redactor.py\<close>: the four patterns of \<open>_REDACTION_PATTERNS\<close> with their marks,
  \<open>redact_text\<close> that substitutes them one after the other, and \<open>redact_params\<close>. Shown: after
  redaction none of the four patterns matches anywhere in the text, so no address, number or
  credential survives and no later pass restores one; redacting twice is redacting once.
\<close>

subsection \<open>The patterns\<close>

definition cls_digit :: regex where
  "cls_digit = Cls is_digit"

definition cls_local :: regex where
  "cls_local = Cls (\<lambda>c. is_word c \<or> c = CHR ''.'' \<or> c = CHR ''+'' \<or> c = CHR ''-'')"

definition cls_host :: regex where
  "cls_host = Cls (\<lambda>c. is_word c \<or> c = CHR ''-'')"

definition cls_word_dot_dash :: regex where
  "cls_word_dot_dash = Cls (\<lambda>c. is_word c \<or> c = CHR ''.'' \<or> c = CHR ''-'')"

definition cls_space_dash :: regex where
  "cls_space_dash = Cls (\<lambda>c. is_space c \<or> c = CHR ''-'')"

text \<open>\<^verbatim>\<open>[\w.+-]+@[\w-]+\.[\w.-]+\<close>\<close>

definition email_pattern :: regex where
  "email_pattern = cats [Plus cls_local, Ch CHR ''@'', Plus cls_host, Ch CHR ''.'', Plus cls_word_dot_dash]"

text \<open>\<^verbatim>\<open>\b\d{3}-\d{2}-\d{4}\b\<close>\<close>

definition ssn_core :: "regex list" where
  "ssn_core = [Times 3 cls_digit, Ch CHR ''-'', Times 2 cls_digit, Ch CHR ''-'', Times 4 cls_digit]"

definition ssn_pattern :: regex where
  "ssn_pattern = cats (Bnd # ssn_core @ [Bnd])"

text \<open>\<^verbatim>\<open>\b\d{4}[\s-]?\d{4}[\s-]?\d{4}[\s-]?\d{4}\b\<close>\<close>

definition card_core :: "regex list" where
  "card_core = [Times 4 cls_digit, Opt cls_space_dash, Times 4 cls_digit, Opt cls_space_dash,
     Times 4 cls_digit, Opt cls_space_dash, Times 4 cls_digit]"

definition card_pattern :: regex where
  "card_pattern = cats (Bnd # card_core @ [Bnd])"

text \<open>\<^verbatim>\<open>\b(?:password|api[_\s-]?key|secret|credential|token)s?\s*[:=]?\s*\S+\<close>, ignoring case\<close>

definition cls_key_sep :: regex where
  "cls_key_sep = Cls (\<lambda>c. c = CHR ''_'' \<or> is_space c \<or> c = CHR ''-'')"

definition credential_word :: regex where
  "credential_word = alts [LitI ''password'', cats [LitI ''api'', Opt cls_key_sep, LitI ''key''],
     LitI ''secret'', LitI ''credential'', LitI ''token'']"

definition credential_tail :: regex where
  "credential_tail = cats [Opt (ChI CHR ''s''), Star (Cls is_space),
     Opt (Cls (\<lambda>c. c = CHR '':'' \<or> c = CHR ''='')), Star (Cls is_space), Plus (Cls (\<lambda>c. \<not> is_space c))]"

definition credential_pattern :: regex where
  "credential_pattern = cats [Bnd, credential_word, credential_tail]"

definition redaction_patterns :: "(regex \<times> string) list" where
  "redaction_patterns =
     [(email_pattern, ''[REDACTED_EMAIL]''),
      (ssn_pattern, ''[REDACTED_SSN]''),
      (card_pattern, ''[REDACTED_CARD]''),
      (credential_pattern, ''[REDACTED_CREDENTIAL]'')]"

subsection \<open>The operations\<close>

definition redact_text :: "string \<Rightarrow> string" where
  "redact_text text = fold (\<lambda>(pattern, replacement) result. re_sub pattern replacement result)
     redaction_patterns text"

definition redact_params :: "(string, string) dict \<Rightarrow> (string, string) dict" where
  "redact_params params = map (\<lambda>(k, v). (k, redact_text v)) params"

lemmas cls_defs = cls_digit_def cls_local_def cls_host_def cls_word_dot_dash_def cls_space_dash_def
  cls_key_sep_def

lemma redact_text_unfold:
  "redact_text text =
     re_sub credential_pattern ''[REDACTED_CREDENTIAL]''
       (re_sub card_pattern ''[REDACTED_CARD]''
         (re_sub ssn_pattern ''[REDACTED_SSN]''
           (re_sub email_pattern ''[REDACTED_EMAIL]'' text)))"
  by (simp add: redact_text_def redaction_patterns_def)

subsection \<open>What the patterns denote\<close>

lemma Times_numerals:
  "Times 2 r = Cat r r" "Times 3 r = Cat r (Cat r r)" "Times 4 r = Cat r (Cat r (Cat r r))"
  by (simp_all add: eval_nat_numeral)

lemma digit_word: "is_digit c \<Longrightarrow> is_word c"
  by (simp add: is_digit_def is_word_def Let_def)

lemma digit_no_bracket: "is_digit c \<Longrightarrow> c \<noteq> CHR ''['' \<and> c \<noteq> CHR '']''"
  by (auto simp: is_digit_def code_point_def)

lemma space_not_word: "is_space c \<Longrightarrow> \<not> is_word c"
  by (auto simp: is_space_def is_word_def Let_def)

lemma space_no_bracket: "is_space c \<Longrightarrow> c \<noteq> CHR ''['' \<and> c \<noteq> CHR '']''"
  by (auto simp: is_space_def code_point_def)

lemma word_no_bracket: "is_word c \<Longrightarrow> c \<noteq> CHR ''['' \<and> c \<noteq> CHR '']''"
  using brackets_no_word by blast

definition not_bracket :: "char \<Rightarrow> bool" where
  "not_bracket c \<longleftrightarrow> c \<noteq> CHR ''['' \<and> c \<noteq> CHR '']''"

lemma lang_no_bracket: "lang r w \<Longrightarrow> all_cls not_bracket r \<Longrightarrow> no_bracket w"
  using lang_all_cls [of r w not_bracket] by (auto simp: no_bracket_def not_bracket_def)

lemma ssn_core_shape:
  "bnd_free (cats ssn_core)" "first_cls is_digit (cats ssn_core)" "first_cls is_word (cats ssn_core)"
  "last_cls is_word (cats ssn_core)" "all_cls not_bracket (cats ssn_core)" "ssn_core \<noteq> []"
  by (auto simp: ssn_core_def cls_defs Ch_def Times_numerals not_bracket_def digit_word
      dest: digit_no_bracket)

lemma card_core_shape:
  "bnd_free (cats card_core)" "first_cls is_digit (cats card_core)" "first_cls is_word (cats card_core)"
  "last_cls is_word (cats card_core)" "all_cls not_bracket (cats card_core)" "card_core \<noteq> []"
  by (auto simp: card_core_def cls_defs Ch_def Times_numerals not_bracket_def digit_word
      dest: digit_no_bracket space_no_bracket)

lemma email_shape: "bnd_free email_pattern" "all_cls not_bracket email_pattern"
  by (auto simp: email_pattern_def cls_defs Ch_def Plus_def not_bracket_def dest: word_no_bracket)

definition email_denot :: denot where
  "email_denot = \<lparr>dn_lb = False, dn_rb = False, dn_words = lang email_pattern\<rparr>"

definition ssn_denot :: denot where
  "ssn_denot = \<lparr>dn_lb = True, dn_rb = True, dn_words = lang (cats ssn_core)\<rparr>"

definition card_denot :: denot where
  "card_denot = \<lparr>dn_lb = True, dn_rb = True, dn_words = lang (cats card_core)\<rparr>"

lemma email_denotes: "denotes email_pattern email_denot"
  unfolding email_denot_def by (rule denotes_bnd_free [OF email_shape(1)])

lemma ssn_denotes: "denotes ssn_pattern ssn_denot"
  unfolding ssn_denot_def ssn_pattern_def
  by (rule denotes_bounded) (simp_all add: ssn_core_shape)

lemma card_denotes: "denotes card_pattern card_denot"
  unfolding card_denot_def card_pattern_def
  by (rule denotes_bounded) (simp_all add: card_core_shape)

subsection \<open>The marks contain no word of a pattern\<close>

definition plain_mark :: "string \<Rightarrow> bool" where
  "plain_mark rep \<longleftrightarrow> (\<forall>c \<in> set rep. \<not> is_digit c \<and> c \<noteq> CHR ''@'')"

lemma not_str_in: "c \<in> set w \<Longrightarrow> c \<notin> set rep \<Longrightarrow> \<not> str_in w rep"
  by (auto simp: str_in_iff)

lemma lang_email_at: "lang email_pattern w \<Longrightarrow> CHR ''@'' \<in> set w"
  by (auto simp: email_pattern_def lang_Cat_iff Ch_def lang_Cls_iff)

lemma lang_email_nonempty: "lang email_pattern w \<Longrightarrow> w \<noteq> []"
  using lang_email_at by fastforce

lemma safe_email:
  assumes "plain_mark rep"
  shows "safe_words email_denot rep"
  unfolding safe_words_def
proof (intro allI impI)
  fix w assume "dn_words email_denot w"
  then have l: "lang email_pattern w" by (simp add: email_denot_def)
  from assms have "CHR ''@'' \<notin> set rep" by (auto simp: plain_mark_def)
  with lang_email_at [OF l] have "\<not> str_in w rep" by (rule not_str_in)
  with lang_email_nonempty [OF l] lang_no_bracket [OF l email_shape(2)]
  show "w \<noteq> [] \<and> no_bracket w \<and> (dn_lb email_denot \<longrightarrow> is_word (hd w))
      \<and> (dn_rb email_denot \<longrightarrow> is_word (last w)) \<and> \<not> str_in w rep"
    by (simp add: email_denot_def)
qed

lemma safe_digits:
  assumes "first_cls is_digit r" "first_cls is_word r" "last_cls is_word r" "all_cls not_bracket r"
    and rep: "plain_mark rep"
  shows "safe_words \<lparr>dn_lb = True, dn_rb = True, dn_words = lang r\<rparr> rep"
  unfolding safe_words_def
proof (intro allI impI)
  fix w assume "dn_words \<lparr>dn_lb = True, dn_rb = True, dn_words = lang r\<rparr> w"
  then have l: "lang r w" by simp
  from lang_first_cls [OF l assms(1)] have "w \<noteq> []" "is_digit (hd w)" by auto
  with rep have "hd w \<in> set w" "hd w \<notin> set rep" by (auto simp: plain_mark_def)
  then have "\<not> str_in w rep" by (rule not_str_in)
  then show "w \<noteq> [] \<and> no_bracket w
      \<and> (dn_lb \<lparr>dn_lb = True, dn_rb = True, dn_words = lang r\<rparr> \<longrightarrow> is_word (hd w))
      \<and> (dn_rb \<lparr>dn_lb = True, dn_rb = True, dn_words = lang r\<rparr> \<longrightarrow> is_word (last w)) \<and> \<not> str_in w rep"
    using lang_first_cls [OF l assms(2)] lang_last_cls [OF l assms(3)] lang_no_bracket [OF l assms(4)]
    by simp
qed

lemma safe_ssn: "plain_mark rep \<Longrightarrow> safe_words ssn_denot rep"
  unfolding ssn_denot_def by (rule safe_digits) (simp_all add: ssn_core_shape)

lemma safe_card: "plain_mark rep \<Longrightarrow> safe_words card_denot rep"
  unfolding card_denot_def by (rule safe_digits) (simp_all add: card_core_shape)

lemma marks_plain:
  "plain_mark ''[REDACTED_EMAIL]''" "plain_mark ''[REDACTED_SSN]''"
  "plain_mark ''[REDACTED_CARD]''" "plain_mark ''[REDACTED_CREDENTIAL]''"
  by (simp_all add: plain_mark_def is_digit_def code_point_def)

subsection \<open>Each pattern makes a pass\<close>

lemma ssn_pass: "bracketed rep \<Longrightarrow> sub_pass ssn_pattern rep"
  unfolding ssn_pattern_def by (rule sub_pass_bounded) (simp_all add: ssn_core_shape)

lemma card_pass: "bracketed rep \<Longrightarrow> sub_pass card_pattern rep"
  unfolding card_pattern_def by (rule sub_pass_bounded) (simp_all add: card_core_shape)

lemma lang_Plus_Cons: "lang (Plus (Cls P)) w \<Longrightarrow> P c \<Longrightarrow> lang (Plus (Cls P)) (c # w)"
proof -
  assume "lang (Plus (Cls P)) w" and c: "P c"
  then obtain d v where w: "w = [d] @ v" and "P d" "lang (Star (Cls P)) v"
    by (auto simp: Plus_def lang_Cat_iff lang_Cls_iff)
  then have "lang (Star (Cls P)) w" by (simp only: w) (blast intro: lang_Star1 lang_Cls)
  with c have "lang (Plus (Cls P)) ([c] @ w)"
    unfolding Plus_def by (blast intro: lang_Cat lang_Cls)
  then show ?thesis by simp
qed

lemma lang_email_Cons:
  assumes "lang email_pattern w" "is_word c"
  shows "lang email_pattern (c # w)"
proof -
  from assms(1) have
    "lang (Cat (Plus cls_local) (cats [Ch CHR ''@'', Plus cls_host, Ch CHR ''.'', Plus cls_word_dot_dash])) w"
    by (simp add: email_pattern_def)
  then obtain u v where w: "w = u @ v" and u: "lang (Plus cls_local) u"
    and v: "lang (cats [Ch CHR ''@'', Plus cls_host, Ch CHR ''.'', Plus cls_word_dot_dash]) v"
    unfolding lang_Cat_iff [of "Plus cls_local"] by blast
  from u assms(2) have "lang (Plus cls_local) (c # u)"
    unfolding cls_local_def by (intro lang_Plus_Cons) simp_all
  from lang_Cat [OF this v] show ?thesis by (simp add: email_pattern_def w)
qed

lemma email_first_end:
  assumes "ends email_pattern (p, s) = (q, t) # ys"
  shows "\<not> word_opt (next_opt t)"
proof -
  have "email_pattern = cats ([Plus cls_local, Ch CHR ''@'', Plus cls_host, Ch CHR ''.''] @ [Plus cls_word_dot_dash])"
    by (simp add: email_pattern_def)
  with assms obtain p' s' zs where "ends (Plus cls_word_dot_dash) (p', s') = (q, t) # zs"
    using cats_first_end by (metis surj_pair)
  then show ?thesis
    unfolding cls_word_dot_dash_def by (cases t) (auto dest: plus_cls_first)
qed

lemma email_pass:
  assumes "bracketed rep"
  shows "sub_pass email_pattern rep"
  unfolding sub_pass_def
proof (intro conjI allI impI assms)
  fix p s q t ys assume e: "ends email_pattern (p, s) = (q, t) # ys"
  then have "mat email_pattern (p, s) (q, t)"
    using ends_iff_mat [of "(q, t)" email_pattern "(p, s)"] by simp
  then obtain w where "s = w @ t" "lang email_pattern w"
    by (auto simp: mat_iff_lang [OF email_shape(1)] steps_over_def)
  then show "length t < length s" using lang_email_nonempty by auto
  from e show "\<not> word_opt (next_opt t)" by (rule email_first_end)
next
  fix p c s assume c: "is_word c" and no: "ends email_pattern (p, c # s) = []"
  show "ends email_pattern (Some c, s) = []"
  proof (rule ccontr)
    assume "ends email_pattern (Some c, s) \<noteq> []"
    then obtain q t where "mat email_pattern (Some c, s) (q, t)"
      unfolding ends_Nil_iff by auto
    then obtain w where "s = w @ t" "lang email_pattern w"
      by (auto simp: mat_iff_lang [OF email_shape(1)] steps_over_def)
    with lang_email_Cons [OF _ c] have "c # s = (c # w) @ t" "lang email_pattern (c # w)" by auto
    then have "\<exists>y. mat email_pattern (p, c # s) y"
      using lang_imp_mat [of email_pattern "c # w" p t] by auto
    with no show False unfolding ends_Nil_iff by blast
  qed
qed

lemma lower_char_code: "code_point (lower_char c) =
    (let n = code_point c in if (65 \<le> n \<and> n \<le> 90) \<or> (192 \<le> n \<and> n \<le> 222 \<and> n \<noteq> 215) then n + 32 else n)"
  by (simp add: lower_char_def code_point_def Let_def)

lemma is_word_lower: "is_word (lower_char c) = is_word c"
  by (simp add: is_word_def lower_char_code Let_def)

lemma ChI_word: "lower_char x = lower_char c \<Longrightarrow> is_word c \<Longrightarrow> is_word x"
  using is_word_lower by metis

lemma letters_word:
  "is_word CHR ''p''" "is_word CHR ''a''" "is_word CHR ''s''" "is_word CHR ''c''" "is_word CHR ''t''"
  by (simp_all add: is_word_def code_point_def)

lemma credential_word_shape:
  "bnd_free credential_word" "first_cls is_word credential_word"
  by (auto simp: credential_word_def LitI_def ChI_def cls_defs intro: ChI_word letters_word)

lemma credential_first_end:
  assumes "ends credential_pattern (p, s) = (q, t) # ys"
  shows "\<not> word_opt (next_opt t)"
proof -
  have "credential_pattern = cats ([Bnd, credential_word] @ [credential_tail])"
    by (simp add: credential_pattern_def)
  with assms obtain z zs where tail: "ends credential_tail z = (q, t) # zs"
    using cats_first_end by metis
  have "credential_tail = cats ([Opt (ChI CHR ''s''), Star (Cls is_space),
     Opt (Cls (\<lambda>c. c = CHR '':'' \<or> c = CHR ''='')), Star (Cls is_space)] @ [Plus (Cls (\<lambda>c. \<not> is_space c))])"
    by (simp add: credential_tail_def)
  with tail obtain p' s' zs where "ends (Plus (Cls (\<lambda>c. \<not> is_space c))) (p', s') = (q, t) # zs"
    using cats_first_end by (metis surj_pair)
  then show ?thesis by (cases t) (auto dest: plus_cls_first space_not_word)
qed

lemma credential_mat_iff:
  "mat credential_pattern (p, s) y \<longleftrightarrow>
     (\<exists>w v. s = w @ v \<and> lang credential_word w \<and> \<not> word_opt p \<and> mat credential_tail (last_opt p w, v) y)"
proof -
  have "mat credential_pattern (p, s) y \<longleftrightarrow>
      at_boundary (p, s) \<and> (\<exists>w v. s = w @ v \<and> lang credential_word w \<and> mat credential_tail (last_opt p w, v) y)"
    by (auto simp: credential_pattern_def mat_Cat_iff mat_Bnd_iff
        mat_iff_lang [OF credential_word_shape(1)] steps_over_def)
  moreover have "at_boundary (p, w @ v) \<longleftrightarrow> \<not> word_opt p" if "lang credential_word w" for w v
    using lang_first_cls [OF that credential_word_shape(2)]
    by (cases w) (auto simp: at_boundary_def)
  ultimately show ?thesis by blast
qed

lemma credential_pass:
  assumes "bracketed rep"
  shows "sub_pass credential_pattern rep"
  unfolding sub_pass_def
proof (intro conjI allI impI assms)
  fix p s q t ys assume e: "ends credential_pattern (p, s) = (q, t) # ys"
  then have "mat credential_pattern (p, s) (q, t)"
    using ends_iff_mat [of "(q, t)" credential_pattern "(p, s)"] by simp
  then obtain w v where w: "s = w @ v" "lang credential_word w"
    and v: "mat credential_tail (last_opt p w, v) (q, t)"
    unfolding credential_mat_iff by blast
  from lang_first_cls [OF w(2) credential_word_shape(2)] have "0 < length w" by simp
  moreover have "length t \<le> length v" using mat_length [OF v] by simp
  moreover have "length s = length w + length v" using w(1) by simp
  ultimately show "length t < length s" by linarith
  from e show "\<not> word_opt (next_opt t)" by (rule credential_first_end)
next
  fix p c s assume "is_word c"
  then show "ends credential_pattern (Some c, s) = []"
    unfolding ends_Nil_iff credential_mat_iff by simp
qed

subsection \<open>The credential pass leaves no credential\<close>

lemma keyword_no_bracket: "lang credential_word w \<Longrightarrow> no_bracket w"
proof (erule lang_no_bracket)
  have "\<forall>l \<in> set ''passwordapikeysecretcredentialtoken''. is_word l"
    by (simp add: is_word_def code_point_def)
  then have "\<And>x l. l \<in> set ''passwordapikeysecretcredentialtoken'' \<Longrightarrow>
      lower_char x = lower_char l \<Longrightarrow> not_bracket x"
    unfolding not_bracket_def by (metis ChI_word word_no_bracket)
  then show "all_cls not_bracket credential_word"
    by (auto simp: credential_word_def LitI_def ChI_def cls_defs not_bracket_def dest: space_no_bracket)
qed

lemma credential_tail_iff:
  "(\<exists>y. mat credential_tail (p, s) y) \<longleftrightarrow> (\<exists>c \<in> set s. \<not> is_space c)"
proof
  assume "\<exists>y. mat credential_tail (p, s) y"
  then obtain y where "mat credential_tail (p, s) y" by blast
  moreover have "bnd_free credential_tail"
    by (simp add: credential_tail_def ChI_def Plus_def)
  ultimately obtain w where "s = w @ snd y" "lang credential_tail w"
    by (auto simp: mat_iff_lang steps_over_def)
  moreover from this(2) have "\<exists>c \<in> set w. \<not> is_space c"
    by (auto simp: credential_tail_def lang_Cat_iff Plus_def lang_Cls_iff)
  ultimately show "\<exists>c \<in> set s. \<not> is_space c" by auto
next
  assume "\<exists>c \<in> set s. \<not> is_space c"
  from split_list_first_prop [OF this] obtain u c v where s: "s = u @ [c] @ v"
    and u: "list_all is_space u" and c: "\<not> is_space c"
    by (auto simp: list_all_iff)
  have "lang (Cls (\<lambda>c. \<not> is_space c)) [c]" using c by (rule lang_Cls)
  then have "lang (Plus (Cls (\<lambda>c. \<not> is_space c))) ([c] @ [])"
    unfolding Plus_def by (rule lang_Cat) (rule lang_Star0)
  then have "lang credential_tail ([] @ u @ [] @ [] @ [c] @ [])"
    unfolding credential_tail_def cats.simps
    by (intro lang_Cat lang_Opt0 lang_Star_Cls_iff [THEN iffD2] u lang_Star0)
  from lang_imp_mat [OF this, of p v] have "mat credential_tail (p, s) (last_opt p (u @ [c]), v)"
    by (simp add: s)
  then show "\<exists>y. mat credential_tail (p, s) y" by blast
qed

lemma credential_ends_iff:
  "ends credential_pattern (p, s) \<noteq> [] \<longleftrightarrow>
     (\<exists>w v. s = w @ v \<and> lang credential_word w \<and> \<not> word_opt p \<and> (\<exists>c \<in> set v. \<not> is_space c))"
proof -
  have "ends credential_pattern (p, s) \<noteq> [] \<longleftrightarrow> (\<exists>w v. s = w @ v \<and> lang credential_word w
      \<and> \<not> word_opt p \<and> (\<exists>y. mat credential_tail (last_opt p w, v) y))"
    unfolding ends_Nil_iff not_not credential_mat_iff by blast
  then show ?thesis by (simp only: credential_tail_iff)
qed

lemma credential_search_spaces:
  assumes "\<forall>c \<in> set s. is_space c"
  shows "\<not> search_from credential_pattern p s"
proof
  assume "search_from credential_pattern p s"
  then obtain u t y where "s = u @ t" "mat credential_pattern (last_opt p u, t) y"
    unfolding search_from_iff by blast
  then have "ends credential_pattern (last_opt p u, t) \<noteq> []" unfolding ends_Nil_iff by blast
  with assms \<open>s = u @ t\<close> show False unfolding credential_ends_iff by auto
qed

lemma keyword_start:
  "lang credential_word (c # w) \<Longrightarrow> lower_char c \<in> set ''pasct''"
proof -
  assume l: "lang credential_word (c # w)"
  have "first_cls (\<lambda>x. lower_char x \<in> set ''pasct'') credential_word"
    by (auto simp: credential_word_def LitI_def ChI_def cls_defs lower_char_def code_point_def)
  from lang_first_cls [OF l this] show ?thesis by simp
qed

lemma credential_search_skip:
  assumes "word_opt p \<or> lower_char c \<notin> set ''pasct''"
  shows "search_from credential_pattern p (c # s) = search_from credential_pattern (Some c) s"
proof -
  have "ends credential_pattern (p, c # s) = []"
  proof (rule ccontr)
    assume "ends credential_pattern (p, c # s) \<noteq> []"
    then obtain w v where w: "c # s = w @ v" "lang credential_word w" and "\<not> word_opt p"
      unfolding credential_ends_iff by blast
    from lang_first_cls [OF w(2) credential_word_shape(2)] w(1) obtain w' where "w = c # w'"
      by (cases w) auto
    with keyword_start w(2) assms \<open>\<not> word_opt p\<close> show False by blast
  qed
  then show ?thesis by (subst search_from.simps) simp
qed

lemma lower_mark: "map lower_char ''[REDACTED_CREDENTIAL]'' = ''[redacted_credential]''"
  by code_simp

lemma credential_mark_skip:
  "search_from credential_pattern p (''[REDACTED_CREDENTIAL]'' @ s)
     = search_from credential_pattern (Some CHR '']'') s"
  using lower_mark by (simp add: credential_search_skip is_word_def code_point_def)

lemma marks_bracketed:
  "bracketed ''[REDACTED_EMAIL]''" "bracketed ''[REDACTED_SSN]''"
  "bracketed ''[REDACTED_CARD]''" "bracketed ''[REDACTED_CREDENTIAL]''"
  by (simp_all add: bracketed_def)

lemma credential_skip_clean:
  assumes none: "ends credential_pattern (p, c # s) = []"
    and sub: "sub_from credential_pattern ''[REDACTED_CREDENTIAL]'' p (c # s) = c # out"
    and ctx: "word_opt p' = word_opt p \<or> \<not> is_word c"
  shows "ends credential_pattern (p', c # out) = []"
proof (rule ccontr)
  assume "ends credential_pattern (p', c # out) \<noteq> []"
  then obtain w v where w: "c # out = w @ v" "lang credential_word w" and p': "\<not> word_opt p'"
    and v: "\<exists>d \<in> set v. \<not> is_space d"
    unfolding credential_ends_iff by blast
  from lang_first_cls [OF w(2) credential_word_shape(2)] w(1) have "w \<noteq> []" "is_word c"
    by (cases w; simp)+
  with ctx p' have p: "\<not> word_opt p" by simp
  have pass: "sub_pass credential_pattern ''[REDACTED_CREDENTIAL]''"
    by (rule credential_pass) (simp add: bracketed_def)
  from sub w(1) have "sub_from credential_pattern ''[REDACTED_CREDENTIAL]'' p (c # s) = w @ v" by simp
  from sub_pass_kept [OF pass this keyword_no_bracket [OF w(2)] \<open>w \<noteq> []\<close>]
  obtain v0 where v0: "c # s = w @ v0"
    "v = sub_from credential_pattern ''[REDACTED_CREDENTIAL]'' (last_opt p w) v0" by blast
  with none w(2) p have "\<forall>d \<in> set v0. is_space d"
    using credential_ends_iff by blast
  with v0(2) have "v = v0" by (simp add: sub_from_id credential_search_spaces)
  with v \<open>\<forall>d \<in> set v0. is_space d\<close> show False by blast
qed

lemma credential_clean_from:
  "word_opt p' = word_opt p \<or> \<not> word_opt (next_opt s) \<Longrightarrow>
     \<not> search_from credential_pattern p' (sub_from credential_pattern ''[REDACTED_CREDENTIAL]'' p s)"
proof (induction p s arbitrary: p' rule: sub_pass_induct
    [OF credential_pass [OF marks_bracketed(4)], consumes 0, case_names Nil match skip])
  case (Nil p)
  show ?case using credential_search_spaces by simp
next
  case (match p s q t w)
  then have "\<not> search_from credential_pattern (Some CHR '']'')
      (sub_from credential_pattern ''[REDACTED_CREDENTIAL]'' q t)" by blast
  then show ?case unfolding match.hyps(6) credential_mark_skip .
next
  case (skip p c s)
  have "ends credential_pattern
      (p', c # sub_from credential_pattern ''[REDACTED_CREDENTIAL]'' (Some c) s) = []"
    by (rule credential_skip_clean [OF skip.hyps(1,2)]) (use skip.prems in simp)
  moreover have "\<not> search_from credential_pattern (Some c)
      (sub_from credential_pattern ''[REDACTED_CREDENTIAL]'' (Some c) s)"
    by (rule skip.IH) simp
  ultimately show ?case unfolding skip.hyps(2) by (subst search_from.simps) simp
qed

lemma credential_clean: "\<not> re_search credential_pattern (re_sub credential_pattern ''[REDACTED_CREDENTIAL]'' s)"
  unfolding re_search_def re_sub_def by (rule credential_clean_from) simp

subsection \<open>Redacted text\<close>

lemmas redaction_passes =
  email_pass [OF marks_bracketed(1)] ssn_pass [OF marks_bracketed(2)]
  card_pass [OF marks_bracketed(3)] credential_pass [OF marks_bracketed(4)]

lemma denoted_absent: "denotes r D \<Longrightarrow> free_of D None s \<Longrightarrow> \<not> re_search r s"
  by (simp add: re_search_def search_from_free)

lemma redact_text_free:
  "free_of email_denot None (redact_text text)"
  "free_of ssn_denot None (redact_text text)"
  "free_of card_denot None (redact_text text)"
  unfolding redact_text_unfold
  by (intro sub_clean_other [OF redaction_passes(4)] sub_clean_other [OF redaction_passes(3)]
      sub_clean_other [OF redaction_passes(2)] sub_clean_own [OF redaction_passes(1)]
      sub_clean_own [OF redaction_passes(2)] sub_clean_own [OF redaction_passes(3)]
      safe_email safe_ssn safe_card marks_plain email_denotes ssn_denotes card_denotes)+

lemma redact_text_absent:
  "\<not> re_search email_pattern (redact_text text)"
  "\<not> re_search ssn_pattern (redact_text text)"
  "\<not> re_search card_pattern (redact_text text)"
  "\<not> re_search credential_pattern (redact_text text)"
  using denoted_absent [OF email_denotes redact_text_free(1)]
    denoted_absent [OF ssn_denotes redact_text_free(2)]
    denoted_absent [OF card_denotes redact_text_free(3)]
  by (simp_all add: redact_text_unfold credential_clean)

lemma redact_text_quiet:
  "list_all (\<lambda>(pattern, _). \<not> re_search pattern text) redaction_patterns \<Longrightarrow> redact_text text = text"
  by (simp add: redaction_patterns_def redact_text_unfold re_sub_id)

text \<open>
  C23: No redaction pattern matches text that has been redacted: neither an e-mail address, nor a
  social security number, nor a card number, nor a labelled credential can be found in what
  redact_text returns, whatever the text was.  In particular a later substitution never
  assembles, out of an inserted mark and its surroundings, a shape that an earlier one removes.
\<close>

theorem redact_text_clean:
  "\<not> re_search email_pattern (redact_text text) \<and> \<not> re_search ssn_pattern (redact_text text)
    \<and> \<not> re_search card_pattern (redact_text text)
    \<and> \<not> re_search credential_pattern (redact_text text)"
  by (simp add: redact_text_absent)

text \<open>
  Redaction is idempotent on a whole parameter dictionary, and it neither adds, removes,
  renames nor reorders parameters: redacting what is already redacted changes nothing, so a log
  written from redacted values is the log written from the raw ones.
\<close>

theorem redact_params_idempotent:
  "redact_params (redact_params params) = redact_params params
     \<and> map fst (redact_params params) = map fst params"
proof -
  have "redact_text (redact_text s) = redact_text s" for s
    by (rule redact_text_quiet) (simp add: redaction_patterns_def redact_text_absent)
  then show ?thesis by (auto simp: redact_params_def)
qed

end
