(* ===== verification/Calibration.thy ===== *)
theory Calibration
  imports Detectors
begin

section \<open>Calibration reports, sample floors and the manifest\<close>

text \<open>
  Models \<open>evaluation/sample_sizes.py\<close>, \<open>calibration_report.py\<close> and \<open>calibration_manifest.py\<close>.
  Shown: the range of the Brier score, its zero and its value for a coin flip; every sample in
  range is counted in one reliability bin, whose mean and frequency are in range; the manifest
  agrees with the thresholds the detectors use, and drift is reported exactly where it does not.
\<close>

subsection \<open>Minimum sample sizes\<close>

definition MIN_CALIBRATION_SAMPLES :: int where
  "MIN_CALIBRATION_SAMPLES = 200"

definition MIN_TRAINING_SESSIONS :: int where
  "MIN_TRAINING_SESSIONS = 500"

definition require_calibration_samples :: "int \<Rightarrow> unit result" where
  "require_calibration_samples sample_count =
     (if sample_count < MIN_CALIBRATION_SAMPLES then Inl (InsufficientSampleSizeError sample_count) else Inr ())"

definition require_training_sessions :: "int \<Rightarrow> unit result" where
  "require_training_sessions session_count =
     (if session_count < MIN_TRAINING_SESSIONS then Inl (InsufficientSampleSizeError session_count) else Inr ())"

subsection \<open>The calibration report\<close>

record calibration_sample =
  sa_predicted_probability :: pyfloat
  sa_actual_outcome :: bool

record reliability_bin =
  rb_bin_range :: "pyfloat \<times> pyfloat"
  rb_mean_predicted_probability :: pyfloat
  rb_observed_frequency :: pyfloat
  rb_sample_count :: nat

record calibration_report =
  cr_brier_score :: pyfloat
  cr_reliability_bins :: "reliability_bin list"
  cr_sample_count :: nat

definition similarity_to_pseudo_probability :: "pyfloat \<Rightarrow> pyfloat" where
  "similarity_to_pseudo_probability similarity = max 0 (min 1 ((1 - similarity) / 2))"

definition outcome_value01 :: "bool \<Rightarrow> pyfloat" where
  "outcome_value01 b = (if b then 1 else 0)"

definition compute_brier_score :: "calibration_sample list \<Rightarrow> pyfloat result" where
  "compute_brier_score samples =
     (if samples = [] then Inl ValueError
      else Inr (sum_list (map (\<lambda>s. (sa_predicted_probability s - outcome_value01 (sa_actual_outcome s)) ^ 2) samples)
                / real (length samples)))"

text \<open>
  \<open>bins[i].append(s)\<close>: an index from the end below zero, and an exception outside the list.
\<close>

definition append_to_bin :: "calibration_sample list list \<Rightarrow> int \<Rightarrow> calibration_sample \<Rightarrow> calibration_sample list list result" where
  "append_to_bin bins i s =
     (let n = int (length bins); j = (if i < 0 then i + n else i)
      in if 0 \<le> j \<and> j < n then Inr (bins[nat j := bins ! nat j @ [s]]) else Inl PyIndexError)"

definition prob_bin_index :: "int \<Rightarrow> pyfloat \<Rightarrow> int" where
  "prob_bin_index n_bins p = min (py_int (p * of_int n_bins)) (n_bins - 1)"

fun fill_bins :: "int \<Rightarrow> calibration_sample list \<Rightarrow> calibration_sample list list \<Rightarrow> calibration_sample list list result" where
  "fill_bins n_bins [] bins = Inr bins"
| "fill_bins n_bins (s # samples) bins =
     res_bind (append_to_bin bins (prob_bin_index n_bins (sa_predicted_probability s)) s) (fill_bins n_bins samples)"

definition reliability_bin_of :: "int \<Rightarrow> nat \<Rightarrow> calibration_sample list \<Rightarrow> reliability_bin" where
  "reliability_bin_of n_bins i bin_samples =
     (let range = (real i / of_int n_bins, (real i + 1) / of_int n_bins)
      in if bin_samples = [] then
           \<lparr>rb_bin_range = range, rb_mean_predicted_probability = 0, rb_observed_frequency = 0, rb_sample_count = 0\<rparr>
         else
           \<lparr>rb_bin_range = range,
            rb_mean_predicted_probability =
              sum_list (map sa_predicted_probability bin_samples) / real (length bin_samples),
            rb_observed_frequency = real (length (filter sa_actual_outcome bin_samples)) / real (length bin_samples),
            rb_sample_count = length bin_samples\<rparr>)"

definition compute_reliability_bins :: "calibration_sample list \<Rightarrow> int \<Rightarrow> reliability_bin list result" where
  "compute_reliability_bins samples n_bins =
     res_bind (fill_bins n_bins samples (replicate (nat n_bins) [])) (\<lambda>bins.
     Inr (map (\<lambda>(i, bin_samples). reliability_bin_of n_bins i bin_samples) (enumerate 0 bins)))"

definition generate_calibration_report :: "calibration_sample list \<Rightarrow> calibration_report result" where
  "generate_calibration_report samples =
     res_bind (compute_brier_score samples) (\<lambda>brier.
     res_bind (compute_reliability_bins samples 10) (\<lambda>bins.
     Inr \<lparr>cr_brier_score = brier, cr_reliability_bins = bins, cr_sample_count = length samples\<rparr>))"

definition content_pattern_confidence_to_probability :: "bool \<Rightarrow> pyfloat option \<Rightarrow> pyfloat option" where
  "content_pattern_confidence_to_probability is_suspicious confidence =
     (case confidence of None \<Rightarrow> None | Some c \<Rightarrow> Some (if is_suspicious then c else 1 - c))"

subsection \<open>The manifest\<close>

record calibration_entry =
  ce_detector_name :: string
  ce_threshold_name :: string
  ce_threshold_value :: pyfloat
  ce_embedder_or_method :: string
  ce_calibration_method :: string
  ce_sample_size :: int
  ce_measured_recall :: "pyfloat option"
  ce_measured_false_positive_rate :: "pyfloat option"
  ce_finding_reference :: string

record calibration_manifest =
  cm_entries :: "calibration_entry list"
  cm_manifest_version :: string

definition entry_dict :: "calibration_entry \<Rightarrow> json" where
  "entry_dict e = JDict
    [(''detector_name'', JStr (ce_detector_name e)),
     (''threshold_name'', JStr (ce_threshold_name e)),
     (''threshold_value'', JFloat (ce_threshold_value e)),
     (''embedder_or_method'', JStr (ce_embedder_or_method e)),
     (''calibration_method'', JStr (ce_calibration_method e)),
     (''sample_size'', JInt (ce_sample_size e)),
     (''measured_recall'', json_opt JFloat (ce_measured_recall e)),
     (''measured_false_positive_rate'', json_opt JFloat (ce_measured_false_positive_rate e)),
     (''finding_reference'', JStr (ce_finding_reference e))]"

text \<open>\<open>sha256\<close> gives the bytes of a digest; the code writes them in hexadecimal.\<close>

definition compute_hash :: "sha256 \<Rightarrow> (pyfloat \<Rightarrow> string) \<Rightarrow> calibration_manifest \<Rightarrow> string" where
  "compute_hash sha frepr m =
     concat (map (\<lambda>b. [hex_digit (b div 16), hex_digit (b mod 16)])
       (sha (json_dumps frepr (JList (map entry_dict (cm_entries m))))))"

text \<open>An apostrophe in the texts of the manifest.\<close>

definition quo :: string where
  "quo = [CHR 0x27]"

definition CURRENT_MANIFEST :: calibration_manifest where
  "CURRENT_MANIFEST = \<lparr>cm_entries =
    [\<lparr>ce_detector_name = ''param_divergence'', ce_threshold_name = ''FAKE_DIVERGENCE_THRESHOLD'',
      ce_threshold_value = 1581 / 10000,
      ce_embedder_or_method = ''FakeSemanticEmbedder (bag-of-words, dim=256)'',
      ce_calibration_method = ''1st-percentile derivation (finding 008 methodology), recalibrated (finding 014) against task_sim''
        @ quo @ ''s variable-length corpus fix + call_topic_text ID-noise fix'',
      ce_sample_size = 2730, ce_measured_recall = Some 1, ce_measured_false_positive_rate = Some 0,
      ce_finding_reference = ''finding 005, finding 008, finding 010, finding 014 (variable-length recalibration, root-cause fix)''\<rparr>,
     \<lparr>ce_detector_name = ''param_divergence'', ce_threshold_name = ''MINILM_DIVERGENCE_THRESHOLD'',
      ce_threshold_value = 3307 / 10000,
      ce_embedder_or_method = ''MiniLMEmbedder (all-MiniLM-L6-v2)'',
      ce_calibration_method = ''1st-percentile derivation (finding 008, poisoning-resistant), recalibrated (finding 014) against task_sim''
        @ quo @ ''s variable-length corpus fix + call_topic_text ID-noise fix'',
      ce_sample_size = 2730, ce_measured_recall = Some 1, ce_measured_false_positive_rate = Some 0,
      ce_finding_reference = ''finding 008, finding 010, finding 013, finding 014 (variable-length recalibration, root-cause fix for finding 010''
        @ quo @ ''s generalization gap)''\<rparr>,
     \<lparr>ce_detector_name = ''loop_rate'', ce_threshold_name = ''DEFAULT_RATE_THRESHOLD'',
      ce_threshold_value = 7,
      ce_embedder_or_method = ''N/A (integer count, not embedder-derived)'',
      ce_calibration_method = ''Evidence-based: one above the real max same-tool repeat count (6) measured across 2500 real task_sim-generated sessions, same ''
        @ quo @ ''safe margin above observed max'' @ quo @ '' discipline as finding 008'',
      ce_sample_size = 2500, ce_measured_recall = None, ce_measured_false_positive_rate = Some 0,
      ce_finding_reference = ''finding 014 (recalibrated from a Phase-1 placeholder of 3 after task_sim''
        @ quo @ ''s variable-length fix made legitimate sessions repeat tools up to 6 times)''\<rparr>,
     \<lparr>ce_detector_name = ''exfiltration'', ce_threshold_name = ''DEFAULT_CONTENT_SIZE_THRESHOLD'',
      ce_threshold_value = 150,
      ce_embedder_or_method = ''N/A (character count, not embedder-derived)'',
      ce_calibration_method = ''Fixed heuristic value, not corpus-calibrated'',
      ce_sample_size = 0, ce_measured_recall = None, ce_measured_false_positive_rate = None,
      ce_finding_reference = ''not applicable -- documented as crude from day one, closed by content_pattern detector (finding 007)''\<rparr>,
     \<lparr>ce_detector_name = ''exfiltration'', ce_threshold_name = ''DEFAULT_OUTBOUND_FREQUENCY_THRESHOLD'',
      ce_threshold_value = 7,
      ce_embedder_or_method = ''N/A (integer count, not embedder-derived)'',
      ce_calibration_method = ''Evidence-based: one above the real max legitimate outbound-tool call count (6) measured across 2500 real task_sim-generated sessions, same discipline as loop_rate''
        @ quo @ ''s DEFAULT_RATE_THRESHOLD'',
      ce_sample_size = 2500, ce_measured_recall = None, ce_measured_false_positive_rate = Some 0,
      ce_finding_reference = ''finding 014 (also a pre-existing manifest gap fixed here -- this threshold was never tracked in the manifest before this session)''\<rparr>],
    cm_manifest_version = ''1.0''\<rparr>"

text \<open>The live constants, an \<open>int\<close> or a \<open>float\<close> each; the two compare by value.\<close>

definition live_values :: "(string, json) dict" where
  "live_values =
    [(''FAKE_DIVERGENCE_THRESHOLD'', JFloat FAKE_DIVERGENCE_THRESHOLD),
     (''MINILM_DIVERGENCE_THRESHOLD'', JFloat MINILM_DIVERGENCE_THRESHOLD),
     (''DEFAULT_RATE_THRESHOLD'', JInt (int DEFAULT_RATE_THRESHOLD)),
     (''DEFAULT_CONTENT_SIZE_THRESHOLD'', JInt (int DEFAULT_CONTENT_SIZE_THRESHOLD)),
     (''DEFAULT_OUTBOUND_FREQUENCY_THRESHOLD'', JInt (int DEFAULT_OUTBOUND_FREQUENCY_THRESHOLD))]"

fun num_eq :: "json \<Rightarrow> pyfloat \<Rightarrow> bool" where
  "num_eq (JInt i) x \<longleftrightarrow> of_int i = x"
| "num_eq (JFloat y) x \<longleftrightarrow> y = x"
| "num_eq _ x \<longleftrightarrow> False"

definition verify_config ::
    "(pyfloat \<Rightarrow> string) \<Rightarrow> (string, json) dict \<Rightarrow> calibration_manifest \<Rightarrow> string list" where
  "verify_config frepr live manifest =
     concat (map (\<lambda>entry.
       case dict_get live (ce_threshold_name entry) of
         None \<Rightarrow> [ce_threshold_name entry @ '': manifest entry exists but no live constant found'']
       | Some live_value \<Rightarrow>
           if \<not> num_eq live_value (ce_threshold_value entry)
           then [ce_threshold_name entry @ '': manifest says '' @ frepr (ce_threshold_value entry) @ '', ''
                 @ ''live code has '' @ py_str frepr live_value @ '' -- CALIBRATION DRIFT (Palimpsest bug #2)'']
           else []) (cm_entries manifest))"

definition verify_current_config :: "(pyfloat \<Rightarrow> string) \<Rightarrow> string list" where
  "verify_current_config frepr = verify_config frepr live_values CURRENT_MANIFEST"

subsection \<open>Averages\<close>

lemma sum_list_unit:
  fixes f :: "'a \<Rightarrow> real"
  assumes "\<And>x. x \<in> set xs \<Longrightarrow> 0 \<le> f x \<and> f x \<le> 1"
  shows "0 \<le> sum_list (map f xs)" "sum_list (map f xs) \<le> real (length xs)"
    and "sum_list (map f xs) = 0 \<longleftrightarrow> (\<forall>x \<in> set xs. f x = 0)"
    and "sum_list (map f xs) = real (length xs) \<longleftrightarrow> (\<forall>x \<in> set xs. f x = 1)"
proof -
  have "0 \<le> sum_list (map f xs) \<and> sum_list (map f xs) \<le> real (length xs)
    \<and> (sum_list (map f xs) = 0 \<longleftrightarrow> (\<forall>x \<in> set xs. f x = 0))
    \<and> (sum_list (map f xs) = real (length xs) \<longleftrightarrow> (\<forall>x \<in> set xs. f x = 1))"
    using assms
  proof (induction xs)
    case (Cons x xs)
    then have "0 \<le> f x" "f x \<le> 1" and IH: "0 \<le> sum_list (map f xs)" "sum_list (map f xs) \<le> real (length xs)"
      "sum_list (map f xs) = 0 \<longleftrightarrow> (\<forall>x \<in> set xs. f x = 0)"
      "sum_list (map f xs) = real (length xs) \<longleftrightarrow> (\<forall>x \<in> set xs. f x = 1)" by auto
    moreover from this have "f x + sum_list (map f xs) = 0 \<longleftrightarrow> f x = 0 \<and> sum_list (map f xs) = 0"
      "f x + sum_list (map f xs) = 1 + real (length xs) \<longleftrightarrow> f x = 1 \<and> sum_list (map f xs) = real (length xs)"
      by linarith+
    ultimately show ?case by auto
  qed simp
  then show "0 \<le> sum_list (map f xs)" "sum_list (map f xs) \<le> real (length xs)"
    "sum_list (map f xs) = 0 \<longleftrightarrow> (\<forall>x \<in> set xs. f x = 0)"
    "sum_list (map f xs) = real (length xs) \<longleftrightarrow> (\<forall>x \<in> set xs. f x = 1)" by blast+
qed

lemma mean_bounds:
  fixes f :: "'a \<Rightarrow> real"
  assumes "\<And>x. x \<in> set xs \<Longrightarrow> lo \<le> f x \<and> f x \<le> hi" "xs \<noteq> []"
  shows "lo \<le> sum_list (map f xs) / real (length xs)" "sum_list (map f xs) / real (length xs) \<le> hi"
proof -
  have "lo * real (length xs) \<le> sum_list (map f xs) \<and> sum_list (map f xs) \<le> hi * real (length xs)"
    using assms(1) by (induction xs) (force simp: algebra_simps)+
  with assms(2) show "lo \<le> sum_list (map f xs) / real (length xs)" "sum_list (map f xs) / real (length xs) \<le> hi"
    by (simp_all add: pos_le_divide_eq pos_divide_le_eq)
qed

definition squared_error :: "calibration_sample \<Rightarrow> real" where
  "squared_error s = (sa_predicted_probability s - outcome_value01 (sa_actual_outcome s)) ^ 2"

lemma squared_error_unit:
  assumes "0 \<le> sa_predicted_probability s" "sa_predicted_probability s \<le> 1"
  shows "0 \<le> squared_error s" "squared_error s \<le> 1"
    and "squared_error s = 0 \<longleftrightarrow> sa_predicted_probability s = outcome_value01 (sa_actual_outcome s)"
    and "squared_error s = 1 \<longleftrightarrow> sa_predicted_probability s = outcome_value01 (\<not> sa_actual_outcome s)"
  using assms by (auto simp: squared_error_def outcome_value01_def power2_eq_1_iff abs_square_le_1 abs_le_iff)

text \<open>
  The Brier score raises exactly on an empty sample set; on predictions in range it is between
  0, reached exactly when every prediction is the outcome, and 1, reached exactly when every
  prediction is the opposite outcome; predicting one half throughout scores a quarter on any data.
\<close>

theorem brier_score_range:
  assumes "\<forall>s \<in> set samples. 0 \<le> sa_predicted_probability s \<and> sa_predicted_probability s \<le> 1"
  shows "if samples = [] then compute_brier_score samples = Inl ValueError
    else (\<exists>b. compute_brier_score samples = Inr b \<and> 0 \<le> b \<and> b \<le> 1
      \<and> (b = 0 \<longleftrightarrow> (\<forall>s \<in> set samples. sa_predicted_probability s = outcome_value01 (sa_actual_outcome s)))
      \<and> (b = 1 \<longleftrightarrow> (\<forall>s \<in> set samples. sa_predicted_probability s = outcome_value01 (\<not> sa_actual_outcome s)))
      \<and> ((\<forall>s \<in> set samples. sa_predicted_probability s = 1 / 2) \<longrightarrow> b = 1 / 4))"
proof (cases "samples = []")
  case False
  let ?t = "sum_list (map squared_error samples)"
  have b: "compute_brier_score samples = Inr (?t / real (length samples))"
    using False by (simp add: compute_brier_score_def squared_error_def [abs_def])
  have unit: "0 \<le> squared_error s \<and> squared_error s \<le> 1" if "s \<in> set samples" for s
    using squared_error_unit assms that by blast
  note U = sum_list_unit [of samples squared_error, OF unit]
  have len: "0 < real (length samples)" using False by simp
  have quarter: "?t / real (length samples) = 1 / 4" if half: "\<forall>s \<in> set samples. sa_predicted_probability s = 1 / 2"
  proof -
    have "squared_error s = 1 / 4" if "s \<in> set samples" for s
      unfolding squared_error_def bspec [OF half that] by (simp add: outcome_value01_def power2_eq_square)
    then have "map squared_error samples = map (\<lambda>s. 1 / 4) samples" by simp
    then show ?thesis using len by (simp only: sum_list_triv) simp
  qed
  have iff: "squared_error s = 0 \<longleftrightarrow> sa_predicted_probability s = outcome_value01 (sa_actual_outcome s)"
    "squared_error s = 1 \<longleftrightarrow> sa_predicted_probability s = outcome_value01 (\<not> sa_actual_outcome s)"
    if "s \<in> set samples" for s
    using squared_error_unit(3,4) assms that by blast+
  have zero: "?t / real (length samples) = 0 \<longleftrightarrow>
      (\<forall>s \<in> set samples. sa_predicted_probability s = outcome_value01 (sa_actual_outcome s))"
    using U(3) len iff(1) by simp
  have "?t / real (length samples) = 1 \<longleftrightarrow> (\<forall>s \<in> set samples. squared_error s = 1)"
    using U(4) len by (simp add: divide_eq_eq)
  then have one: "?t / real (length samples) = 1 \<longleftrightarrow>
      (\<forall>s \<in> set samples. sa_predicted_probability s = outcome_value01 (\<not> sa_actual_outcome s))"
    using iff(2) by simp
  have range: "0 \<le> ?t / real (length samples)" "?t / real (length samples) \<le> 1"
    using U(1,2) len by simp_all
  show ?thesis unfolding if_not_P [OF False]
    by (intro exI [of _ "?t / real (length samples)"] conjI impI b zero one range quarter)
qed (simp add: compute_brier_score_def)

theorem brier_score_range_witness:
  "\<exists>b. compute_brier_score [\<lparr>sa_predicted_probability = 1 / 2, sa_actual_outcome = True\<rparr>] = Inr b \<and> b = 1 / 4"
  using brier_score_range [of "[\<lparr>sa_predicted_probability = 1 / 2, sa_actual_outcome = True\<rparr>]"] by auto

subsection \<open>Reliability bins\<close>

definition in_prob_bin :: "int \<Rightarrow> nat \<Rightarrow> calibration_sample \<Rightarrow> bool" where
  "in_prob_bin n i s \<longleftrightarrow> prob_bin_index n (sa_predicted_probability s) = int i"

definition in_range :: "calibration_sample \<Rightarrow> bool" where
  "in_range s \<longleftrightarrow> 0 \<le> sa_predicted_probability s \<and> sa_predicted_probability s \<le> 1"

lemma prob_bin_index_range:
  assumes "0 < n" "0 \<le> p" "p \<le> 1"
  shows "0 \<le> prob_bin_index n p" "prob_bin_index n p < n"
  using assms by (simp_all add: prob_bin_index_def py_int_def)

lemma in_prob_bin_bounds:
  assumes "0 < n" "in_range s" "in_prob_bin n i s"
  shows "real i / of_int n \<le> sa_predicted_probability s" "sa_predicted_probability s \<le> (real i + 1) / of_int n"
proof -
  let ?p = "sa_predicted_probability s" and ?x = "sa_predicted_probability s * of_int n"
  from assms have p: "0 \<le> ?p" "?p \<le> 1" and i: "min \<lfloor>?x\<rfloor> (n - 1) = int i"
    by (auto simp: in_range_def in_prob_bin_def prob_bin_index_def py_int_def)
  from i have "int i \<le> \<lfloor>?x\<rfloor>" by linarith
  then have "real i \<le> ?x" by (simp add: le_floor_iff)
  moreover have "?x \<le> real i + 1"
  proof (cases "\<lfloor>?x\<rfloor> = int i")
    case True
    then show ?thesis by linarith
  next
    case False
    with i have "n = int i + 1" by linarith
    moreover have "?x \<le> of_int n" using p assms(1) by (simp add: mult_le_cancel_right1)
    ultimately show ?thesis by simp
  qed
  ultimately show "real i / of_int n \<le> ?p" "?p \<le> (real i + 1) / of_int n"
    using assms(1) by (simp_all add: pos_divide_le_eq pos_le_divide_eq)
qed

lemma fill_bins_eq:
  assumes "0 < n" "list_all in_range samples" "length bins = nat n"
  shows "fill_bins n samples bins = Inr (map (\<lambda>i. bins ! i @ filter (in_prob_bin n i) samples) [0..<nat n])"
  using assms(2,3)
proof (induction samples arbitrary: bins)
  case Nil
  then show ?case by (simp add: list_eq_iff_nth_eq)
next
  case (Cons s samples)
  then have r: "0 \<le> prob_bin_index n (sa_predicted_probability s)" "prob_bin_index n (sa_predicted_probability s) < n"
    using prob_bin_index_range assms(1) by (auto simp: in_range_def)
  define j where "j = nat (prob_bin_index n (sa_predicted_probability s))"
  have j: "prob_bin_index n (sa_predicted_probability s) = int j" "j < nat n" using r by (auto simp: j_def)
  let ?bins = "bins[j := bins ! j @ [s]]"
  have "append_to_bin bins (int j) s = Inr ?bins"
    using j Cons.prems assms(1) by (auto simp: append_to_bin_def Let_def)
  moreover have "fill_bins n samples ?bins = Inr (map (\<lambda>i. ?bins ! i @ filter (in_prob_bin n i) samples) [0..<nat n])"
    using Cons by simp
  moreover have "map (\<lambda>i. ?bins ! i @ filter (in_prob_bin n i) samples) [0..<nat n]
      = map (\<lambda>i. bins ! i @ filter (in_prob_bin n i) (s # samples)) [0..<nat n]"
    using j Cons.prems(2) by (intro map_cong refl) (auto simp: in_prob_bin_def [of n _ s] nth_list_update)
  ultimately show ?case using j by (simp only: fill_bins.simps res_bind_simps)
qed

lemma sum_filter_bins:
  fixes n :: nat
  assumes "\<And>s. s \<in> set samples \<Longrightarrow> \<exists>i < n. \<forall>j < n. P j s \<longleftrightarrow> j = i"
  shows "(\<Sum>i < n. length (filter (P i) samples)) = length samples"
  using assms
proof (induction samples)
  case (Cons s samples)
  then obtain i where i: "i < n" "\<forall>j < n. P j s \<longleftrightarrow> j = i" by force
  have "(\<Sum>j < n. length (filter (P j) (s # samples)))
      = (\<Sum>j < n. (if j = i then 1 else 0) + length (filter (P j) samples))"
    using i(2) by (intro sum.cong) auto
  also have "\<dots> = 1 + (\<Sum>j < n. length (filter (P j) samples))"
    using i(1) by (simp add: sum.distrib sum.delta)
  finally show ?case using Cons by simp
qed simp

lemma in_prob_bin_unique:
  assumes "0 < n" "in_range s"
  shows "\<exists>i < nat n. \<forall>j < nat n. in_prob_bin n j s \<longleftrightarrow> j = i"
proof -
  have "0 \<le> prob_bin_index n (sa_predicted_probability s)" "prob_bin_index n (sa_predicted_probability s) < n"
    using prob_bin_index_range assms by (auto simp: in_range_def)
  then show ?thesis
    by (intro exI [of _ "nat (prob_bin_index n (sa_predicted_probability s))"]) (auto simp: in_prob_bin_def)
qed

text \<open>What a bin says of the samples of the whole set that fall into it.\<close>

definition bin_sound :: "int \<Rightarrow> nat \<Rightarrow> calibration_sample list \<Rightarrow> reliability_bin \<Rightarrow> bool" where
  "bin_sound n i samples b \<longleftrightarrow>
     rb_bin_range b = (real i / of_int n, (real i + 1) / of_int n)
   \<and> rb_sample_count b = length (filter (in_prob_bin n i) samples)
   \<and> 0 \<le> rb_observed_frequency b \<and> rb_observed_frequency b \<le> 1
   \<and> (rb_sample_count b \<noteq> 0 \<longrightarrow>
        fst (rb_bin_range b) \<le> rb_mean_predicted_probability b
      \<and> rb_mean_predicted_probability b \<le> snd (rb_bin_range b)
      \<and> rb_observed_frequency b * real (rb_sample_count b)
          = real (length (filter (\<lambda>s. in_prob_bin n i s \<and> sa_actual_outcome s) samples)))"

lemma reliability_bin_sound:
  assumes "0 < n" "list_all in_range samples"
  shows "bin_sound n i samples (reliability_bin_of n i (filter (in_prob_bin n i) samples))"
proof (cases "filter (in_prob_bin n i) samples = []")
  case True
  then show ?thesis by (simp add: bin_sound_def reliability_bin_of_def Let_def)
next
  case False
  let ?b = "filter (in_prob_bin n i) samples"
  define lo where "lo = real i / of_int n"
  define hi where "hi = (real i + 1) / of_int n"
  have "lo \<le> sa_predicted_probability s \<and> sa_predicted_probability s \<le> hi" if "s \<in> set ?b" for s
    using in_prob_bin_bounds [OF assms(1), of s i] that assms(2) by (simp add: list_all_iff lo_def hi_def)
  note M = mean_bounds [of ?b lo sa_predicted_probability hi, OF this False]
  have "length (filter (\<lambda>s. in_prob_bin n i s \<and> sa_actual_outcome s) samples) \<le> length ?b"
    by (induction samples) auto
  moreover have "filter sa_actual_outcome ?b = filter (\<lambda>s. in_prob_bin n i s \<and> sa_actual_outcome s) samples"
    by (simp add: conj_commute)
  ultimately show ?thesis using M False unfolding bin_sound_def reliability_bin_of_def Let_def lo_def [symmetric] hi_def [symmetric]
    by (simp add: divide_le_eq del: filter_filter length_filter_le)
qed

text \<open>
  With predictions in range and a positive number of bins, every sample is counted in exactly
  one bin, the one that holds its prediction; a bin with samples has its mean prediction inside
  its range and its observed frequency, the share of attacks among them, between 0 and 1.
\<close>

theorem reliability_bins_partition:
  assumes "0 < n_bins" "list_all in_range samples"
  shows "\<exists>bins. compute_reliability_bins samples n_bins = Inr bins \<and> length bins = nat n_bins
    \<and> (\<Sum>i < nat n_bins. rb_sample_count (bins ! i)) = length samples
    \<and> (\<forall>i < nat n_bins. bin_sound n_bins i samples (bins ! i))"
proof -
  let ?bin = "\<lambda>i. reliability_bin_of n_bins i (filter (in_prob_bin n_bins i) samples)"
  have eq: "compute_reliability_bins samples n_bins = Inr (map ?bin [0..<nat n_bins])"
    using fill_bins_eq [OF assms, of "replicate (nat n_bins) []"]
    by (simp add: compute_reliability_bins_def enumerate_map_upt comp_def cong: map_cong)
  have count: "rb_sample_count (?bin i) = length (filter (in_prob_bin n_bins i) samples)" for i
    using reliability_bin_sound [OF assms, of i] by (simp add: bin_sound_def)
  have "(\<Sum>i < nat n_bins. length (filter (in_prob_bin n_bins i) samples)) = length samples"
    using in_prob_bin_unique [OF assms(1)] assms(2) by (intro sum_filter_bins) (simp add: list_all_iff)
  then have "(\<Sum>i < nat n_bins. rb_sample_count (map ?bin [0..<nat n_bins] ! i)) = length samples"
    by (simp add: count)
  with eq reliability_bin_sound [OF assms] show ?thesis by simp
qed

theorem reliability_bins_partition_witness:
  "\<exists>bins. compute_reliability_bins [\<lparr>sa_predicted_probability = 1, sa_actual_outcome = True\<rparr>] 10 = Inr bins
    \<and> length bins = 10 \<and> (\<Sum>i < 10. rb_sample_count (bins ! i)) = 1"
  using reliability_bins_partition [of 10 "[\<lparr>sa_predicted_probability = 1, sa_actual_outcome = True\<rparr>]"]
  by (auto simp: in_range_def)

subsection \<open>Drift between the manifest and the code\<close>

text \<open>
  The check of the manifest reports nothing on the thresholds the detectors are defined with;
  on any manifest and any live values it reports nothing exactly when every entry names a live
  constant of its value, and otherwise one line for each entry that does not.
\<close>

theorem manifest_drift_exact:
  "verify_current_config frepr = []
   \<and> (verify_config frepr live m = [] \<longleftrightarrow>
        list_all (\<lambda>e. \<exists>v. dict_get live (ce_threshold_name e) = Some v \<and> num_eq v (ce_threshold_value e)) (cm_entries m))
   \<and> length (verify_config frepr live m) = length (filter (\<lambda>e.
        \<not> (\<exists>v. dict_get live (ce_threshold_name e) = Some v \<and> num_eq v (ce_threshold_value e))) (cm_entries m))"
proof -
  let ?line = "\<lambda>entry. case dict_get live (ce_threshold_name entry) of
         None \<Rightarrow> [ce_threshold_name entry @ '': manifest entry exists but no live constant found'']
       | Some live_value \<Rightarrow>
           if \<not> num_eq live_value (ce_threshold_value entry)
           then [ce_threshold_name entry @ '': manifest says '' @ frepr (ce_threshold_value entry) @ '', ''
                 @ ''live code has '' @ py_str frepr live_value @ '' -- CALIBRATION DRIFT (Palimpsest bug #2)'']
           else []"
  let ?ok = "\<lambda>e. \<exists>v. dict_get live (ce_threshold_name e) = Some v \<and> num_eq v (ce_threshold_value e)"
  have line: "length (?line e) = (if ?ok e then 0 else 1)" for e
    by (auto split: option.split)
  have len: "length (concat (map ?line es)) = length (filter (\<lambda>e. \<not> ?ok e) es)" for es
    by (induction es) (simp_all add: line)
  have "verify_current_config frepr = []"
    by (simp add: verify_current_config_def verify_config_def CURRENT_MANIFEST_def live_values_def
        FAKE_DIVERGENCE_THRESHOLD_def MINILM_DIVERGENCE_THRESHOLD_def DEFAULT_RATE_THRESHOLD_def
        DEFAULT_CONTENT_SIZE_THRESHOLD_def DEFAULT_OUTBOUND_FREQUENCY_THRESHOLD_def)
  moreover have "length (verify_config frepr live m) = length (filter (\<lambda>e. \<not> ?ok e) (cm_entries m))"
    unfolding verify_config_def by (rule len)
  moreover from this have "verify_config frepr live m = [] \<longleftrightarrow> list_all ?ok (cm_entries m)"
    by (simp only: length_0_conv [symmetric]) (auto simp: filter_empty_conv list_all_iff)
  ultimately show ?thesis by blast
qed

end
