(* ===== verification/Config.thy ===== *)
theory Config
  imports Prelude
begin

section \<open>Configuration\<close>

text \<open>
  Models \<open>config/settings.py\<close>: the process environment is a function from names to values, the
  cache of \<open>get_settings\<close> an optional value. Shown: settings exist exactly when the required
  variable is not blank, an optional setting is never blank, and the first settings are kept
  whatever becomes of the environment.
\<close>

type_synonym env = "string \<Rightarrow> string option"

record settings =
  st_redis_url :: string
  st_groq_api_key :: "string option"
  st_hf_token :: "string option"
  st_ops_approver_api_key :: "string option"

definition require_env :: "env \<Rightarrow> string \<Rightarrow> string result" where
  "require_env environ var_name =
     (case environ var_name of
        None \<Rightarrow> Inl (MissingConfigError var_name)
      | Some v \<Rightarrow> if strip is_space v = [] then Inl (MissingConfigError var_name) else Inr v)"

definition optional_env :: "env \<Rightarrow> string \<Rightarrow> string option" where
  "optional_env environ var_name =
     (case environ var_name of
        None \<Rightarrow> None
      | Some v \<Rightarrow> if strip is_space v = [] then None else Some v)"

definition settings_of :: "env \<Rightarrow> settings result" where
  "settings_of environ =
     res_bind (require_env environ ''SIMULACRUM_REDIS_URL'') (\<lambda>redis_url.
     Inr \<lparr>st_redis_url = redis_url,
          st_groq_api_key = optional_env environ ''GROQ_API_KEY'',
          st_hf_token = optional_env environ ''HF_TOKEN'',
          st_ops_approver_api_key = optional_env environ ''SIMULACRUM_OPS_APPROVER_API_KEY''\<rparr>)"

text \<open>With \<open>lru_cache\<close>: a value is kept, an exception is not.\<close>

definition get_settings :: "env \<Rightarrow> settings option \<Rightarrow> settings result \<times> settings option" where
  "get_settings environ cache =
     (case cache of
        Some s \<Rightarrow> (Inr s, cache)
      | None \<Rightarrow> (case settings_of environ of
            Inl e \<Rightarrow> (Inl e, None)
          | Inr s \<Rightarrow> (Inr s, Some s)))"

definition blank :: "string \<Rightarrow> bool" where
  "blank v \<longleftrightarrow> list_all is_space v"

lemma strip_Nil_iff: "strip is_space v = [] \<longleftrightarrow> blank v"
proof -
  have "set v = set (takeWhile is_space v) \<union> set (dropWhile is_space v)"
    using set_append [of "takeWhile is_space v" "dropWhile is_space v"] by simp
  then have "(\<forall>x \<in> set (dropWhile is_space v). is_space x) \<longleftrightarrow> (\<forall>x \<in> set v. is_space x)"
    by (auto dest: set_takeWhileD)
  then show ?thesis by (simp add: strip_def lstrip_def rstrip_def blank_def list_all_iff)
qed

lemma settings_of_Inr:
  "settings_of environ = Inr s \<longleftrightarrow>
     (\<exists>url. environ ''SIMULACRUM_REDIS_URL'' = Some url \<and> \<not> blank url \<and> s = \<lparr>st_redis_url = url,
          st_groq_api_key = optional_env environ ''GROQ_API_KEY'',
          st_hf_token = optional_env environ ''HF_TOKEN'',
          st_ops_approver_api_key = optional_env environ ''SIMULACRUM_OPS_APPROVER_API_KEY''\<rparr>)"
  by (auto simp: settings_of_def require_env_def strip_Nil_iff split: option.splits if_splits)

lemma optional_env_not_blank: "optional_env environ v = Some k \<Longrightarrow> \<not> blank k"
  by (auto simp: optional_env_def strip_Nil_iff split: option.splits if_splits)

lemma settings_ops_key:
  "settings_of environ = Inr s \<Longrightarrow> st_ops_approver_api_key s = Some key \<Longrightarrow> \<not> blank key"
  by (auto simp: settings_of_Inr dest: optional_env_not_blank)

text \<open>A sequence of calls of \<open>get_settings\<close>, each in its environment.\<close>

fun settings_calls :: "env list \<Rightarrow> settings option \<Rightarrow> settings result list" where
  "settings_calls [] cache = []"
| "settings_calls (e # es) cache = (case get_settings e cache of (r, cache') \<Rightarrow> r # settings_calls es cache')"

lemma settings_calls_cached: "settings_calls es (Some s) = replicate (length es) (Inr s)"
  by (induction es) (simp_all add: get_settings_def)

end
