(* ===== verification/Floats.thy ===== *)
theory Floats
  imports Prelude "HOL-Library.Log_Nat"
begin

section \<open>Floats and how they are printed\<close>

text \<open>
  Python's floats where they are printed: the rounding of a number to IEEE 754 double precision,
  and \<open>format\<close> with a fixed number of decimals, which rounds the double and not the number it came
  from. \<open>23/80\<close> is 28.75 per cent and prints as \<open>28.7%\<close>, since the double is below it. Shown: the
  error of the rounding, that it keeps the order, that the printed text of a rate of fewer than a
  thousand tells its count, and three values that Python prints, as a check of the model.
\<close>

subsection \<open>Double precision\<close>

text \<open>
  In units of \<open>2 ^ -1074\<close>, the smallest positive double, a number is rounded to a multiple of
  \<open>2 ^ (l - 53)\<close>, where \<open>l\<close> is the number of its binary digits, so that 53 digits remain; the
  nearest multiple, and the even one of two. Numbers too large for a double do not occur.
\<close>

definition float_step :: "pyfloat \<Rightarrow> pyfloat" where
  "float_step u = 2 ^ (floorlog 2 (nat \<lfloor>\<bar>u\<bar>\<rfloor>) - 53)"

definition FLOAT_SCALE :: pyfloat where
  "FLOAT_SCALE = 2 ^ 1074"

definition binary64 :: "pyfloat \<Rightarrow> pyfloat" where
  "binary64 x =
     (let u = x * FLOAT_SCALE; step = float_step u
      in of_int (round_half_even (u / step)) * step / FLOAT_SCALE)"

subsection \<open>Formatting\<close>

text \<open>
  \<open>format(x, '.df')\<close> of a double \<open>x\<close>: the nearest multiple of \<open>10 ^ -d\<close> to it; with a sign; as a
  percentage, for which Python multiplies the double by 100 first.
\<close>

definition decimals :: "nat \<Rightarrow> nat \<Rightarrow> string" where
  "decimals d n = map (\<lambda>i. char_of (48 + n div 10 ^ (d - Suc i) mod 10)) [0..<d]"

definition fixed_str :: "nat \<Rightarrow> pyfloat \<Rightarrow> string" where
  "fixed_str d x = (let n = nat (round_half_even (\<bar>x\<bar> * 10 ^ d)) in
     (if x < 0 then ''-'' else []) @ nat_str (n div 10 ^ d) @ ''.'' @ decimals d n)"

definition signed_str :: "nat \<Rightarrow> pyfloat \<Rightarrow> string" where
  "signed_str d x = (if x < 0 then [] else ''+'') @ fixed_str d x"

definition percent_str :: "pyfloat \<Rightarrow> string" where
  "percent_str x = fixed_str 1 (binary64 (x * 100)) @ ''%''"

definition signed_percent_str :: "pyfloat \<Rightarrow> string" where
  "signed_percent_str x = signed_str 1 (binary64 (x * 100)) @ ''%''"

subsection \<open>The rounding\<close>

lemma round_half_even_near: "of_int (round_half_even x) \<le> x + 1 / 2 \<and> x - 1 / 2 \<le> of_int (round_half_even x)"
  unfolding round_half_even_def Let_def by (auto split: if_splits) linarith+

lemma round_half_even_apart: "x + 1 < y \<Longrightarrow> round_half_even x < round_half_even y"
  using round_half_even_near [of x] round_half_even_near [of y] by linarith

lemma round_half_even_nonneg: "0 \<le> x \<Longrightarrow> 0 \<le> round_half_even x"
  using round_half_even_near [of x] by (simp add: round_half_even_def Let_def)

lemma nat_str_not_Nil: "nat_str n \<noteq> []"
  by (subst nat_str.simps) simp

lemma digit_char_inject: "char_of (48 + a mod 10) = (char_of (48 + b mod 10) :: char) \<longleftrightarrow> a mod 10 = b mod (10 :: nat)"
proof -
  have "a mod 10 < 10" "b mod 10 < 10" by simp_all
  then show ?thesis
    using char_of_eq_iff [of "48 + a mod 10" "char_of (48 + b mod 10)"] by (auto simp: of_char_of)
qed

lemma nat_str_inject: "nat_str a = nat_str b \<longleftrightarrow> a = b"
proof
  show "nat_str a = nat_str b \<Longrightarrow> a = b"
  proof (induction a arbitrary: b rule: nat_str.induct)
    case (1 a)
    show ?case
    proof (cases "a < 10 \<or> b < 10")
      case True
      then show ?thesis
        using "1.prems" digit_char_inject [of a b] nat_str.simps [of a] nat_str.simps [of b]
        by (auto simp: nat_str_not_Nil nat_str_not_Nil [symmetric] split: if_splits)
    next
      case False
      then have "nat_str (a div 10) = nat_str (b div 10)" "a mod 10 = b mod 10"
        using "1.prems" nat_str.simps [of a] nat_str.simps [of b] by (simp_all add: digit_char_inject)
      with "1.IH" False show ?thesis by (metis div_mult_mod_eq)
    qed
  qed
qed simp

lemma fixed_str_1_inject:
  assumes "0 \<le> x" "0 \<le> y"
  shows "fixed_str 1 x = fixed_str 1 y \<longleftrightarrow> round_half_even (x * 10) = round_half_even (y * 10)"
proof
  assume "fixed_str 1 x = fixed_str 1 y"
  then have "nat_str (nat (round_half_even (x * 10)) div 10) = nat_str (nat (round_half_even (y * 10)) div 10)"
    "nat (round_half_even (x * 10)) mod 10 = nat (round_half_even (y * 10)) mod 10"
    using assms by (simp_all add: fixed_str_def decimals_def Let_def digit_char_inject)
  then have "nat (round_half_even (x * 10)) = nat (round_half_even (y * 10))"
    unfolding nat_str_inject by (metis div_mult_mod_eq)
  then show "round_half_even (x * 10) = round_half_even (y * 10)"
    using assms round_half_even_nonneg [of "x * 10"] round_half_even_nonneg [of "y * 10"] by simp
qed (use assms in \<open>simp add: fixed_str_def\<close>)


lemma round_half_even_mono:
  assumes "x \<le> y"
  shows "round_half_even x \<le> round_half_even y"
proof (cases "\<lfloor>x\<rfloor> = \<lfloor>y\<rfloor>")
  case True
  with assms show ?thesis by (auto simp: round_half_even_def Let_def)
next
  case False
  with assms have "\<lfloor>x\<rfloor> + 1 \<le> \<lfloor>y\<rfloor>" using floor_mono [OF assms] by linarith
  moreover have "round_half_even x \<le> \<lfloor>x\<rfloor> + 1" "\<lfloor>y\<rfloor> \<le> round_half_even y"
    by (auto simp: round_half_even_def Let_def)
  ultimately show ?thesis by linarith
qed

lemma round_half_even_of_int [simp]: "round_half_even (of_int n) = n"
  by (simp add: round_half_even_def)

lemma float_step_pos [simp]: "0 < float_step u"
  by (simp add: float_step_def)

lemma float_step_mono: "\<bar>u\<bar> \<le> \<bar>v\<bar> \<Longrightarrow> float_step u \<le> float_step v"
  unfolding float_step_def
  by (intro power_increasing diff_le_mono floorlog_mono nat_mono floor_mono) simp_all

text \<open>A number has at most 53 digits in units of its step, and 53 when the step is not the smallest.\<close>

lemma float_step_bounds:
  shows "\<bar>u\<bar> / float_step u < 2 ^ 53" and "1 < float_step u \<Longrightarrow> 2 ^ 52 \<le> \<bar>u\<bar> / float_step u"
proof -
  define m where "m = nat \<lfloor>\<bar>u\<bar>\<rfloor>"
  define l where "l = floorlog 2 m"
  have m: "real m \<le> \<bar>u\<bar>" "\<bar>u\<bar> < real m + 1" by (simp_all add: m_def)
  have step: "float_step u = 2 ^ (l - 53)" by (simp add: float_step_def l_def m_def)
  have "m < 2 ^ l" unfolding l_def by (cases "m = 0") (use floorlog_bounds [of m 2] in auto)
  then have "real m + 1 \<le> 2 ^ l" by (metis Suc_leI of_nat_Suc of_nat_le_iff of_nat_numeral of_nat_power add.commute)
  with m(2) have "\<bar>u\<bar> < 2 ^ l" by linarith
  also have "(2 :: real) ^ l \<le> 2 ^ (53 + (l - 53))" by (rule power_increasing) simp_all
  finally show "\<bar>u\<bar> / float_step u < 2 ^ 53"
    by (simp only: step pos_divide_less_eq power_add zero_less_power zero_less_numeral)
  assume "1 < float_step u"
  then have l: "53 < l" using step by (cases "l - 53") auto
  then have "m \<noteq> 0" by (auto simp: l_def floorlog_def split: if_splits)
  then have "2 ^ (l - 1) \<le> m" using floorlog_bounds [of m 2] by (simp add: l_def)
  then have "(2 :: real) ^ (l - 1) \<le> \<bar>u\<bar>" using m(1) by (metis of_nat_le_iff of_nat_numeral of_nat_power order_trans)
  moreover have "(2 :: real) ^ (l - 1) = 2 ^ 52 * 2 ^ (l - 53)" using l by (simp only: power_add [symmetric]) simp
  ultimately show "2 ^ 52 \<le> \<bar>u\<bar> / float_step u" by (simp only: step pos_le_divide_eq zero_less_power zero_less_numeral)
qed

lemma float_step_ge_1: "1 \<le> float_step u"
  by (simp add: float_step_def)

definition round_step :: "pyfloat \<Rightarrow> pyfloat" where
  "round_step u = of_int (round_half_even (u / float_step u)) * float_step u"

lemma binary64_scaled: "binary64 x = round_step (x * FLOAT_SCALE) / FLOAT_SCALE"
  by (simp only: binary64_def round_step_def Let_def)

lemma round_step_error: "\<bar>round_step u - u\<bar> \<le> \<bar>u\<bar> / 2 ^ 53 + 1 / 2"
proof -
  let ?s = "float_step u"
  have "\<bar>of_int (round_half_even (u / ?s)) - u / ?s\<bar> \<le> 1 / 2"
    using round_half_even_near [of "u / ?s"] by linarith
  then have "\<bar>of_int (round_half_even (u / ?s)) - u / ?s\<bar> * ?s \<le> 1 / 2 * ?s"
    by (intro mult_right_mono) (simp_all add: less_imp_le)
  also have "\<bar>of_int (round_half_even (u / ?s)) - u / ?s\<bar> * ?s = \<bar>round_step u - u\<bar>"
  proof -
    have "(of_int (round_half_even (u / ?s)) - u / ?s) * ?s = round_step u - u"
      using float_step_pos [of u] by (simp add: round_step_def left_diff_distrib less_imp_neq [symmetric])
    then show ?thesis by (metis abs_mult abs_of_pos float_step_pos)
  qed
  finally have e: "\<bar>round_step u - u\<bar> \<le> 1 / 2 * ?s" .
  show ?thesis
  proof (cases "?s = 1")
    case True
    with e show ?thesis by (simp add: add_increasing)
  next
    case False
    with float_step_ge_1 [of u] have "2 ^ 52 \<le> \<bar>u\<bar> / ?s" by (intro float_step_bounds(2)) simp
    then have "2 ^ 52 * ?s \<le> \<bar>u\<bar>" by (simp add: pos_le_divide_eq)
    with e show ?thesis by simp
  qed
qed

lemma round_step_mono:
  assumes "0 \<le> u" "u \<le> v"
  shows "round_step u \<le> round_step v"
proof (cases "float_step u = float_step v")
  case True
  have "u / float_step v \<le> v / float_step v" using assms by (simp add: divide_right_mono less_imp_le)
  then have "round_half_even (u / float_step v) \<le> round_half_even (v / float_step v)" by (rule round_half_even_mono)
  then show ?thesis by (simp add: round_step_def True mult_right_mono less_imp_le)
next
  case False
  define s where "s = float_step u"
  define t where "t = float_step v"
  have st: "0 < s" "0 < t" "s < t" "1 < t" using False float_step_mono [of u v] assms float_step_ge_1 [of u]
    by (simp_all add: s_def t_def)
  have two: "2 * s \<le> t"
  proof -
    define a where "a = floorlog 2 (nat \<lfloor>\<bar>u\<bar>\<rfloor>) - 53"
    define b where "b = floorlog 2 (nat \<lfloor>\<bar>v\<bar>\<rfloor>) - 53"
    have ab: "s = 2 ^ a" "t = 2 ^ b" by (simp_all add: s_def t_def float_step_def a_def b_def)
    with st(3) have "Suc a \<le> b" by (simp add: Suc_le_eq)
    then have "(2 :: real) ^ Suc a \<le> 2 ^ b" by (rule power_increasing) simp
    then show ?thesis by (simp add: ab)
  qed
  have "u / s \<le> of_int (2 ^ 53)" using float_step_bounds(1) [of u] assms(1) by (simp add: s_def)
  then have "round_half_even (u / s) \<le> round_half_even (of_int (2 ^ 53))" by (rule round_half_even_mono)
  then have "round_half_even (u / s) \<le> 2 ^ 53" by (simp only: round_half_even_of_int)
  then have "of_int (round_half_even (u / s)) \<le> (2 ^ 53 :: real)"
    by (metis of_int_le_iff of_int_numeral of_int_power)
  then have "round_step u \<le> 2 ^ 53 * s"
    unfolding round_step_def s_def [symmetric] by (intro mult_right_mono) (simp_all add: st(1) less_imp_le)
  also have "\<dots> = 2 ^ 52 * (2 * s)" by simp
  also have "\<dots> \<le> 2 ^ 52 * t" using two by (intro mult_left_mono) simp_all
  also have "\<dots> \<le> round_step v"
  proof -
    have "of_int (2 ^ 52) \<le> v / t" using float_step_bounds(2) [of v] st(4) assms by (simp add: t_def)
    then have "round_half_even (of_int (2 ^ 52)) \<le> round_half_even (v / t)" by (rule round_half_even_mono)
    then have "2 ^ 52 \<le> round_half_even (v / t)" by (simp only: round_half_even_of_int)
    then have "(2 ^ 52 :: real) \<le> of_int (round_half_even (v / t))"
      by (metis of_int_le_iff of_int_numeral of_int_power)
    then show ?thesis
      unfolding round_step_def t_def [symmetric] by (intro mult_right_mono) (simp_all add: st(2) less_imp_le)
  qed
  finally show ?thesis .
qed

lemma round_step_0 [simp]: "round_step 0 = 0"
  by (simp add: round_step_def round_half_even_def)

lemma FLOAT_SCALE_pos [simp]: "0 < FLOAT_SCALE"
  unfolding FLOAT_SCALE_def by (rule zero_less_power) simp

lemma binary64_0 [simp]: "binary64 0 = 0"
  by (simp add: binary64_scaled)

lemma binary64_mono: "0 \<le> x \<Longrightarrow> x \<le> y \<Longrightarrow> binary64 x \<le> binary64 y"
  unfolding binary64_scaled by (intro divide_right_mono round_step_mono mult_right_mono) (simp_all add: less_imp_le)

lemma binary64_nonneg: "0 \<le> x \<Longrightarrow> 0 \<le> binary64 x"
  using binary64_mono [of 0 x] by simp

lemma binary64_error: "\<bar>binary64 x - x\<bar> \<le> \<bar>x\<bar> / 2 ^ 53 + 1 / 2 / FLOAT_SCALE"
proof -
  have "binary64 x - x = (round_step (x * FLOAT_SCALE) - x * FLOAT_SCALE) / FLOAT_SCALE"
    using FLOAT_SCALE_pos by (simp add: binary64_scaled diff_divide_distrib less_imp_neq [symmetric])
  then have "\<bar>binary64 x - x\<bar> = \<bar>round_step (x * FLOAT_SCALE) - x * FLOAT_SCALE\<bar> / FLOAT_SCALE"
    by (simp add: abs_divide abs_of_pos)
  also have "\<dots> \<le> (\<bar>x * FLOAT_SCALE\<bar> / 2 ^ 53 + 1 / 2) / FLOAT_SCALE"
    by (intro divide_right_mono round_step_error) (simp add: less_imp_le)
  also have "\<dots> = \<bar>x\<bar> / 2 ^ 53 + 1 / 2 / FLOAT_SCALE"
    using FLOAT_SCALE_pos by (simp add: abs_mult add_divide_distrib abs_of_pos less_imp_neq [symmetric])
  finally show ?thesis .
qed

text \<open>For the sizes that occur here the error is below any digit printed.\<close>

lemma binary64_near:
  assumes "\<bar>x\<bar> \<le> 1000"
  shows "\<bar>binary64 x - x\<bar> \<le> 1 / 1000000000000"
proof -
  have "(2 :: real) ^ 53 \<le> FLOAT_SCALE" unfolding FLOAT_SCALE_def by (rule power_increasing) simp_all
  then have "1 / 2 / FLOAT_SCALE \<le> 1 / 2 / 2 ^ 53" by (intro divide_left_mono) simp_all
  moreover have "\<bar>x\<bar> / 2 ^ 53 \<le> 1000 / 2 ^ 53" using assms by (intro divide_right_mono) simp_all
  ultimately have "\<bar>binary64 x - x\<bar> \<le> 1000 / 2 ^ 53 + 1 / 2 / 2 ^ 53" using binary64_error [of x] by linarith
  also have "\<dots> \<le> 1 / 1000000000000" by simp
  finally show ?thesis .
qed

subsection \<open>What a printed rate says\<close>

lemma percent_str_inject:
  assumes "0 \<le> x" "0 \<le> y" "x \<le> 2" "y \<le> 2" "percent_str x = percent_str y"
  shows "\<bar>x - y\<bar> \<le> 1001 / 1000000"
proof -
  let ?X = "binary64 (x * 100)" and ?Y = "binary64 (y * 100)"
  have "round_half_even (?X * 10) = round_half_even (?Y * 10)"
    using assms(5) fixed_str_1_inject [of ?X ?Y] assms(1,2) binary64_nonneg by (simp add: percent_str_def)
  then have "\<bar>?X * 10 - ?Y * 10\<bar> \<le> 1"
    using round_half_even_near [of "?X * 10"] round_half_even_near [of "?Y * 10"] by linarith
  moreover have "\<bar>?X - x * 100\<bar> \<le> 1 / 1000000000000" "\<bar>?Y - y * 100\<bar> \<le> 1 / 1000000000000"
    using assms by (intro binary64_near; simp)+
  ultimately show ?thesis by linarith
qed

text \<open>With fewer than a thousand trajectories of a kind, the printed rate tells their number.\<close>

lemma ratio_apart:
  assumes "n < 1000" "a < b" "0 < n"
  shows "1 / 999 \<le> real b / real n - real a / real n"
proof -
  have "1 / 999 \<le> 1 / real n" using assms(1,3) by (intro divide_left_mono) simp_all
  also have "\<dots> \<le> (real b - real a) / real n" using assms(2) by (intro divide_right_mono) simp_all
  finally show ?thesis by (simp add: diff_divide_distrib)
qed

lemma rate_unit: "k \<le> n \<Longrightarrow> 0 \<le> real k / real n \<and> real k / real n \<le> 1"
  by (cases "n = 0") simp_all

lemma percent_str_counts:
  assumes "n < 1000" "0 < n" "j \<le> n" "k \<le> n"
  shows "percent_str (binary64 (real j / real n)) = percent_str (binary64 (real k / real n)) \<longleftrightarrow> j = k"
proof -
  let ?x = "\<lambda>k. binary64 (real k / real n)"
  have near: "\<bar>?x k - real k / real n\<bar> \<le> 1 / 1000000000000" "0 \<le> ?x k" "?x k \<le> 2" if "k \<le> n" for k
  proof -
    show "\<bar>?x k - real k / real n\<bar> \<le> 1 / 1000000000000" "0 \<le> ?x k"
      using binary64_near [of "real k / real n"] binary64_nonneg [of "real k / real n"] rate_unit [OF that] by auto
    then show "?x k \<le> 2" using rate_unit [OF that] by linarith
  qed
  have False if "percent_str (?x a) = percent_str (?x b)" "a < b" "b \<le> n" for a b
  proof -
    have "a \<le> n" using that by simp
    from percent_str_inject [OF near(2) near(2) near(3) near(3) that(1)] this that(3)
    have "\<bar>?x a - ?x b\<bar> \<le> 1001 / 1000000" by blast
    with near(1) [OF \<open>a \<le> n\<close>] near(1) [OF that(3)] ratio_apart [OF assms(1) that(2) assms(2)] show False by linarith
  qed
  with assms(3,4) show ?thesis by (metis linorder_neqE_nat)
qed

text \<open>
  The difference of two rates, as Python computes it from the two doubles: never negative when the
  counts are in order, and printed as zero exactly when they are the same.
\<close>

lemma rate_delta:
  assumes "j \<le> k" "k \<le> n"
  defines "delta \<equiv> binary64 (binary64 (real k / real n) - binary64 (real j / real n))"
  shows "signed_percent_str delta = ''+'' @ percent_str delta"
    and "0 < n \<Longrightarrow> n < 1000 \<Longrightarrow> percent_str delta = ''0.0%'' \<longleftrightarrow> k = j"
proof -
  have "real j / real n \<le> real k / real n" using assms(1) by (simp add: divide_right_mono)
  then have le: "binary64 (real j / real n) \<le> binary64 (real k / real n)"
    by (intro binary64_mono) simp_all
  then have nn: "0 \<le> delta" unfolding delta_def by (intro binary64_nonneg) simp
  then show "signed_percent_str delta = ''+'' @ percent_str delta"
    using binary64_nonneg [of "delta * 100"] by (simp add: signed_percent_str_def signed_str_def percent_str_def not_less)
  assume n: "0 < n" "n < 1000"
  have zero: "percent_str 0 = ''0.0%''"
    by (simp add: percent_str_def fixed_str_def round_half_even_def decimals_def nat_str.simps [of 0] char_of_def bit_0)
  show "percent_str delta = ''0.0%'' \<longleftrightarrow> k = j"
  proof
    assume "percent_str delta = ''0.0%''"
    show "k = j"
    proof (rule ccontr)
      assume "k \<noteq> j"
      then have ap: "1 / 999 \<le> real k / real n - real j / real n" using assms(1) n by (intro ratio_apart) simp_all
      have near: "\<bar>binary64 (real i / real n) - real i / real n\<bar> \<le> 1 / 1000000000000" if "i \<le> n" for i
        using rate_unit [OF that] by (intro binary64_near) simp
      let ?d = "binary64 (real k / real n) - binary64 (real j / real n)"
      have jn: "j \<le> n" using assms(1,2) by simp
      have d: "1 / 999 - 2 / 1000000000000 \<le> ?d" "0 \<le> ?d" "?d \<le> 2"
        using near [OF assms(2)] near [OF jn] ap le rate_unit [OF assms(2)] rate_unit [OF jn]
        by linarith+
      then have "\<bar>delta - ?d\<bar> \<le> 1 / 1000000000000" unfolding delta_def by (intro binary64_near) linarith
      with d have big: "1 / 999 - 3 / 1000000000000 \<le> delta" "delta \<le> 3" by linarith+
      let ?X = "binary64 (delta * 100)"
      have "\<bar>?X - delta * 100\<bar> \<le> 1 / 1000000000000" using big nn by (intro binary64_near) linarith
      with big(1) have "6 / 10 < ?X * 10" by linarith
      then have "round_half_even (?X * 10) \<noteq> 0" using round_half_even_near [of "?X * 10"] by auto
      with \<open>percent_str delta = ''0.0%''\<close> zero show False
        using fixed_str_1_inject [of ?X 0] nn binary64_nonneg [of "delta * 100"]
        by (simp add: percent_str_def round_half_even_def [of 0])
    qed
  qed (simp add: delta_def zero)
qed

subsection \<open>Three lines that Python prints\<close>

lemma binary64_at:
  assumes "2 ^ 52 * s \<le> x * FLOAT_SCALE" "x * FLOAT_SCALE < 2 ^ 53 * s" "s = 2 ^ e" "round_half_even (x * FLOAT_SCALE / s) = m"
  shows "binary64 x = of_int m * s / FLOAT_SCALE"
proof -
  have s: "0 < s" using assms(3) by simp
  have u: "0 \<le> x * FLOAT_SCALE" using assms(1) s by (smt (verit) mult_nonneg_nonneg zero_le_power zero_le_numeral)
  define k where "k = nat \<lfloor>x * FLOAT_SCALE\<rfloor>"
  have "2 ^ (52 + e) \<le> k"
  proof -
    have "real_of_int (2 ^ (52 + e)) \<le> x * FLOAT_SCALE" using assms(1,3) by (simp only: power_add) simp
    then have "2 ^ (52 + e) \<le> \<lfloor>x * FLOAT_SCALE\<rfloor>" by (simp only: le_floor_iff)
    then have "nat (2 ^ (52 + e)) \<le> k" unfolding k_def by (rule nat_mono)
    then show ?thesis by (simp only: nat_power_eq zero_le_numeral nat_numeral)
  qed
  moreover have "k < 2 ^ (53 + e)"
  proof -
    have "x * FLOAT_SCALE < real_of_int (2 ^ (53 + e))" using assms(2,3) by (simp only: power_add) simp
    then have "\<lfloor>x * FLOAT_SCALE\<rfloor> < 2 ^ (53 + e)" by (simp only: floor_less_iff)
    then have "nat \<lfloor>x * FLOAT_SCALE\<rfloor> < nat (2 ^ (53 + e))" by (subst nat_less_eq_zless) (use u in simp_all)
    then show ?thesis unfolding k_def by (simp only: nat_power_eq zero_le_numeral nat_numeral)
  qed
  ultimately have "floorlog 2 k = 53 + e"
    using floorlog_leI [of k 2 "53 + e"] floorlog_geI [of 2 "53 + e" k] by simp
  then have "float_step (x * FLOAT_SCALE) = s" using u assms(3) by (simp add: float_step_def k_def abs_of_nonneg)
  then show ?thesis by (simp add: binary64_scaled round_step_def assms(4))
qed

lemma printed_rates:
  "percent_str (binary64 (23 / 80)) = ''28.7%''" "percent_str (binary64 (49 / 80)) = ''61.3%''"
  "signed_percent_str (binary64 (binary64 (3 / 20) - binary64 (1 / 80))) = ''+13.7%''"
proof -
  note digits = fixed_str_def decimals_def round_half_even_def nat_str.simps char_of_def bit_0 Let_def
  have d1: "binary64 (23 / 80) = 2589569785738035 / 9007199254740992"
    by (subst binary64_at [where e = 1020 and s = "2 ^ 1020" and m = 5179139571476070])
      (simp_all add: FLOAT_SCALE_def round_half_even_def)
  have d2: "binary64 (64739244643450875 / 2251799813685248) = 8092405580431359 / 281474976710656"
    by (subst binary64_at [where e = 1026 and s = "2 ^ 1026" and m = 8092405580431359])
      (simp_all add: FLOAT_SCALE_def round_half_even_def)
  have d3: "binary64 (49 / 80) = 2758454771764429 / 4503599627370496"
    by (subst binary64_at [where e = 1021 and s = "2 ^ 1021" and m = 5516909543528858])
      (simp_all add: FLOAT_SCALE_def round_half_even_def)
  have d4: "binary64 (68961369294110725 / 1125899906842624) = 8620171161763841 / 140737488355328"
    by (subst binary64_at [where e = 1027 and s = "2 ^ 1027" and m = 8620171161763841])
      (simp_all add: FLOAT_SCALE_def round_half_even_def)
  have d5: "binary64 (3 / 20) = 5404319552844595 / 36028797018963968"
    by (subst binary64_at [where e = 1019 and s = "2 ^ 1019" and m = 5404319552844595])
      (simp_all add: FLOAT_SCALE_def round_half_even_def)
  have d6: "binary64 (1 / 80) = 3602879701896397 / 288230376151711744"
    by (subst binary64_at [where e = 1015 and s = "2 ^ 1015" and m = 7205759403792794])
      (simp_all add: FLOAT_SCALE_def round_half_even_def)
  have d7: "binary64 (39631676720860363 / 288230376151711744) = 4953959590107545 / 36028797018963968"
    by (subst binary64_at [where e = 1019 and s = "2 ^ 1019" and m = 4953959590107545])
      (simp_all add: FLOAT_SCALE_def round_half_even_def)
  have d8: "binary64 (123848989752688625 / 9007199254740992) = 7740561859543039 / 562949953421312"
    by (subst binary64_at [where e = 1025 and s = "2 ^ 1025" and m = 7740561859543039])
      (simp_all add: FLOAT_SCALE_def round_half_even_def)
  have s1: "fixed_str 1 (8092405580431359 / 281474976710656) = ''28.7''"
    by (simp add: digits)
  have s2: "fixed_str 1 (8620171161763841 / 140737488355328) = ''61.3''"
    by (simp add: digits)
  have s3: "fixed_str 1 (7740561859543039 / 562949953421312) = ''13.7''"
    by (simp add: digits)
  show "percent_str (binary64 (23 / 80)) = ''28.7%''" "percent_str (binary64 (49 / 80)) = ''61.3%''"
    "signed_percent_str (binary64 (binary64 (3 / 20) - binary64 (1 / 80))) = ''+13.7%''"
    by (simp_all add: percent_str_def signed_percent_str_def signed_str_def d1 d2 d3 d4 d5 d6 d7 d8 s1 [unfolded One_nat_def] s2 [unfolded One_nat_def] s3 [unfolded One_nat_def])
qed

end
