(* ===== verification/CommandLines.thy ===== *)
theory CommandLines
  imports Baselines Config Floats
begin

section \<open>The command lines of the evaluation modules\<close>

text \<open>
  Models \<open>main\<close>, \<open>_print_report\<close> and \<open>_run_cli\<close> of the six modules of \<open>evaluation/\<close> that can be run:
  \<open>explicit_detectors_baseline.py\<close>, \<open>earliest_onset_baseline.py\<close>,
  \<open>divergence_rescue_analysis.py\<close>, \<open>tiebreak_combination.py\<close>, \<open>context_isolation_comparison.py\<close>
  and \<open>goal_drift_structural_test.py\<close>. A run is the list of what it printed, one string for each
  \<open>print\<close>, and the exception that ended it, if any; what was printed before stays. The numbers \<open>n\<close>
  and \<open>seed\<close> that \<open>argparse\<close> reads are arguments. Shown: what a rate printed with one decimal says,
  that adding goal drift is never printed as a loss, when the baseline comes to its report, and
  that the counts of the rescue analysis are not printed when there was nothing to rescue.
\<close>

subsection \<open>Formatting\<close>

text \<open>
  Rates, averages and differences are kept as exact numbers in the results; where they are printed
  they are the doubles that Python has: a quotient of two integers is the double nearest to the
  exact quotient, and a difference is computed from two such doubles and rounded again.
\<close>

definition rate_str :: "pyfloat \<Rightarrow> string" where
  "rate_str x = percent_str (binary64 x)"

definition delta_str :: "pyfloat \<Rightarrow> pyfloat \<Rightarrow> string" where
  "delta_str x y = signed_percent_str (binary64 (binary64 x - binary64 y))"

definition ljust :: "nat \<Rightarrow> string \<Rightarrow> string" where
  "ljust n s = s @ replicate (n - length s) (CHR '' '')"

definition opt_float_str :: "(pyfloat \<Rightarrow> string) \<Rightarrow> pyfloat option \<Rightarrow> string" where
  "opt_float_str frepr x = (case x of None \<Rightarrow> ''None'' | Some v \<Rightarrow> frepr v)"

subsection \<open>What a run is made in\<close>

text \<open>
  The environment, the Groq client of a key, the constructor of the sentence-transformer library,
  what loading the recorded trajectories prints and returns, the random generator of a seed, the
  two readings of the clock, and how Python writes a float.
\<close>

record 'g cli_world =
  cw_environ :: env
  cw_groq :: "string \<Rightarrow> llm"
  cw_sentence_transformer :: "string \<Rightarrow> string option \<Rightarrow> embedder result"
  cw_loaded :: "string list \<times> extracted_trajectory list result"
  cw_sampler :: "'g sampler"
  cw_random :: "int \<Rightarrow> 'g"
  cw_clock :: "pyfloat \<times> pyfloat"
  cw_float_repr :: "pyfloat \<Rightarrow> string"

type_synonym console = "string list \<times> unit result"

definition cli_end :: console where
  "cli_end = ([], Inr ())"

definition cli_print :: "string list \<Rightarrow> console \<Rightarrow> console" where
  "cli_print printed rest = (printed @ fst rest, snd rest)"

definition cli_try :: "'a result \<Rightarrow> ('a \<Rightarrow> console) \<Rightarrow> console" where
  "cli_try r f = (case r of Inl e \<Rightarrow> ([], Inl e) | Inr a \<Rightarrow> f a)"

text \<open>\<open>os.environ["GROQ_API_KEY"]\<close>.\<close>

definition cli_api_key :: "'g cli_world \<Rightarrow> string result" where
  "cli_api_key W = (case cw_environ W ''GROQ_API_KEY'' of
     None \<Rightarrow> Inl (PyKeyError ''GROQ_API_KEY'') | Some key \<Rightarrow> Inr key)"

definition cli_embedder :: "'g cli_world \<Rightarrow> embedder result" where
  "cli_embedder W = MiniLMEmbedder (cw_sentence_transformer W) MINILM_MODEL_NAME None"

definition cli_content_detector :: "'g cli_world \<Rightarrow> string \<Rightarrow> content_detector" where
  "cli_content_detector W api_key = groq_check_content (cw_groq W api_key) heuristic_check_content"

definition cli_drift_detector :: "'g cli_world \<Rightarrow> string \<Rightarrow> drift_detector" where
  "cli_drift_detector W api_key = GroqDriftDetector (cw_groq W api_key) NullDriftDetector"

definition cli_sample ::
    "'g cli_world \<Rightarrow> int \<Rightarrow> int \<Rightarrow> (extracted_trajectory list \<Rightarrow> extracted_trajectory list \<Rightarrow> console) \<Rightarrow> console" where
  "cli_sample W n seed f =
     cli_print (fst (cw_loaded W))
      (cli_try (build_sample (cw_sampler W) (snd (cw_loaded W)) n (cw_random W seed))
        (\<lambda>(attacks, resisted). f attacks resisted))"

definition sample_line :: "nat \<Rightarrow> nat \<Rightarrow> string" where
  "sample_line n_attacks n_resisted =
     ''Sample: '' @ nat_str n_attacks @ '' real attacks, '' @ nat_str n_resisted @ '' real resisted trajectories''"

subsection \<open>The commands\<close>

definition print_report :: "baseline_comparison_result \<Rightarrow> console" where
  "print_report r =
     (let total = bc_n_attacks r + bc_n_resisted r in
      cli_print [sample_line (bc_n_attacks r) (bc_n_resisted r)]
     (cli_try (py_div (binary64 (bc_elapsed_seconds r)) (real total)) (\<lambda>avg.
      cli_print
       [nl @ ''Elapsed: '' @ fixed_str 1 (binary64 (bc_elapsed_seconds r)) @ ''s for '' @ nat_str total @ '' trajectories (''
          @ fixed_str 2 (binary64 avg) @ ''s/trajectory avg)'',
        nl @ ''=== Baseline A: explicit detectors only (divergence OR content-pattern) ==='',
        ''Recall: '' @ rate_str (bc_recall_explicit r),
        ''FP rate: '' @ rate_str (bc_fp_rate_explicit r),
        nl @ ''=== Baseline B: explicit detectors + goal-drift ==='',
        ''Recall: '' @ rate_str (bc_recall_with_drift r),
        ''FP rate: '' @ rate_str (bc_fp_rate_with_drift r),
        nl @ ''=== Delta (does goal-drift earn its cost?) ==='',
        ''Recall lift: '' @ delta_str (bc_recall_with_drift r) (bc_recall_explicit r),
        ''FP cost: '' @ delta_str (bc_fp_rate_with_drift r) (bc_fp_rate_explicit r)]
      cli_end)))"

definition baseline_main :: "'g cli_world \<Rightarrow> int \<Rightarrow> int \<Rightarrow> console" where
  "baseline_main W n seed =
     cli_try (cli_api_key W) (\<lambda>api_key.
     cli_try (cli_embedder W) (\<lambda>embed_fn.
     cli_sample W n seed (\<lambda>attacks resisted.
     cli_try (run_baseline embed_fn (cli_content_detector W api_key) (cli_drift_detector W api_key)
                (fst (cw_clock W)) (snd (cw_clock W)) attacks resisted) print_report)))"

text \<open>The median of an odd number of indices is one of them, an integer, and prints as one.\<close>

definition median_str :: "(pyfloat \<Rightarrow> string) \<Rightarrow> nat \<Rightarrow> pyfloat \<Rightarrow> string" where
  "median_str frepr n_flagged m = (if odd n_flagged then int_str \<lfloor>m\<rfloor> else frepr (binary64 m))"

definition onset_lines :: "(pyfloat \<Rightarrow> string) \<Rightarrow> string \<Rightarrow> onset_distribution_summary \<Rightarrow> string list" where
  "onset_lines frepr title s =
     [nl @ ''=== '' @ title @ '' (n='' @ nat_str (od_n_total s) @ '') ==='',
      ''Flagged: '' @ nat_str (od_n_flagged s) @ ''/'' @ nat_str (od_n_total s),
      ''Mean onset index: '' @ opt_float_str (frepr \<circ> binary64) (od_mean_onset_index s),
      ''Median onset index: '' @ opt_float_str (median_str frepr (od_n_flagged s)) (od_median_onset_index s),
      ''Mean onset fraction (position/length): '' @ opt_float_str (frepr \<circ> binary64) (od_mean_onset_fraction s)]"

definition onset_run_cli :: "'g cli_world \<Rightarrow> int \<Rightarrow> int \<Rightarrow> console" where
  "onset_run_cli W n seed =
     cli_try (cli_api_key W) (\<lambda>api_key.
     cli_try (cli_embedder W) (\<lambda>embed_fn.
     cli_sample W n seed (\<lambda>attacks resisted.
     cli_print [sample_line (length attacks) (length resisted)]
    (cli_try (res_map (find_onset_index embed_fn (cli_content_detector W api_key)) attacks) (\<lambda>attack_results.
     cli_try (res_map (find_onset_index embed_fn (cli_content_detector W api_key)) resisted) (\<lambda>resisted_results.
     let attack_summary = summarize_onsets attack_results; resisted_summary = summarize_onsets resisted_results in
     cli_print (onset_lines (cw_float_repr W) ''Real attacks'' attack_summary
       @ onset_lines (cw_float_repr W) ''Real resisted, but flagged = false positives'' resisted_summary
       @ (case (od_mean_onset_fraction attack_summary, od_mean_onset_fraction resisted_summary) of
            (Some a, Some r) \<Rightarrow>
              [nl @ ''=== Delta (does onset position discriminate attacks from FPs?) ==='',
               ''Mean onset fraction diff (attack - FP): '' @ signed_str 3 (binary64 (binary64 a - binary64 r))]
          | _ \<Rightarrow> [])) cli_end))))))"

text \<open>
  The two last lines of a group are one conditional expression each: without a rate the whole line,
  counts included, is \<open> (n/a)\<close>.
\<close>

definition rescue_line :: "string \<Rightarrow> nat \<Rightarrow> nat \<Rightarrow> pyfloat option \<Rightarrow> string" where
  "rescue_line label k n share_of =
     (case share_of of
        None \<Rightarrow> '' (n/a)''
      | Some x \<Rightarrow> label @ nat_str k @ ''/'' @ nat_str n @ '' ('' @ rate_str x @ '')'')"

definition rescue_lines :: "rescue_analysis_result \<Rightarrow> string list" where
  "rescue_lines r =
     [nl @ ''=== Divergence alone (current production behavior) ==='',
      ''Recall: '' @ rate_str (re_divergence_recall r),
      ''FP rate: '' @ rate_str (re_divergence_fp_rate r),
      nl @ ''=== Rescue analysis: does content-pattern catch divergence's misses? ==='',
      ''Real attacks divergence misses: '' @ nat_str (re_n_divergence_missed_attacks r) @ ''/'' @ nat_str (re_n_attacks r),
      rescue_line ''Of those, rescued by content-pattern: '' (re_n_rescued_by_content_pattern r)
        (re_n_divergence_missed_attacks r) (re_rescue_rate r),
      nl @ ''=== Cost analysis: how many NEW false positives does content-pattern add? ==='',
      ''Real resisted divergence correctly clears: '' @ nat_str (re_n_divergence_cleared_resisted r)
        @ ''/'' @ nat_str (re_n_resisted r),
      rescue_line ''Of those, newly flagged by content-pattern: '' (re_n_newly_flagged_by_content_pattern r)
        (re_n_divergence_cleared_resisted r) (re_new_fp_rate_from_content_pattern r)]"

definition rescue_run_cli :: "'g cli_world \<Rightarrow> int \<Rightarrow> int \<Rightarrow> console" where
  "rescue_run_cli W n seed =
     cli_try (cli_api_key W) (\<lambda>api_key.
     cli_try (cli_embedder W) (\<lambda>embed_fn.
     cli_sample W n seed (\<lambda>attacks resisted.
     cli_print [sample_line (length attacks) (length resisted)]
    (cli_try (run_rescue_analysis embed_fn (cli_content_detector W api_key) attacks resisted) (\<lambda>result.
     cli_print (rescue_lines result) cli_end)))))"

text \<open>One turn of the loops over the sample: whether it counts as a hit of the zone, and its sample.\<close>

definition tiebreak_turn ::
    "embedder \<Rightarrow> content_detector \<Rightarrow> bool \<Rightarrow> extracted_trajectory \<Rightarrow> (bool \<times> calibration_sample) result" where
  "tiebreak_turn embed_fn check_content outcome t =
     res_bind (score_trajectory_divergence embed_fn t) (\<lambda>div_result.
     res_bind (tiebreak_probability embed_fn check_content t) (\<lambda>prob.
     Inr (\<bar>tr_min_similarity div_result - MINILM_DIVERGENCE_THRESHOLD\<bar> \<le> AMBIGUOUS_ZONE_WIDTH,
          \<lparr>sa_predicted_probability = prob, sa_actual_outcome = outcome\<rparr>)))"

definition tiebreak_run_cli :: "'g cli_world \<Rightarrow> console" where
  "tiebreak_run_cli W =
     cli_try (cli_api_key W) (\<lambda>api_key.
     cli_try (cli_embedder W) (\<lambda>embed_fn.
     cli_sample W 120 42 (\<lambda>attacks resisted.
     cli_print [sample_line (length attacks) (length resisted)]
    (cli_try (res_map (tiebreak_turn embed_fn (cli_content_detector W api_key) True) attacks) (\<lambda>on_attacks.
     cli_try (res_map (tiebreak_turn embed_fn (cli_content_detector W api_key) False) resisted) (\<lambda>on_resisted.
     let samples = map snd (on_attacks @ on_resisted); zone_hits = count_true (map fst (on_attacks @ on_resisted)) in
     cli_try (generate_calibration_report samples) (\<lambda>report.
     cli_print
      [nl @ ''Samples in ambiguous zone (used content-pattern tiebreak): '' @ nat_str zone_hits @ ''/''
         @ nat_str (length samples),
       ''Tiebreak combination Brier score: '' @ fixed_str 4 (binary64 (cr_brier_score report)),
       nl @ ''For comparison:'',
       ''  Divergence alone: 0.2333'',
       ''  Binary-flag combination: 0.4146'',
       ''  Continuous-averaged combination: 0.2673''] cli_end)))))))"

definition isolation_lines :: "context_isolation_result \<Rightarrow> string list" where
  "isolation_lines r =
     [nl @ ''=== Input-only (no context) ==='',
      ''Recall: '' @ rate_str (ci_input_only_recall r),
      ''FP rate: '' @ rate_str (ci_input_only_fp_rate r),
      nl @ ''=== Context-aware (task + call history) ==='',
      ''Recall: '' @ rate_str (ci_context_aware_recall r),
      ''FP rate: '' @ rate_str (ci_context_aware_fp_rate r),
      nl @ ''=== Delta (does context help, holding mechanism constant?) ==='',
      ''Recall lift: '' @ delta_str (ci_context_aware_recall r) (ci_input_only_recall r),
      ''FP delta: '' @ delta_str (ci_context_aware_fp_rate r) (ci_input_only_fp_rate r)]"

definition isolation_run_cli :: "'g cli_world \<Rightarrow> int \<Rightarrow> int \<Rightarrow> console" where
  "isolation_run_cli W n seed =
     cli_try (cli_api_key W) (\<lambda>api_key.
     cli_sample W n seed (\<lambda>attacks resisted.
     cli_print [sample_line (length attacks) (length resisted)]
    (cli_try (run_context_isolation_comparison (cw_float_repr W) (cw_groq W api_key) (cw_groq W api_key)
                attacks resisted) (\<lambda>result.
     cli_print (isolation_lines result) cli_end))))"

definition structural_line :: "structural_case_result \<Rightarrow> string" where
  "structural_line r =
     ljust 40 (sr_name r) @ '' '' @ ljust 10 (bool_str (sr_expected_drifted r)) @ '' ''
     @ ljust 10 (bool_str (sr_drift_detector_verdict r)) @ '' ''
     @ ljust 16 (bool_str (sr_input_only_flagged_any r)) @ '' '' @ list_str (sr_input_only_flagged_tools r)"

definition structural_run_cli :: "'g cli_world \<Rightarrow> console" where
  "structural_run_cli W =
     cli_try (cli_api_key W) (\<lambda>api_key.
     cli_try (run_structural_comparison (input_only_classify (cw_groq W api_key)) (cli_drift_detector W api_key)) (\<lambda>results.
     cli_print
      ([ljust 40 ''Case'' @ '' '' @ ljust 10 ''Expected'' @ '' '' @ ljust 10 ''GoalDrift'' @ '' '' @ ljust 16 ''InputOnly (any)'',
        replicate 85 (CHR ''-'')] @ map structural_line results) cli_end))"

subsection \<open>Runs that end\<close>

lemma cli_end_ok [simp]: "cli_end = (out, Inr ()) \<longleftrightarrow> out = []"
  by (auto simp: cli_end_def)

lemma cli_print_ok [simp]:
  "cli_print printed rest = (out, Inr ()) \<longleftrightarrow> (\<exists>more. rest = (more, Inr ()) \<and> out = printed @ more)"
  by (cases rest) (auto simp: cli_print_def)

lemma cli_try_Inr [simp]: "cli_try (Inr a) f = f a"
  by (simp add: cli_try_def)

lemma cli_try_ok [simp]: "cli_try r f = (out, Inr ()) \<longleftrightarrow> (\<exists>a. r = Inr a \<and> f a = (out, Inr ()))"
  by (cases r) (auto simp: cli_try_def)

lemma cli_api_key_ok [simp]: "cli_api_key W = Inr key \<longleftrightarrow> cw_environ W ''GROQ_API_KEY'' = Some key"
  by (auto simp: cli_api_key_def split: option.splits)

subsection \<open>The report of the baseline\<close>

text \<open>What \<open>random.sample\<close> documents: as many elements as asked for, when there are that many.\<close>

definition samples_fully :: "'g sampler \<Rightarrow> bool" where
  "samples_fully sampler \<longleftrightarrow> (\<forall>ts k g. k \<le> length ts \<longrightarrow> length (fst (sampler ts k g)) = k)"

definition recorded :: "bool \<Rightarrow> extracted_trajectory list \<Rightarrow> nat" where
  "recorded outcome ts = length (filter (\<lambda>t. xt_attack_succeeded t = Some outcome \<and> xt_tool_calls t \<noteq> []) ts)"

lemma build_sample_sizes:
  assumes "samples_fully sampler" "build_sample sampler loaded n g = Inr (attacks, resisted)"
  obtains ts where "loaded = Inr ts" "0 \<le> n div 2"
    "length attacks = min (nat (n div 2)) (recorded True ts)"
    "length resisted = min (nat (n div 2)) (recorded False ts)"
proof -
  obtain ts where ts: "loaded = Inr ts" using assms(2) by (auto simp: build_sample_def res_bind_eq_Inr)
  let ?kind = "\<lambda>outcome. filter (\<lambda>t. xt_attack_succeeded t = Some outcome \<and> xt_tool_calls t \<noteq> []) ts"
  let ?draw = "\<lambda>outcome. sampler (?kind outcome) (min (nat (n div 2)) (length (?kind outcome)))"
  have eq: "0 \<le> n div 2 \<and> attacks = fst (?draw True g) \<and> resisted = fst (?draw False (snd (?draw True g)))"
    using assms(2) by (simp add: build_sample_def ts Let_def split_beta split: if_splits)
  moreover have "length (fst (?draw outcome g')) = min (nat (n div 2)) (recorded outcome ts)" for outcome g'
    using assms(1) by (simp add: samples_fully_def recorded_def)
  ultimately show thesis using that [OF ts] by simp
qed

lemma baseline_counts:
  assumes "run_baseline embed_fn d drift start now attacks resisted = Inr b"
  obtains k k' j j' where "0 < length attacks" "0 < length resisted"
    "k \<le> k'" "k' \<le> length attacks" "j \<le> j'" "j' \<le> length resisted"
    "bc_n_attacks b = length attacks" "bc_n_resisted b = length resisted"
    "bc_recall_explicit b = real k / real (length attacks)"
    "bc_recall_with_drift b = real k' / real (length attacks)"
    "bc_fp_rate_explicit b = real j / real (length resisted)"
    "bc_fp_rate_with_drift b = real j' / real (length resisted)"
proof -
  obtain fa fr where *: "res_map (score_trajectory embed_fn d drift) attacks = Inr fa"
    "res_map (score_trajectory embed_fn d drift) resisted = Inr fr" "attacks \<noteq> []" "resisted \<noteq> []"
    "bc_recall_explicit b = real (count_true (map tf_explicit_flag fa)) / real (length attacks)"
    "bc_recall_with_drift b = real (count_true (map tf_with_drift_flag fa)) / real (length attacks)"
    "bc_fp_rate_explicit b = real (count_true (map tf_explicit_flag fr)) / real (length resisted)"
    "bc_fp_rate_with_drift b = real (count_true (map tf_with_drift_flag fr)) / real (length resisted)"
    by (rule run_baselineE [OF assms])
  have sizes: "bc_n_attacks b = length attacks" "bc_n_resisted b = length resisted"
    using assms by (auto simp: run_baseline_def res_bind_eq_Inr Let_def)
  have "count_true (map tf_with_drift_flag fa) \<le> length attacks"
    "count_true (map tf_with_drift_flag fr) \<le> length resisted"
    using count_true_le [of "map tf_with_drift_flag fa"] count_true_le [of "map tf_with_drift_flag fr"]
      score_drift_mono(2) [OF *(1)] score_drift_mono(2) [OF *(2)] by simp_all
  then show thesis
    using that [OF _ _ score_drift_mono(1) [OF *(1)] _ score_drift_mono(1) [OF *(2)] _ sizes] * by auto
qed

lemma delta_str_gain:
  assumes "k \<le> k'" "k' \<le> n"
  shows "delta_str (real k' / real n) (real k / real n)
    = ''+'' @ percent_str (binary64 (binary64 (real k' / real n) - binary64 (real k / real n)))"
  unfolding delta_str_def by (rule rate_delta(1) [OF assms])

text \<open>
  C39: when the baseline command ends without an exception, the key was set, the recordings were
  loaded, both kinds of trajectory were there and \<open>n\<close> was at least 2. It has then printed the
  sizes of its samples, each the smaller of half of \<open>n\<close> and what was recorded, and rates of
  whole counts of them, each the double nearest to its quotient, in which goal drift never loses a
  detection: both deltas, computed from those doubles, carry a plus sign, and with \<open>n\<close> below 2000 a
  delta reads \<open>+0.0%\<close> exactly when goal drift flagged nothing more.
\<close>

theorem baseline_report:
  assumes "samples_fully (cw_sampler W)" "baseline_main W n seed = (out, Inr ())"
  shows "\<exists>key ts a r k k' j j' elapsed lift cost.
      cw_environ W ''GROQ_API_KEY'' = Some key \<and> snd (cw_loaded W) = Inr ts \<and> 2 \<le> n
    \<and> a = min (nat (n div 2)) (recorded True ts) \<and> r = min (nat (n div 2)) (recorded False ts)
    \<and> 0 < a \<and> 0 < r \<and> k \<le> k' \<and> k' \<le> a \<and> j \<le> j' \<and> j' \<le> r
    \<and> lift = binary64 (binary64 (real k' / real a) - binary64 (real k / real a))
    \<and> cost = binary64 (binary64 (real j' / real r) - binary64 (real j / real r))
    \<and> out = fst (cw_loaded W) @ [sample_line a r, elapsed,
        nl @ ''=== Baseline A: explicit detectors only (divergence OR content-pattern) ==='',
        ''Recall: '' @ percent_str (binary64 (real k / real a)), ''FP rate: '' @ percent_str (binary64 (real j / real r)),
        nl @ ''=== Baseline B: explicit detectors + goal-drift ==='',
        ''Recall: '' @ percent_str (binary64 (real k' / real a)), ''FP rate: '' @ percent_str (binary64 (real j' / real r)),
        nl @ ''=== Delta (does goal-drift earn its cost?) ==='',
        ''Recall lift: +'' @ percent_str lift, ''FP cost: +'' @ percent_str cost]
    \<and> (n < 2000 \<longrightarrow> (percent_str lift = ''0.0%'' \<longleftrightarrow> k' = k) \<and> (percent_str cost = ''0.0%'' \<longleftrightarrow> j' = j))"
proof -
  obtain key embed_fn attacks resisted b more where
    key: "cw_environ W ''GROQ_API_KEY'' = Some key"
    and sample: "build_sample (cw_sampler W) (snd (cw_loaded W)) n (cw_random W seed) = Inr (attacks, resisted)"
    and b: "run_baseline embed_fn (cli_content_detector W key) (cli_drift_detector W key)
        (fst (cw_clock W)) (snd (cw_clock W)) attacks resisted = Inr b"
    and out: "print_report b = (more, Inr ())" "out = fst (cw_loaded W) @ more"
    using assms(2) by (auto simp: baseline_main_def cli_sample_def split: prod.splits)
  obtain ts where ts: "snd (cw_loaded W) = Inr ts" "0 \<le> n div 2"
    "length attacks = min (nat (n div 2)) (recorded True ts)"
    "length resisted = min (nat (n div 2)) (recorded False ts)"
    by (rule build_sample_sizes [OF assms(1) sample])
  obtain k k' j j' where c: "0 < length attacks" "0 < length resisted"
    "k \<le> k'" "k' \<le> length attacks" "j \<le> j'" "j' \<le> length resisted"
    and rates: "bc_n_attacks b = length attacks" "bc_n_resisted b = length resisted"
    "bc_recall_explicit b = real k / real (length attacks)"
    "bc_recall_with_drift b = real k' / real (length attacks)"
    "bc_fp_rate_explicit b = real j / real (length resisted)"
    "bc_fp_rate_with_drift b = real j' / real (length resisted)"
    by (rule baseline_counts [OF b])
  define a where "a = length attacks"
  define r where "r = length resisted"
  define lift where "lift = binary64 (binary64 (real k' / real a) - binary64 (real k / real a))"
  define cost where "cost = binary64 (binary64 (real j' / real r) - binary64 (real j / real r))"
  have n2: "2 \<le> n" using c(1) ts(3) by linarith
  have zero: "(percent_str lift = ''0.0%'' \<longleftrightarrow> k' = k) \<and> (percent_str cost = ''0.0%'' \<longleftrightarrow> j' = j)" if "n < 2000"
  proof -
    have "a < 1000" "r < 1000" using that ts(3,4) unfolding a_def r_def by linarith+
    then show ?thesis
      using rate_delta(2) [OF c(3,4) c(1)] rate_delta(2) [OF c(5,6) c(2)] by (simp add: lift_def cost_def a_def r_def)
  qed
  obtain elapsed where "more = [sample_line a r, elapsed,
        nl @ ''=== Baseline A: explicit detectors only (divergence OR content-pattern) ==='',
        ''Recall: '' @ percent_str (binary64 (real k / real a)), ''FP rate: '' @ percent_str (binary64 (real j / real r)),
        nl @ ''=== Baseline B: explicit detectors + goal-drift ==='',
        ''Recall: '' @ percent_str (binary64 (real k' / real a)), ''FP rate: '' @ percent_str (binary64 (real j' / real r)),
        nl @ ''=== Delta (does goal-drift earn its cost?) ==='',
        ''Recall lift: +'' @ percent_str lift, ''FP cost: +'' @ percent_str cost]"
    using out(1) unfolding print_report_def Let_def rates delta_str_gain [OF c(3,4)] delta_str_gain [OF c(5,6)]
      lift_def cost_def a_def r_def rate_str_def by auto
  with out(2) have out': "out = fst (cw_loaded W) @ \<dots>" by simp
  show ?thesis
    by (intro exI conjI; (rule key ts(1) n2 c [folded a_def r_def] ts(3,4) [folded a_def r_def] lift_def cost_def
        out')?) (use zero in blast)
qed

text \<open>A world in which the command comes to its end: the language model is out of reach.\<close>

definition demo_cli :: "unit cli_world" where
  "demo_cli =
     \<lparr>cw_environ = (\<lambda>v. if v = ''GROQ_API_KEY'' then Some ''gsk'' else None), cw_groq = (\<lambda>_ _. Inl (External ''timeout'')),
      cw_sentence_transformer = (\<lambda>_ _. Inr demo_embed),
      cw_loaded = ([], Inr [demo_trajectory\<lparr>xt_attack_succeeded := Some True\<rparr>, demo_trajectory\<lparr>xt_attack_succeeded := Some False\<rparr>]),
      cw_sampler = (\<lambda>ts k g. (take k ts, g)), cw_random = (\<lambda>_. ()), cw_clock = (0, 1), cw_float_repr = (\<lambda>_. [])\<rparr>"

lemma any_suspicious_total: "\<forall>n ps. \<exists>r. d n ps = Inr r \<Longrightarrow> \<exists>b. any_suspicious d calls = Inr b"
proof (induction calls)
  case (Cons call calls)
  then obtain r where "check_call d call = Inr r" unfolding check_call_def by blast
  with Cons show ?case by (cases "cp_is_suspicious r") auto
qed auto

lemma demo_cli_scores:
  "\<exists>f. score_trajectory demo_embed (cli_content_detector demo_cli key) (cli_drift_detector demo_cli key')
     (demo_trajectory\<lparr>xt_attack_succeeded := outcome\<rparr>) = Inr f"
proof -
  have "\<forall>n ps. \<exists>r. cli_content_detector demo_cli key n ps = Inr r"
    by (simp add: cli_content_detector_def demo_cli_def groq_check_content_def heuristic_check_content_def Let_def)
  with any_suspicious_total obtain b where
    "any_suspicious (cli_content_detector demo_cli key) (xt_tool_calls demo_trajectory) = Inr b" by blast
  moreover have "\<exists>r. score_trajectory_divergence demo_embed (demo_trajectory\<lparr>xt_attack_succeeded := outcome\<rparr>) = Inr r"
    by (simp add: score_trajectory_divergence_def demo_trajectory_def tp_start_def demo_embed_def
        generic_call_text_def Let_def)
  moreover have "\<exists>r. cli_drift_detector demo_cli key' task calls = Inr r" for task calls
    by (simp add: cli_drift_detector_def demo_cli_def GroqDriftDetector_def NullDriftDetector_def)
  ultimately show ?thesis by (auto simp: score_trajectory_def Let_def res_bind_eq_Inr)
qed

lemma demo_cli_ends: "\<exists>out. baseline_main demo_cli 2 42 = (out, Inr ())"
proof -
  let ?attack = "demo_trajectory\<lparr>xt_attack_succeeded := Some True\<rparr>"
  let ?resisted = "demo_trajectory\<lparr>xt_attack_succeeded := Some False\<rparr>"
  have sample: "build_sample (cw_sampler demo_cli) (snd (cw_loaded demo_cli)) 2 () = Inr ([?attack], [?resisted])"
    by (simp add: demo_cli_def build_sample_def demo_trajectory_def)
  obtain b where b: "run_baseline demo_embed (cli_content_detector demo_cli ''gsk'') (cli_drift_detector demo_cli ''gsk'')
      (fst (cw_clock demo_cli)) (snd (cw_clock demo_cli)) [?attack] [?resisted] = Inr b"
    and sizes: "bc_n_attacks b = 1" "bc_n_resisted b = 1"
    using demo_cli_scores [of "''gsk''" "''gsk''" "Some True"] demo_cli_scores [of "''gsk''" "''gsk''" "Some False"]
    by (auto simp: run_baseline_def rate_def py_div_def Let_def)
  have "\<exists>out. print_report b = (out, Inr ())"
    by (simp add: print_report_def sizes py_div_def del: cli_try_ok)
  moreover have "cw_environ demo_cli ''GROQ_API_KEY'' = Some ''gsk''" "cli_embedder demo_cli = Inr demo_embed"
    by (simp_all add: demo_cli_def cli_embedder_def MiniLMEmbedder_def)
  ultimately show ?thesis by (simp add: baseline_main_def cli_sample_def sample b)
qed

theorem baseline_report_witness:
  "\<exists>out lift. baseline_main demo_cli 2 42 = (out, Inr ()) \<and> out ! 9 = ''Recall lift: +'' @ percent_str lift"
proof -
  obtain out where out: "baseline_main demo_cli 2 42 = (out, Inr ())" using demo_cli_ends by blast
  have "samples_fully (cw_sampler demo_cli)" by (simp add: samples_fully_def demo_cli_def)
  from baseline_report [OF this out] have "\<exists>lift. out ! 9 = ''Recall lift: +'' @ percent_str lift"
    by (elim exE conjE) (auto simp: demo_cli_def)
  with out show ?thesis by blast
qed

subsection \<open>The other commands\<close>

text \<open>
  When divergence misses nothing, the rescue analysis prints neither the label nor the counts of
  the line that should say so: without a rate the line is the bare \<open> (n/a)\<close>.
\<close>

lemma rescue_lines_without_misses:
  assumes "run_rescue_analysis embed_fn d attacks resisted = Inr r" "re_n_divergence_missed_attacks r = 0"
  shows "rescue_lines r ! 5 = '' (n/a)''"
  using assms by (auto simp: run_rescue_analysis_def res_bind_eq_Inr Let_def share_def rescue_lines_def rescue_line_def)

text \<open>Without the key no command prints anything, and the recordings are not read.\<close>

lemma no_key_no_output:
  assumes "cw_environ W ''GROQ_API_KEY'' = None"
  shows "baseline_main W n seed = ([], Inl (PyKeyError ''GROQ_API_KEY''))"
    "onset_run_cli W n seed = ([], Inl (PyKeyError ''GROQ_API_KEY''))"
    "rescue_run_cli W n seed = ([], Inl (PyKeyError ''GROQ_API_KEY''))"
    "tiebreak_run_cli W = ([], Inl (PyKeyError ''GROQ_API_KEY''))"
    "isolation_run_cli W n seed = ([], Inl (PyKeyError ''GROQ_API_KEY''))"
    "structural_run_cli W = ([], Inl (PyKeyError ''GROQ_API_KEY''))"
  using assms by (simp_all add: baseline_main_def onset_run_cli_def rescue_run_cli_def tiebreak_run_cli_def
      isolation_run_cli_def structural_run_cli_def cli_api_key_def cli_try_def)

end
