(* ===== verification/PlainText.thy ===== *)
theory PlainText
  imports ContentPattern
begin

section \<open>Text the heuristic detector cannot flag\<close>

text \<open>
  A search for one of the patterns of \<open>detectors/content_pattern.py\<close> needs characters and words
  that ordinary parameters do not have: two at signs, nine digits, two commas, a brace, the word
  of a credential or of a digit. \<open>plain_text\<close> collects these conditions, which are cheap to decide,
  and \<open>plain_unmatched\<close> shows that a plain text matches nothing. The analysis is over any pattern:
  \<open>min_hits\<close> counts the characters of a kind that every match has, \<open>yields\<close> gives the words.
\<close>

subsection \<open>Characters that every match has\<close>

fun min_hits :: "(char \<Rightarrow> bool) \<Rightarrow> regex \<Rightarrow> nat" where
  "min_hits P (Cls Q) = (if \<forall>c. Q c \<longrightarrow> P c then 1 else 0)"
| "min_hits P (Cat a b) = min_hits P a + min_hits P b"
| "min_hits P (Alt a b) = min (min_hits P a) (min_hits P b)"
| "min_hits P _ = 0"

definition hits :: "(char \<Rightarrow> bool) \<Rightarrow> string \<Rightarrow> nat" where
  "hits P s = length (filter P s)"

lemma hits_simps [simp]:
  "hits P [] = 0" "hits P (c # s) = (if P c then Suc (hits P s) else hits P s)"
  "hits P (u @ v) = hits P u + hits P v"
  by (simp_all add: hits_def)

lemma steps_over_eq: "steps_over x u y \<Longrightarrow> steps_over x v y \<Longrightarrow> u = v"
  by (simp add: steps_over_def)

lemma mat_hits: "mat r x y \<Longrightarrow> steps_over x w y \<Longrightarrow> min_hits P r \<le> hits P w"
proof (induction arbitrary: w rule: mat.induct)
  case (mat_Cls Q c p s)
  then have "w = [c]" by (simp add: steps_over_def)
  with mat_Cls show ?case by simp
next
  case (mat_Cat a x y b z)
  obtain u v where uv: "steps_over x u y" "steps_over y v z"
    using mat_steps mat_Cat.hyps by blast
  then have "w = u @ v" using mat_Cat.prems steps_over_trans steps_over_eq by blast
  with mat_Cat.IH(1) [OF uv(1)] mat_Cat.IH(2) [OF uv(2)] show ?case by simp
qed (auto intro: min.coboundedI1 min.coboundedI2)

lemma search_hits:
  assumes "re_search r s"
  shows "min_hits P r \<le> hits P s"
proof -
  obtain u t y where s: "s = u @ t" and m: "mat r (last_opt None u, t) y"
    using assms unfolding re_search_def search_from_iff by blast
  obtain w where w: "steps_over (last_opt None u, t) w y" using mat_steps [OF m] by blast
  with mat_hits [OF m w, of P] s show ?thesis by (simp add: steps_over_def)
qed

subsection \<open>Words that every match has\<close>

definition yields :: "string set \<Rightarrow> regex \<Rightarrow> bool" where
  "yields W r \<longleftrightarrow> (\<forall>x w y. mat r x y \<longrightarrow> steps_over x w y \<longrightarrow> (\<exists>k \<in> W. str_in k (str_lower w)))"

named_theorems yields_intros \<open>the words that every match of a pattern has\<close>

lemma str_lower_append [simp]: "str_lower (u @ v) = str_lower u @ str_lower v"
  by (simp add: str_lower_def)

lemma str_in_appendI: "str_in k u \<or> str_in k v \<Longrightarrow> str_in k (u @ v)"
  unfolding str_in_iff by (metis append.assoc)

lemma yields_Cat [yields_intros]: "yields W a \<or> yields W b \<Longrightarrow> yields W (Cat a b)"
  unfolding yields_def
proof (intro allI impI)
  fix x w z
  assume ab: "(\<forall>x w y. mat a x y \<longrightarrow> steps_over x w y \<longrightarrow> (\<exists>k\<in>W. str_in k (str_lower w)))
    \<or> (\<forall>x w y. mat b x y \<longrightarrow> steps_over x w y \<longrightarrow> (\<exists>k\<in>W. str_in k (str_lower w)))"
    and m: "mat (Cat a b) x z" and w: "steps_over x w z"
  from m obtain y where y: "mat a x y" "mat b y z" by (auto simp: mat_Cat_iff)
  obtain u v where uv: "steps_over x u y" "steps_over y v z" using mat_steps y by blast
  then have "w = u @ v" using w steps_over_trans steps_over_eq by blast
  moreover have "\<exists>k \<in> W. str_in k (str_lower u) \<or> str_in k (str_lower v)" using ab y uv by blast
  ultimately show "\<exists>k\<in>W. str_in k (str_lower w)" by (auto intro: str_in_appendI)
qed

lemma yields_Alt [yields_intros]: "yields W a \<Longrightarrow> yields W b \<Longrightarrow> yields W (Alt a b)"
  unfolding yields_def by (auto simp: mat_Alt_iff)

lemma mat_ChI: "mat (ChI c) x y \<Longrightarrow> steps_over x w y \<Longrightarrow> \<exists>d. w = [d] \<and> lower_char d = lower_char c"
  unfolding ChI_def mat_Cls_iff by (auto simp: steps_over_def)

lemma mat_LitI: "mat (LitI k) x y \<Longrightarrow> steps_over x w y \<Longrightarrow> str_lower w = str_lower k"
proof (induction k arbitrary: x w rule: induct_list012)
  case 1
  then show ?case by (auto simp: LitI_def str_lower_def steps_over_def elim!: mat_EpsE)
next
  case (2 c)
  then show ?case using mat_ChI by (fastforce simp: LitI_def str_lower_def)
next
  case (3 c d k)
  then obtain z where z: "mat (ChI c) x z" "mat (LitI (d # k)) z y" by (auto simp: LitI_def mat_Cat_iff)
  obtain u v where uv: "steps_over x u z" "steps_over z v y" using mat_steps z by blast
  then have "w = u @ v" using "3.prems"(2) steps_over_trans steps_over_eq by blast
  with mat_ChI [OF z(1) uv(1)] "3.IH"(2) [OF z(2) uv(2)] show ?case by (auto simp: str_lower_def)
qed

lemma yields_LitI [yields_intros]: "str_lower k \<in> W \<Longrightarrow> yields W (LitI k)"
  unfolding yields_def using mat_LitI by (metis append.left_neutral append.right_neutral str_in_iff)

lemma search_yields:
  assumes "re_search r s" "yields W r"
  shows "\<exists>k \<in> W. str_in k (str_lower s)"
proof -
  obtain u t y where s: "s = u @ t" and m: "mat r (last_opt None u, t) y"
    using assms(1) unfolding re_search_def search_from_iff by blast
  obtain w where w: "steps_over (last_opt None u, t) w y" using mat_steps [OF m] by blast
  with assms(2) m obtain k where "k \<in> W" "str_in k (str_lower w)" unfolding yields_def by blast
  with w s show ?thesis by (auto simp: steps_over_def intro: str_in_appendI)
qed


subsection \<open>Plain text\<close>

definition credential_words :: "string list" where
  "credential_words = [''password'', ''api'', ''secret'', ''credential'', ''token'']"

definition digit_words :: "string list" where
  "digit_words = [''zero'', ''one'', ''two'', ''three'', ''four'', ''five'', ''six'', ''seven'', ''eight'', ''nine'']"

definition space_or_dash :: "char \<Rightarrow> bool" where
  "space_or_dash c \<longleftrightarrow> is_space c \<or> c = CHR ''-''"

definition plain_text :: "string \<Rightarrow> bool" where
  "plain_text v \<longleftrightarrow> hits (\<lambda>c. c = CHR ''@'') v \<le> 1 \<and> hits is_digit v \<le> 8 \<and> hits (\<lambda>c. c = CHR '','') v \<le> 1
     \<and> hits (\<lambda>c. c = CHR ''{'') v = 0
     \<and> (let l = str_lower v in
          list_all (\<lambda>k. \<not> str_in k l) (''dot'' # credential_words @ SENSITIVE_KEYWORDS)
          \<and> (hits space_or_dash v \<le> 1 \<or> list_all (\<lambda>k. \<not> str_in k l) digit_words))"

lemma pattern_hits:
  "2 \<le> min_hits (\<lambda>c. c = CHR ''@'') bulk_email_pattern" "9 \<le> min_hits is_digit ssn_pattern"
  "16 \<le> min_hits is_digit card_pattern" "2 \<le> min_hits (\<lambda>c. c = CHR '','') csv_pattern"
  "1 \<le> min_hits (\<lambda>c. c = CHR ''{'') json_pattern" "2 \<le> min_hits space_or_dash spelled_digits_pattern"
  by (simp_all add: bulk_email_pattern_def email_pattern_def ssn_pattern_def ssn_core_def card_pattern_def card_core_def
      csv_pattern_def json_pattern_def spelled_digits_pattern_def AtLeast2_def Plus_def Ch_def cls_defs Times_numerals
      dot_cls_def cls_s_def space_or_dash_def)

lemma lower_words [simp]: "k \<in> set (''dot'' # credential_words @ digit_words) \<Longrightarrow> str_lower k = k"
proof -
  have "list_all (\<lambda>k. str_lower k = k) (''dot'' # credential_words @ digit_words)" by code_simp
  then show "k \<in> set (''dot'' # credential_words @ digit_words) \<Longrightarrow> str_lower k = k" by (auto simp: list_all_iff)
qed

lemma pattern_words:
  "yields (set credential_words) keyword_pattern" "yields {''dot''} word_address_pattern"
  "yields (set digit_words) spelled_digits_pattern"
proof -
  have lit: "k \<in> set credential_words \<Longrightarrow> yields (set credential_words) (LitI k)"
    "k \<in> set digit_words \<Longrightarrow> yields (set digit_words) (LitI k)" for k
    by (auto intro!: yields_LitI)
  have "yields (set credential_words) credential_word"
    unfolding credential_word_def alts.simps cats.simps
    by (intro yields_Alt yields_Cat [OF disjI1] lit) (simp_all add: credential_words_def)
  then show "yields (set credential_words) keyword_pattern"
    unfolding keyword_pattern_def cats.simps by (blast intro: yields_Cat)
  have "yields {''dot''} (LitI ''dot'')" by (rule yields_LitI) simp
  then show "yields {''dot''} word_address_pattern"
    unfolding word_address_pattern_def cats.simps Plus_def by (blast intro: yields_Cat)
  have "yields (set digit_words) word_digits"
    unfolding word_digits_def list.map alts.simps
    by (intro yields_Alt lit) (simp_all add: digit_words_def)
  then show "yields (set digit_words) spelled_digits_pattern"
    unfolding spelled_digits_pattern_def cats.simps by (blast intro: yields_Cat)
qed

lemma plain_unmatched:
  assumes "plain_text v"
  shows "matched_in v = []"
proof -
  have few: "\<not> re_search r v" if "n \<le> min_hits P r" "hits P v < n" for P r n
    using search_hits [of r v P] that by linarith
  have absent: "\<not> re_search r v" if "yields (set W) r" "list_all (\<lambda>k. \<not> str_in k (str_lower v)) W" for W r
    using search_yields [of r v "set W"] that by (auto simp: list_all_iff)
  have p: "hits (\<lambda>c. c = CHR ''@'') v \<le> 1" "hits is_digit v \<le> 8" "hits (\<lambda>c. c = CHR '','') v \<le> 1"
    "hits (\<lambda>c. c = CHR ''{'') v = 0" "list_all (\<lambda>k. \<not> str_in k (str_lower v)) [''dot'']"
    "list_all (\<lambda>k. \<not> str_in k (str_lower v)) credential_words"
    "list_all (\<lambda>k. \<not> str_in k (str_lower v)) SENSITIVE_KEYWORDS"
    "hits space_or_dash v \<le> 1 \<or> list_all (\<lambda>k. \<not> str_in k (str_lower v)) digit_words"
    using assms by (simp_all add: plain_text_def Let_def)
  have "\<not> re_search bulk_email_pattern v" "\<not> re_search ssn_pattern v" "\<not> re_search card_pattern v"
    "\<not> re_search csv_pattern v" "\<not> re_search json_pattern v"
    using few [OF pattern_hits(1)] few [OF pattern_hits(2)] few [OF pattern_hits(3)] few [OF pattern_hits(4)]
      few [OF pattern_hits(5)] p(1-4) by simp_all
  moreover have "\<not> re_search keyword_pattern v" by (rule absent [OF pattern_words(1) p(6)])
  moreover have "\<not> re_search word_address_pattern v" by (rule absent [OF _ p(5)]) (simp add: pattern_words)
  moreover have "\<not> re_search spelled_digits_pattern v"
    using p(8) few [OF pattern_hits(6)] absent [OF pattern_words(3)] by auto
  ultimately show ?thesis using p(7)
    by (simp add: matched_in_def STRUCTURED_DATA_PATTERNS_def OBFUSCATED_PATTERNS_def list_all_iff filter_empty_conv)
qed

text \<open>The codes the generators make: a few letters and then digits and dashes.\<close>

definition code_char :: "char \<Rightarrow> bool" where
  "code_char c \<longleftrightarrow> is_digit c \<or> c = CHR ''-''"

definition code_prefixes :: "string list" where
  "code_prefixes = ['''', ''FL'', ''FILE'', ''CONTACT'']"

lemma code_char_props:
  "code_char c \<Longrightarrow> lower_char c = c \<and> c \<noteq> CHR ''@'' \<and> c \<noteq> CHR '','' \<and> c \<noteq> CHR ''{''"
  by (auto simp: code_char_def is_digit_def lower_char_def code_point_def Let_def)

lemma hits_none: "(\<And>c. c \<in> set s \<Longrightarrow> \<not> P c) \<Longrightarrow> hits P s = 0"
  by (simp add: hits_def)

lemma str_in_set: "str_in k v \<Longrightarrow> set k \<subseteq> set v"
  unfolding str_in_iff by auto

lemma code_plain:
  assumes "list_all code_char s" "hits is_digit s \<le> 8" "p \<in> set code_prefixes"
  shows "plain_text (p @ s)"
proof -
  have s: "c \<in> set s \<Longrightarrow> code_char c" for c using assms(1) by (simp add: list_all_iff)
  have low: "str_lower s = s"
    using code_char_props s by (simp add: str_lower_def map_idI)
  have "list_all (\<lambda>p. list_all (\<lambda>k. list_ex (\<lambda>c. c \<notin> set (str_lower p) \<and> \<not> code_char c) k)
      (''dot'' # credential_words @ SENSITIVE_KEYWORDS @ digit_words)
      \<and> hits is_digit p = 0 \<and> list_all (\<lambda>c. c \<noteq> CHR ''@'' \<and> c \<noteq> CHR '','' \<and> c \<noteq> CHR ''{'') p) code_prefixes"
    by code_simp
  then have out: "k \<in> set (''dot'' # credential_words @ SENSITIVE_KEYWORDS @ digit_words) \<Longrightarrow>
      \<exists>c \<in> set k. c \<notin> set (str_lower p) \<and> \<not> code_char c"
    and p: "hits is_digit p = 0" "c \<in> set p \<Longrightarrow> c \<noteq> CHR ''@'' \<and> c \<noteq> CHR '','' \<and> c \<noteq> CHR ''{''" for k c
    using assms(3) unfolding list_all_iff list_ex_iff by blast+
  have "\<not> str_in k (str_lower (p @ s))"
    if "k \<in> set (''dot'' # credential_words @ SENSITIVE_KEYWORDS @ digit_words)" for k
    using out [OF that] s str_in_set [of k "str_lower (p @ s)"] by (auto simp: low)
  moreover have "hits P (p @ s) = 0" if "\<And>c. P c \<Longrightarrow> c = CHR ''@'' \<or> c = CHR '','' \<or> c = CHR ''{''" for P
    using that p(2) s code_char_props by (intro hits_none) fastforce
  ultimately show ?thesis using assms(2) p(1)
    by (auto simp: plain_text_def Let_def list_all_iff)
qed

end
