(* ===== verification/NormalTraffic.thy ===== *)
theory NormalTraffic
  imports PlainText Detectors
begin

section \<open>Generated sessions are plain text\<close>

text \<open>
  Every parameter the generators of \<open>task_sim/session.py\<close> make, from any state of a generator that
  keeps its ranges, is a plain text: a code of a prefix and digits, a date, or one of the texts the
  generators choose from. So the heuristic content detector flags no call of a generated session.
\<close>

lemma nat_str_digits: "list_all is_digit (nat_str n)"
proof (induction n rule: nat_str.induct)
  case (1 n)
  have "is_digit (char_of (48 + k))" if "k < 10" for k :: nat
    using that by (simp add: is_digit_def code_point_def)
  then show ?case using 1 by (subst nat_str.simps) simp
qed

lemma hits_le_length: "hits P s \<le> length s"
  by (simp add: hits_def)

lemma int_str_code:
  assumes "0 \<le> n" "n \<le> 9999"
  shows "list_all code_char (int_str n)" "hits is_digit (int_str n) \<le> 4"
proof -
  have "list_all is_digit (int_str n)" using nat_str_digits assms(1) by (simp add: int_str_def)
  then show "list_all code_char (int_str n)" by (rule list.pred_mono_strong) (simp add: code_char_def)
  show "hits is_digit (int_str n) \<le> 4"
    using int_str_length [of n 3] assms hits_le_length [of is_digit "int_str n"] by simp
qed

lemma pad2_code:
  assumes "0 \<le> n" "n \<le> 99"
  shows "list_all code_char (pad2 n)" "hits is_digit (pad2 n) \<le> 2"
proof -
  have z: "code_char CHR ''0''" by (simp add: code_char_def is_digit_def code_point_def)
  show "list_all code_char (pad2 n)"
    using int_str_code(1) [of n] assms z by (auto simp: pad2_def Let_def list_all_iff)
  have "length (int_str n) \<le> 2" using int_str_length [of n 1] assms by simp
  then show "hits is_digit (pad2 n) \<le> 2"
    using hits_le_length [of is_digit "pad2 n"] by (simp add: pad2_def Let_def)
qed

text \<open>The texts the generators choose from, in portions.\<close>

lemma list_all_split: "list_all P (take n xs) \<Longrightarrow> list_all P (drop n xs) \<Longrightarrow> list_all P xs"
  by (metis append_take_drop_id list_all_append)

lemma pools_plain:
  "list_all plain_text contact_fields" "list_all plain_text flight_origins" "list_all plain_text flight_dests"
  "list_all plain_text contact_names"
  by code_simp+

lemma file_queries_plain: "list_all plain_text file_queries"
  by code_simp

lemma recipients_plain: "list_all plain_text share_recipients"
  by (rule list_all_split [of _ 4]) code_simp+

lemma titles_plain: "list_all plain_text calendar_titles"
  by (rule list_all_split [of _ 6]) code_simp+

lemma bodies_plain1: "list_all plain_text (take 2 reply_bodies)"
  by code_simp

lemma bodies_plain2: "list_all plain_text (take 2 (drop 2 reply_bodies))"
  by code_simp

lemma bodies_plain: "list_all plain_text reply_bodies"
proof -
  have "list_all plain_text (drop 2 (drop 2 reply_bodies))" by code_simp
  then show ?thesis by (intro list_all_split [OF bodies_plain1] list_all_split [OF bodies_plain2])
qed

lemma choice_plain:
  assumes "rng_lawful R" "list_all plain_text pool" "pool \<noteq> []"
  shows "plain_text (fst (rng_choice R pool g))"
  using rng_choice_in [OF assms(1,3) prod.collapse [symmetric]] assms(2) by (auto simp: list_all_iff)

lemma int_plain:
  assumes "rng_lawful R" "0 \<le> a" "a \<le> b" "b \<le> 9999" "p \<in> set code_prefixes"
  shows "plain_text (p @ int_str (fst (rng_randint R a b g)))"
proof -
  have "a \<le> fst (rng_randint R a b g) \<and> fst (rng_randint R a b g) \<le> b"
    using assms(1,3) by (simp add: rng_lawful_def)
  with assms(2,4) have n: "0 \<le> fst (rng_randint R a b g)" "fst (rng_randint R a b g) \<le> 9999" by auto
  show ?thesis using int_str_code(2) [OF n] by (intro code_plain [OF int_str_code(1) [OF n] _ assms(5)]) simp
qed

lemma date_plain:
  assumes "0 \<le> m" "m \<le> 99" "0 \<le> d" "d \<le> 99"
  shows "plain_text (''2026-'' @ pad2 m @ ''-'' @ pad2 d)"
proof -
  have "plain_text ('''' @ (''2026-'' @ pad2 m @ ''-'' @ pad2 d))"
  proof (rule code_plain)
    have y: "list_all code_char ''2026-''" "hits is_digit ''2026-'' = 4" "hits is_digit ''-'' = 0" "list_all code_char ''-''"
      by code_simp+
    then show "list_all code_char (''2026-'' @ pad2 m @ ''-'' @ pad2 d)"
      unfolding list_all_append using pad2_code(1) assms y(1,4) by blast
    show "hits is_digit (''2026-'' @ pad2 m @ ''-'' @ pad2 d) \<le> 8"
      unfolding hits_simps(3) y using pad2_code(2) [of m] pad2_code(2) [of d] assms by linarith
  qed (simp add: code_prefixes_def)
  then show ?thesis by simp
qed

definition params_plain :: "params \<Rightarrow> bool" where
  "params_plain ps \<longleftrightarrow> (\<forall>(k, v) \<in> set ps. plain_text v)"

lemma generated_params_plain:
  assumes "rng_lawful R"
  shows "params_plain (fst (inbox_triage_read_params R g))" "params_plain (fst (inbox_triage_reply_params R g))"
    "params_plain (fst (flight_search_params R g))" "params_plain (fst (flight_book_params R g))"
    "params_plain (fst (calendar_get_params R g))" "params_plain (fst (calendar_add_params R g))"
    "params_plain (fst (file_list_params R g))" "params_plain (fst (file_share_params R g))"
    "params_plain (fst (contact_search_params R g))" "params_plain (fst (contact_update_params R g))"
proof -
  have i: "rng_randint R a b h = (n, h') \<Longrightarrow> 0 \<le> a \<Longrightarrow> a \<le> b \<Longrightarrow> b \<le> 9999 \<Longrightarrow> p \<in> set code_prefixes
      \<Longrightarrow> plain_text (p @ int_str n)" for a b h n h' p
    using int_plain [OF assms, of a b p h] by simp
  have i0: "rng_randint R a b h = (n, h') \<Longrightarrow> 0 \<le> a \<Longrightarrow> a \<le> b \<Longrightarrow> b \<le> 9999 \<Longrightarrow> plain_text (int_str n)" for a b h n h'
    using i [of a b h n h' "[]"] by (simp add: code_prefixes_def)
  have c: "rng_choice R pool h = (v, h') \<Longrightarrow> list_all plain_text pool \<Longrightarrow> pool \<noteq> [] \<Longrightarrow> plain_text v" for pool h v h'
    using choice_plain [OF assms, of pool h] by simp
  have ne: "reply_bodies \<noteq> []" "flight_origins \<noteq> []" "flight_dests \<noteq> []" "calendar_titles \<noteq> []" "file_queries \<noteq> []"
    "share_recipients \<noteq> []" "contact_names \<noteq> []" "contact_fields \<noteq> []"
    by (simp_all add: reply_bodies_def flight_origins_def flight_dests_def calendar_titles_def file_queries_def
        share_recipients_def contact_names_def contact_fields_def)
  have d: "rng_randint R 1 12 h = (m, h1) \<Longrightarrow> rng_randint R 1 28 h1 = (n, h2) \<Longrightarrow>
      plain_text (''2026-'' @ pad2 m @ ''-'' @ pad2 n)" for h m h1 n h2
    using rng_randint_range [OF assms, of 1 12 h m h1] rng_randint_range [OF assms, of 1 28 h1 n h2]
    by (intro date_plain) auto
  show "params_plain (fst (inbox_triage_read_params R g))"
    by (auto simp: params_plain_def inbox_triage_read_params_def split: prod.split intro: i0)
  show "params_plain (fst (inbox_triage_reply_params R g))"
    by (auto simp: params_plain_def inbox_triage_reply_params_def split: prod.split intro: i0 c [OF _ bodies_plain ne(1)])
  show "params_plain (fst (flight_search_params R g))"
    by (auto simp: params_plain_def flight_search_params_def split: prod.split
        intro: c [OF _ pools_plain(2) ne(2)] c [OF _ pools_plain(3) ne(3)])
  show "params_plain (fst (flight_book_params R g))"
    using i [where p = "''FL''"] by (auto simp: params_plain_def flight_book_params_def code_prefixes_def split: prod.split)
  show "params_plain (fst (calendar_get_params R g))"
    using d by (auto simp: params_plain_def calendar_get_params_def split: prod.split)
  show "params_plain (fst (calendar_add_params R g))"
    by (auto simp: params_plain_def calendar_add_params_def split: prod.split intro: c [OF _ titles_plain ne(4)])
  show "params_plain (fst (file_list_params R g))"
    by (auto simp: params_plain_def file_list_params_def split: prod.split intro: c [OF _ file_queries_plain ne(5)])
  show "params_plain (fst (file_share_params R g))"
    using i [where p = "''FILE''"]
    by (auto simp: params_plain_def file_share_params_def code_prefixes_def split: prod.split intro: c [OF _ recipients_plain ne(6)])
  show "params_plain (fst (contact_search_params R g))"
    by (auto simp: params_plain_def contact_search_params_def split: prod.split intro: c [OF _ pools_plain(4) ne(7)])
  show "params_plain (fst (contact_update_params R g))"
    using i [where p = "''CONTACT''"]
    by (auto simp: params_plain_def contact_update_params_def code_prefixes_def split: prod.split intro: c [OF _ pools_plain(1) ne(8)])
qed

lemma session_params_plain:
  assumes "rng_lawful R" "generate_session R tt g = (s, g')" "c \<in> set (ss_calls s)"
  shows "params_plain (tc_params c)"
proof -
  obtain runs where runs: "ss_calls s = concat runs" "list_all2 (run_of R) (template_groups tt) runs"
    by (rule generate_session_shape [OF assms(1,2)])
  from assms(3) runs(1) obtain cs where cs: "cs \<in> set runs" "c \<in> set cs" by auto
  with runs(2) obtain grp where "grp \<in> set (template_groups tt)" "run_of R grp cs"
    by (metis in_set_conv_nth list_all2_conv_all_nth)
  with cs(2) have "grp \<in> set (template_groups tt)" "from_group R grp c" by (auto simp: run_of_def list_all_iff)
  then show ?thesis
    by (cases tt) (auto simp: from_group_step_group generated_params_plain [OF assms(1)])
qed

lemma plain_params_clean:
  "params_plain ps \<Longrightarrow> heuristic_check_content t ps
     = Inr \<lparr>cp_tool_name = t, cp_is_suspicious = False, cp_reasoning = None, cp_matched_patterns = [], cp_confidence = None\<rparr>"
  unfolding heuristic_check_content_def params_plain_def Let_def by (force dest: plain_unmatched)

end
