(* ===== verification/RiskTiers.thy ===== *)
theory RiskTiers
  imports Prelude
begin

section \<open>Tool risk tiers and the tier registry\<close>

text \<open>
  Models \<open>risk_tiers/tiers.py\<close>: the four risk tiers, the fail policy of each, and the registry
  no tool is callable without. A registration is never changed or removed, which is what the
  interception layer relies on when it reads a tier twice.
\<close>

subsection \<open>Tiers and fail policies\<close>

datatype risk_tier = READ_ONLY | REVERSIBLE_WRITE | IRREVERSIBLE_LOW_VALUE | IRREVERSIBLE_HIGH_VALUE

datatype fail_policy = FAIL_OPEN | FAIL_CLOSED

fun tier_fail_policy :: "risk_tier \<Rightarrow> fail_policy" where
  "tier_fail_policy READ_ONLY = FAIL_OPEN"
| "tier_fail_policy REVERSIBLE_WRITE = FAIL_OPEN"
| "tier_fail_policy IRREVERSIBLE_LOW_VALUE = FAIL_CLOSED"
| "tier_fail_policy IRREVERSIBLE_HIGH_VALUE = FAIL_CLOSED"

text \<open>The tiers in the order of what a wrong call can cost.\<close>

fun tier_rank :: "risk_tier \<Rightarrow> nat" where
  "tier_rank READ_ONLY = 0"
| "tier_rank REVERSIBLE_WRITE = 1"
| "tier_rank IRREVERSIBLE_LOW_VALUE = 2"
| "tier_rank IRREVERSIBLE_HIGH_VALUE = 3"

lemma tier_rank_inj [simp]: "tier_rank a = tier_rank b \<longleftrightarrow> a = b"
  by (cases a; cases b) auto

instantiation risk_tier :: linorder
begin

definition less_eq_risk_tier :: "risk_tier \<Rightarrow> risk_tier \<Rightarrow> bool" where
  "less_eq_risk_tier a b \<longleftrightarrow> tier_rank a \<le> tier_rank b"

definition less_risk_tier :: "risk_tier \<Rightarrow> risk_tier \<Rightarrow> bool" where
  "less_risk_tier a b \<longleftrightarrow> tier_rank a < tier_rank b"

instance
  by standard (auto simp: less_eq_risk_tier_def less_risk_tier_def)

end

lemma fail_policy_irreversible: "tier_fail_policy t = FAIL_CLOSED \<longleftrightarrow> IRREVERSIBLE_LOW_VALUE \<le> t"
  by (cases t) (simp_all add: less_eq_risk_tier_def)

subsection \<open>The registry\<close>

record tool_registration =
  tr_tool_name :: string
  tr_tier :: risk_tier

definition tr_fail_policy :: "tool_registration \<Rightarrow> fail_policy" where
  "tr_fail_policy reg = tier_fail_policy (tr_tier reg)"

type_synonym tool_registry = "(string, tool_registration) dict"

definition tier_register ::
    "string \<Rightarrow> risk_tier \<Rightarrow> tool_registry \<Rightarrow> tool_registration result \<times> tool_registry" where
  "tier_register tool_name tier tools =
     (if dict_has tools tool_name then (Inl (DuplicateRegistrationError tool_name), tools)
      else let reg = \<lparr>tr_tool_name = tool_name, tr_tier = tier\<rparr>
           in (Inr reg, dict_set tools tool_name reg))"

definition tier_get :: "string \<Rightarrow> tool_registry \<Rightarrow> tool_registration result" where
  "tier_get tool_name tools =
     (case dict_get tools tool_name of
        Some reg \<Rightarrow> Inr reg
      | None \<Rightarrow> Inl (UnregisteredToolError tool_name))"

text \<open>A registry has one registration per name, filed under its own name.\<close>

definition tiers_ok :: "tool_registry \<Rightarrow> bool" where
  "tiers_ok tools \<longleftrightarrow> dict_ok tools \<and> (\<forall>n reg. dict_get tools n = Some reg \<longrightarrow> tr_tool_name reg = n)"

lemma tiers_ok_Nil [simp]: "tiers_ok []"
  by (simp add: tiers_ok_def)

lemma tier_register_ok [inv_intros]: "tiers_ok tools \<Longrightarrow> tiers_ok (snd (tier_register n t tools))"
  by (auto simp: tiers_ok_def tier_register_def Let_def)

lemma tier_register_keeps:
  "tier_get n tools = Inr reg \<Longrightarrow> tier_get n (snd (tier_register n' t tools)) = Inr reg"
  by (auto simp: tier_get_def tier_register_def dict_has_def Let_def split: option.splits)

lemma tier_register_new:
  "tier_get n tools = Inl e \<Longrightarrow>
     tier_register n t tools = (Inr \<lparr>tr_tool_name = n, tr_tier = t\<rparr>,
       tools @ [(n, \<lparr>tr_tool_name = n, tr_tier = t\<rparr>)])"
  by (auto simp: tier_get_def tier_register_def dict_has_def Let_def dict_get_None_keys dict_set_fresh
      split: option.splits)

text \<open>The registrations of a start-up sequence, in order.\<close>

definition tier_register_all :: "(string \<times> risk_tier) list \<Rightarrow> tool_registry \<Rightarrow> tool_registry" where
  "tier_register_all rs tools = fold (\<lambda>(n, t) ts. snd (tier_register n t ts)) rs tools"

lemma tier_register_all_ok: "tiers_ok tools \<Longrightarrow> tiers_ok (tier_register_all rs tools)"
  unfolding tier_register_all_def
  by (induction rs arbitrary: tools) (auto intro: tier_register_ok)

lemma tier_register_all_keeps:
  "tier_get n tools = Inr reg \<Longrightarrow> tier_get n (tier_register_all rs tools) = Inr reg"
  unfolding tier_register_all_def
  by (induction rs arbitrary: tools) (auto intro: tier_register_keeps)

text \<open>The first registration of a name decides its tier for good.\<close>

lemma tier_register_all_first:
  "tier_get n (tier_register_all rs tools) =
     (case tier_get n tools of
        Inr reg \<Rightarrow> Inr reg
      | Inl e \<Rightarrow> (case map_of rs n of
           Some t \<Rightarrow> Inr \<lparr>tr_tool_name = n, tr_tier = t\<rparr>
         | None \<Rightarrow> Inl (UnregisteredToolError n)))"
proof (induction rs arbitrary: tools)
  case Nil
  then show ?case by (auto simp: tier_register_all_def tier_get_def split: option.splits)
next
  case (Cons r rs)
  obtain m t where r: "r = (m, t)" by (cases r)
  let ?tools = "snd (tier_register m t tools)"
  have split: "tier_register_all (r # rs) tools = tier_register_all rs ?tools"
    by (simp add: tier_register_all_def r)
  have "tier_get n ?tools = (case tier_get n tools of
      Inr reg \<Rightarrow> Inr reg
    | Inl e \<Rightarrow> if n = m then Inr \<lparr>tr_tool_name = n, tr_tier = t\<rparr> else Inl e)"
    by (auto simp: tier_get_def tier_register_def dict_has_def Let_def split: option.splits)
  then show ?case unfolding split Cons.IH
    by (auto simp: r split: sum.splits)
qed

end
