(* ===== verification/FakeTools.thy ===== *)
theory FakeTools
  imports RiskTiers TaskSim
begin

section \<open>The tool registry\<close>

text \<open>
  Models \<open>interception/fake_tools.py\<close>. A call of an implementation is recorded in a log of
  executed calls, which the code does not keep: it is how the properties of the interception
  layer speak of what really ran. Shown: a tool runs only if it has a tier and an
  implementation, a registry built by \<open>register\<close> has both or neither, and the default registry
  serves every tool of the simulated tasks.
\<close>

type_synonym tool_fn = "params \<Rightarrow> params result"
type_synonym executions = "(string \<times> params) list"

record fake_tool_registry =
  ft_tier_registry :: tool_registry
  ft_impls :: "(string, tool_fn) dict"

definition ft_register ::
    "string \<Rightarrow> risk_tier \<Rightarrow> tool_fn \<Rightarrow> fake_tool_registry \<Rightarrow> unit result \<times> fake_tool_registry" where
  "ft_register tool_name tier fn reg =
     (case tier_register tool_name tier (ft_tier_registry reg) of
        (Inl e, tiers) \<Rightarrow> (Inl e, reg\<lparr>ft_tier_registry := tiers\<rparr>)
      | (Inr _, tiers) \<Rightarrow> (Inr (), reg\<lparr>ft_tier_registry := tiers,
           ft_impls := dict_set (ft_impls reg) tool_name fn\<rparr>))"

definition ft_call :: "fake_tool_registry \<Rightarrow> string \<Rightarrow> params \<Rightarrow> executions \<Rightarrow> params result \<times> executions" where
  "ft_call reg tool_name ps executed =
     (case tier_get tool_name (ft_tier_registry reg) of
        Inl e \<Rightarrow> (Inl e, executed)
      | Inr _ \<Rightarrow>
          (case dict_get (ft_impls reg) tool_name of
             None \<Rightarrow> (Inl (UnregisteredToolError tool_name), executed)
           | Some fn \<Rightarrow> (fn ps, executed @ [(tool_name, ps)])))"

subsection \<open>The stub tools\<close>

definition read_inbox :: tool_fn where
  "read_inbox ps = Inr [(''emails_returned'', dict_get_or ps ''count'' ''5''), (''status'', ''ok'')]"

definition reply_to_email :: tool_fn where
  "reply_to_email ps = Inr [(''email_id'', dict_get_or ps ''email_id'' ''''), (''status'', ''sent'')]"

definition search_flights :: tool_fn where
  "search_flights ps = Inr [(''origin'', dict_get_or ps ''origin'' ''''),
     (''destination'', dict_get_or ps ''destination'' ''''), (''results_found'', ''3'')]"

definition book_flight :: tool_fn where
  "book_flight ps = Inr [(''flight_id'', dict_get_or ps ''flight_id'' ''''), (''status'', ''booked'')]"

definition get_calendar :: tool_fn where
  "get_calendar ps = Inr [(''date'', dict_get_or ps ''date'' ''''), (''events_found'', ''2'')]"

definition add_calendar_event :: tool_fn where
  "add_calendar_event ps = Inr [(''title'', dict_get_or ps ''title'' ''''), (''status'', ''created'')]"

definition list_files :: tool_fn where
  "list_files ps = Inr [(''query'', dict_get_or ps ''query'' ''''), (''files_found'', ''2'')]"

definition share_file :: tool_fn where
  "share_file ps = Inr [(''file_id'', dict_get_or ps ''file_id'' ''''), (''status'', ''shared'')]"

definition search_contacts :: tool_fn where
  "search_contacts ps = Inr [(''name'', dict_get_or ps ''name'' ''''), (''contacts_found'', ''1'')]"

definition update_contact :: tool_fn where
  "update_contact ps = Inr [(''contact_id'', dict_get_or ps ''contact_id'' ''''), (''status'', ''updated'')]"

definition send_payment :: tool_fn where
  "send_payment ps = Inr [(''amount'', dict_get_or ps ''amount'' ''''), (''status'', ''sent'')]"

definition set_forwarding_rule :: tool_fn where
  "set_forwarding_rule ps = Inr [(''target'', dict_get_or ps ''target'' ''''), (''status'', ''active'')]"

definition delete_data :: tool_fn where
  "delete_data ps = Inr [(''target'', dict_get_or ps ''target'' ''''), (''status'', ''deleted'')]"

definition modify_permissions :: tool_fn where
  "modify_permissions ps = Inr [(''user'', dict_get_or ps ''user'' ''''), (''status'', ''modified'')]"

definition default_tools :: "(string \<times> risk_tier \<times> tool_fn) list" where
  "default_tools =
    [(''read_inbox'', READ_ONLY, read_inbox),
     (''reply_to_email'', IRREVERSIBLE_LOW_VALUE, reply_to_email),
     (''search_flights'', READ_ONLY, search_flights),
     (''book_flight'', IRREVERSIBLE_LOW_VALUE, book_flight),
     (''get_calendar'', READ_ONLY, get_calendar),
     (''add_calendar_event'', REVERSIBLE_WRITE, add_calendar_event),
     (''list_files'', READ_ONLY, list_files),
     (''share_file'', REVERSIBLE_WRITE, share_file),
     (''search_contacts'', READ_ONLY, search_contacts),
     (''update_contact'', REVERSIBLE_WRITE, update_contact),
     (''send_payment'', IRREVERSIBLE_HIGH_VALUE, send_payment),
     (''set_forwarding_rule'', IRREVERSIBLE_LOW_VALUE, set_forwarding_rule),
     (''delete_data'', IRREVERSIBLE_HIGH_VALUE, delete_data),
     (''modify_permissions'', IRREVERSIBLE_HIGH_VALUE, modify_permissions)]"

text \<open>The registrations one after the other; the first exception ends \<open>build_default_registry\<close>.\<close>

fun ft_register_all ::
    "(string \<times> risk_tier \<times> tool_fn) list \<Rightarrow> fake_tool_registry \<Rightarrow> unit result \<times> fake_tool_registry" where
  "ft_register_all [] reg = (Inr (), reg)"
| "ft_register_all ((n, t, f) # tools) reg = st_bind (ft_register n t f reg) (\<lambda>_. ft_register_all tools)"

definition build_default_registry :: "tool_registry \<Rightarrow> unit result \<times> fake_tool_registry" where
  "build_default_registry tiers =
     ft_register_all default_tools \<lparr>ft_tier_registry = tiers, ft_impls = []\<rparr>"

subsection \<open>Registries built by \<open>register\<close>\<close>

definition ft_complete :: "fake_tool_registry \<Rightarrow> bool" where
  "ft_complete reg \<longleftrightarrow> dict_keys (ft_tier_registry reg) = dict_keys (ft_impls reg)"

lemma ft_complete_register [inv_intros]:
  "ft_complete reg \<Longrightarrow> ft_complete (snd (ft_register n t f reg))"
  by (auto simp: ft_complete_def ft_register_def tier_register_def Let_def dict_has_keys)

lemma ft_complete_register_all: "ft_complete reg \<Longrightarrow> ft_complete (snd (ft_register_all tools reg))"
proof (induction tools arbitrary: reg)
  case (Cons x tools)
  obtain n t f where x: "x = (n, t, f)" by (cases x)
  obtain r reg' where r: "ft_register n t f reg = (r, reg')" by fastforce
  with ft_complete_register [OF Cons.prems, of n t f] have ok: "ft_complete reg'" by simp
  show ?case
  proof (cases r)
    case (Inl e)
    with ok show ?thesis by (simp add: x r)
  next
    case (Inr u)
    with Cons.IH [OF ok] show ?thesis by (simp add: x r)
  qed
qed simp

lemma ft_call_cases:
  obtains (error) e where "ft_call reg n ps ex = (Inl e, ex)" "dict_get (ft_impls reg) n = None \<or> dict_get (ft_tier_registry reg) n = None"
  | (ran) fn where "dict_get (ft_impls reg) n = Some fn" "n \<in> dict_keys (ft_tier_registry reg)"
      "ft_call reg n ps ex = (fn ps, ex @ [(n, ps)])"
proof (cases "dict_get (ft_tier_registry reg) n")
  case None
  then show thesis by (intro error) (simp_all add: ft_call_def tier_get_def)
next
  case (Some tr)
  then have k: "n \<in> dict_keys (ft_tier_registry reg)" using dict_get_None_keys [of "ft_tier_registry reg" n] by auto
  show thesis
  proof (cases "dict_get (ft_impls reg) n")
    case None
    with Some show thesis by (intro error) (simp_all add: ft_call_def tier_get_def)
  next
    case (Some fn)
    with \<open>dict_get (ft_tier_registry reg) n = Some tr\<close> k show thesis
      by (intro ran) (simp_all add: ft_call_def tier_get_def)
  qed
qed

lemma ft_call_complete:
  assumes "ft_complete reg" "tier_get n (ft_tier_registry reg) = Inr tr"
  shows "snd (ft_call reg n ps ex) = ex @ [(n, ps)]"
proof -
  from assms(2) have "dict_get (ft_tier_registry reg) n \<noteq> None" by (auto simp: tier_get_def split: option.splits)
  with assms(1) have "dict_get (ft_impls reg) n \<noteq> None"
    using dict_get_None_keys [of "ft_tier_registry reg" n] dict_get_None_keys [of "ft_impls reg" n]
    by (auto simp: ft_complete_def)
  with assms(2) show ?thesis by (auto simp: ft_call_def)
qed

subsection \<open>The default registry\<close>

definition default_tier_registry :: tool_registry where
  "default_tier_registry = map (\<lambda>(n, t, _). (n, \<lparr>tr_tool_name = n, tr_tier = t\<rparr>)) default_tools"

definition default_registry :: fake_tool_registry where
  "default_registry = \<lparr>ft_tier_registry = default_tier_registry, ft_impls = map (\<lambda>(n, _, f). (n, f)) default_tools\<rparr>"

lemma ft_register_fresh:
  assumes "n \<notin> dict_keys (ft_tier_registry reg)" "n \<notin> dict_keys (ft_impls reg)"
  shows "ft_register n t f reg = (Inr (),
     \<lparr>ft_tier_registry = ft_tier_registry reg @ [(n, \<lparr>tr_tool_name = n, tr_tier = t\<rparr>)],
      ft_impls = ft_impls reg @ [(n, f)]\<rparr>)"
  using assms by (simp add: ft_register_def tier_register_def dict_has_keys Let_def dict_set_fresh)

lemma ft_register_all_fresh:
  "distinct (map fst tools) \<Longrightarrow> set (map fst tools) \<inter> (dict_keys (ft_tier_registry reg) \<union> dict_keys (ft_impls reg)) = {} \<Longrightarrow>
     ft_register_all tools reg = (Inr (),
       \<lparr>ft_tier_registry = ft_tier_registry reg @ map (\<lambda>(n, t, _). (n, \<lparr>tr_tool_name = n, tr_tier = t\<rparr>)) tools,
        ft_impls = ft_impls reg @ map (\<lambda>(n, _, f). (n, f)) tools\<rparr>)"
proof (induction tools arbitrary: reg)
  case (Cons x tools)
  obtain n t f where x: "x = (n, t, f)" by (cases x)
  from Cons.prems have "n \<notin> dict_keys (ft_tier_registry reg)" "n \<notin> dict_keys (ft_impls reg)"
    by (auto simp: x)
  then show ?case using Cons.prems
    by (simp add: x ft_register_fresh Cons.IH dict_keys_def)
qed simp

lemma build_default_registry_eq: "build_default_registry [] = (Inr (), default_registry)"
  unfolding build_default_registry_def
  by (subst ft_register_all_fresh)
    (simp_all add: default_tools_def default_registry_def default_tier_registry_def dict_keys_def)

text \<open>The tiers of the default tools.\<close>

definition default_tier :: "string \<Rightarrow> risk_tier option" where
  "default_tier n = map_of (map (\<lambda>(n, t, _). (n, t)) default_tools) n"

lemma map_of_default:
  "map_of (map (\<lambda>(n, t, _). (n, \<lparr>tr_tool_name = n, tr_tier = t\<rparr>)) xs) n
     = map_option (\<lambda>(t, _). \<lparr>tr_tool_name = n, tr_tier = t\<rparr>) (map_of xs n)"
  "map_of (map (\<lambda>(n, _, f). (n, f)) xs) n = map_option snd (map_of xs n)"
  "map_of (map (\<lambda>(n, t, _). (n, t)) xs) n = map_option fst (map_of xs n)"
  by (induction xs) auto

lemma default_ft_call:
  "map_of default_tools n = Some (t, f) \<Longrightarrow> ft_call default_registry n ps ex = (f ps, ex @ [(n, ps)])"
  by (simp add: ft_call_def default_registry_def default_tier_registry_def tier_get_def map_of_default)

lemma default_tier_get:
  "tier_get n default_tier_registry =
     (case default_tier n of Some t \<Rightarrow> Inr \<lparr>tr_tool_name = n, tr_tier = t\<rparr>
      | None \<Rightarrow> Inl (UnregisteredToolError n))"
  by (simp add: tier_get_def default_tier_registry_def default_tier_def map_of_default split: option.split)

lemma default_tool_lookup:
  "map_of default_tools ''read_inbox'' = Some (READ_ONLY, read_inbox)"
  "map_of default_tools ''reply_to_email'' = Some (IRREVERSIBLE_LOW_VALUE, reply_to_email)"
  "map_of default_tools ''search_flights'' = Some (READ_ONLY, search_flights)"
  "map_of default_tools ''book_flight'' = Some (IRREVERSIBLE_LOW_VALUE, book_flight)"
  "map_of default_tools ''get_calendar'' = Some (READ_ONLY, get_calendar)"
  "map_of default_tools ''add_calendar_event'' = Some (REVERSIBLE_WRITE, add_calendar_event)"
  "map_of default_tools ''list_files'' = Some (READ_ONLY, list_files)"
  "map_of default_tools ''share_file'' = Some (REVERSIBLE_WRITE, share_file)"
  "map_of default_tools ''search_contacts'' = Some (READ_ONLY, search_contacts)"
  "map_of default_tools ''update_contact'' = Some (REVERSIBLE_WRITE, update_contact)"
  "map_of default_tools ''send_payment'' = Some (IRREVERSIBLE_HIGH_VALUE, send_payment)"
  "map_of default_tools ''set_forwarding_rule'' = Some (IRREVERSIBLE_LOW_VALUE, set_forwarding_rule)"
  "map_of default_tools ''delete_data'' = Some (IRREVERSIBLE_HIGH_VALUE, delete_data)"
  "map_of default_tools ''modify_permissions'' = Some (IRREVERSIBLE_HIGH_VALUE, modify_permissions)"
  by (simp_all add: default_tools_def)

lemma default_tool_outputs:
  "\<exists>out. read_inbox ps = Inr out" "\<exists>out. reply_to_email ps = Inr out" "\<exists>out. search_flights ps = Inr out"
  "\<exists>out. book_flight ps = Inr out" "\<exists>out. get_calendar ps = Inr out" "\<exists>out. add_calendar_event ps = Inr out"
  "\<exists>out. list_files ps = Inr out" "\<exists>out. share_file ps = Inr out" "\<exists>out. search_contacts ps = Inr out"
  "\<exists>out. update_contact ps = Inr out"
  by (simp_all add: read_inbox_def reply_to_email_def search_flights_def book_flight_def get_calendar_def
      add_calendar_event_def list_files_def share_file_def search_contacts_def update_contact_def)

text \<open>
  Building the default registry on an empty tier registry succeeds; every tool of a task
  template is then registered and runs without an exception on any parameters, and the tools no
  task uses are the four attack targets, each of which fails closed.
\<close>

theorem default_registry_serves_tasks:
  "\<exists>reg. build_default_registry [] = (Inr (), reg) \<and> ft_complete reg
    \<and> (\<forall>tt. \<forall>n \<in> set (map sg_tool_name (template_groups tt :: unit step_group list)).
          \<exists>out. ft_call reg n ps ex = (Inr out, ex @ [(n, ps)]))
    \<and> (\<forall>n \<in> {''send_payment'', ''set_forwarding_rule'', ''delete_data'', ''modify_permissions''}.
          \<exists>tr. tier_get n (ft_tier_registry reg) = Inr tr \<and> tr_fail_policy tr = FAIL_CLOSED)"
proof (intro exI conjI)
  show "build_default_registry [] = (Inr (), default_registry)" by (rule build_default_registry_eq)
  show "ft_complete default_registry"
    by (simp add: ft_complete_def default_registry_def default_tier_registry_def dict_keys_def default_tools_def)
  show "\<forall>tt. \<forall>n \<in> set (map sg_tool_name (template_groups tt :: unit step_group list)).
          \<exists>out. ft_call default_registry n ps ex = (Inr out, ex @ [(n, ps)])"
  proof (intro allI ballI)
    fix tt n assume "n \<in> set (map sg_tool_name (template_groups tt :: unit step_group list))"
    then show "\<exists>out. ft_call default_registry n ps ex = (Inr out, ex @ [(n, ps)])"
      by (cases tt) (auto simp: step_group_def default_tool_lookup default_ft_call default_tool_outputs)
  qed
  show "\<forall>n \<in> {''send_payment'', ''set_forwarding_rule'', ''delete_data'', ''modify_permissions''}.
          \<exists>tr. tier_get n (ft_tier_registry default_registry) = Inr tr \<and> tr_fail_policy tr = FAIL_CLOSED"
    by (simp add: default_registry_def default_tier_get default_tier_def map_of_default default_tool_lookup
        tr_fail_policy_def)
qed

theorem default_registry_serves_tasks_witness:
  "\<exists>reg. build_default_registry [] = (Inr (), reg) \<and> ft_complete reg"
  using default_registry_serves_tasks [of "[]" "[]"] by blast

end
