(* ===== verification/Observability.thy ===== *)
theory Observability
  imports Prelude
begin

section \<open>Metrics\<close>

text \<open>
  Models \<open>observability/metrics.py\<close>: the Prometheus counters and gauges as a state. A counter
  or gauge with one label is a function of the label's value; a gauge that was never set is
  \<open>None\<close>.
\<close>

record metrics =
  m_actions :: "string \<Rightarrow> nat"
  m_flags :: "string \<Rightarrow> nat"
  m_breaker_state :: "string \<Rightarrow> nat option"
  m_breaker_trips :: "string \<Rightarrow> nat"
  m_queue_depth :: nat
  m_outcomes :: "string \<Rightarrow> nat"

definition metrics0 :: metrics where
  "metrics0 = \<lparr>m_actions = (\<lambda>_. 0), m_flags = (\<lambda>_. 0), m_breaker_state = (\<lambda>_. None),
     m_breaker_trips = (\<lambda>_. 0), m_queue_depth = 0, m_outcomes = (\<lambda>_. 0)\<rparr>"

definition inc :: "string \<Rightarrow> (string \<Rightarrow> nat) \<Rightarrow> string \<Rightarrow> nat" where
  "inc l f = f(l := f l + 1)"

lemma inc_apply [simp]: "inc l f k = f k + (if k = l then 1 else 0)"
  by (simp add: inc_def)

definition record_action :: "string \<Rightarrow> metrics \<Rightarrow> metrics" where
  "record_action response_tier m = m\<lparr>m_actions := inc response_tier (m_actions m)\<rparr>"

definition record_detector_flag :: "string \<Rightarrow> metrics \<Rightarrow> metrics" where
  "record_detector_flag detector_name m = m\<lparr>m_flags := inc detector_name (m_flags m)\<rparr>"

definition record_circuit_breaker_state :: "string \<Rightarrow> bool \<Rightarrow> metrics \<Rightarrow> metrics" where
  "record_circuit_breaker_state breaker_name is_open m =
     m\<lparr>m_breaker_state := (m_breaker_state m)(breaker_name \<mapsto> (if is_open then 1 else 0))\<rparr>"

definition record_circuit_breaker_trip :: "string \<Rightarrow> metrics \<Rightarrow> metrics" where
  "record_circuit_breaker_trip breaker_name m = m\<lparr>m_breaker_trips := inc breaker_name (m_breaker_trips m)\<rparr>"

definition record_approval_outcome :: "string \<Rightarrow> metrics \<Rightarrow> metrics" where
  "record_approval_outcome outcome m = m\<lparr>m_outcomes := inc outcome (m_outcomes m)\<rparr>"

definition set_approval_queue_depth :: "nat \<Rightarrow> metrics \<Rightarrow> metrics" where
  "set_approval_queue_depth depth m = m\<lparr>m_queue_depth := depth\<rparr>"

text \<open>What each of them reads and leaves alone.\<close>

lemma metrics_simps [simp]:
  "m_actions (record_action l m) = inc l (m_actions m)"
  "m_actions (record_detector_flag l m) = m_actions m"
  "m_actions (record_circuit_breaker_state b x m) = m_actions m"
  "m_actions (record_approval_outcome l m) = m_actions m"
  "m_actions (set_approval_queue_depth n m) = m_actions m"
  "m_flags (record_action l m) = m_flags m"
  "m_flags (record_detector_flag l m) = inc l (m_flags m)"
  "m_flags (record_circuit_breaker_state b x m) = m_flags m"
  "m_flags (record_approval_outcome l m) = m_flags m"
  "m_flags (set_approval_queue_depth n m) = m_flags m"
  "m_breaker_state (record_action l m) = m_breaker_state m"
  "m_breaker_state (record_detector_flag l m) = m_breaker_state m"
  "m_breaker_state (record_circuit_breaker_state b x m) = (m_breaker_state m)(b \<mapsto> (if x then 1 else 0))"
  "m_breaker_state (set_approval_queue_depth n m) = m_breaker_state m"
  "m_breaker_trips (record_action l m) = m_breaker_trips m"
  "m_breaker_trips (record_detector_flag l m) = m_breaker_trips m"
  "m_breaker_trips (record_circuit_breaker_state b x m) = m_breaker_trips m"
  "m_breaker_trips (set_approval_queue_depth n m) = m_breaker_trips m"
  "m_queue_depth (record_action l m) = m_queue_depth m"
  "m_queue_depth (record_detector_flag l m) = m_queue_depth m"
  "m_queue_depth (record_circuit_breaker_state b x m) = m_queue_depth m"
  "m_queue_depth (record_approval_outcome l m) = m_queue_depth m"
  "m_queue_depth (set_approval_queue_depth n m) = n"
  "m_outcomes (record_action l m) = m_outcomes m"
  "m_outcomes (record_detector_flag l m) = m_outcomes m"
  "m_outcomes (record_circuit_breaker_state b x m) = m_outcomes m"
  "m_outcomes (record_approval_outcome l m) = inc l (m_outcomes m)"
  "m_outcomes (set_approval_queue_depth n m) = m_outcomes m"
  by (simp_all add: record_action_def record_detector_flag_def record_circuit_breaker_state_def
      record_approval_outcome_def set_approval_queue_depth_def)

end
