(* ===== verification/TierEngine.thy ===== *)
theory TierEngine
  imports RiskTiers Observability
begin

section \<open>The tier engine: response tiers and the approval queue\<close>

text \<open>
  Models \<open>tier_engine/response_tier.py\<close> and \<open>tier_engine/approval_queue.py\<close>. A clock reading is
  an argument of the operation that takes it (\<open>t_check\<close>, \<open>t_expire\<close>, \<open>t_decide\<close>), so that the
  time may advance between two readings of one operation; the identifier \<open>uuid4\<close> returns is an
  argument of \<open>aq_submit\<close>. The queue is a step relation \<open>aq_step\<close> over its operations; shown of
  every reachable state: the gauges and counters agree with the requests, a resolved request is
  never changed, and an expired one can never be approved.
\<close>

subsection \<open>Response tiers\<close>

datatype response_tier = ALLOW | FLAG | REQUIRE_APPROVAL | BLOCK

fun response_tier_value :: "response_tier \<Rightarrow> string" where
  "response_tier_value ALLOW = ''allow''"
| "response_tier_value FLAG = ''flag''"
| "response_tier_value REQUIRE_APPROVAL = ''require_approval''"
| "response_tier_value BLOCK = ''block''"

fun response_rank :: "response_tier \<Rightarrow> nat" where
  "response_rank ALLOW = 0"
| "response_rank FLAG = 1"
| "response_rank REQUIRE_APPROVAL = 2"
| "response_rank BLOCK = 3"

lemma response_rank_inj [simp]: "response_rank a = response_rank b \<longleftrightarrow> a = b"
  by (cases a; cases b) auto

instantiation response_tier :: linorder
begin

definition less_eq_response_tier :: "response_tier \<Rightarrow> response_tier \<Rightarrow> bool" where
  "less_eq_response_tier a b \<longleftrightarrow> response_rank a \<le> response_rank b"

definition less_response_tier :: "response_tier \<Rightarrow> response_tier \<Rightarrow> bool" where
  "less_response_tier a b \<longleftrightarrow> response_rank a < response_rank b"

instance
  by standard (auto simp: less_eq_response_tier_def less_response_tier_def)

end

definition decide_response_tier :: "nat \<Rightarrow> risk_tier \<Rightarrow> response_tier" where
  "decide_response_tier flagged_detector_count tool_tier =
     (if flagged_detector_count = 0 then ALLOW
      else if tool_tier = IRREVERSIBLE_HIGH_VALUE then BLOCK
      else if tool_tier = IRREVERSIBLE_LOW_VALUE then REQUIRE_APPROVAL
      else if flagged_detector_count \<ge> 2 then REQUIRE_APPROVAL
      else FLAG)"

definition executes :: "response_tier \<Rightarrow> bool" where
  "executes t \<longleftrightarrow> t = ALLOW \<or> t = FLAG"

lemma executes_less: "executes t \<longleftrightarrow> t < REQUIRE_APPROVAL"
  by (cases t) (simp_all add: executes_def less_response_tier_def)

lemma decide_executes_iff:
  "executes (decide_response_tier n tier) \<longleftrightarrow> n = 0 \<or> n = 1 \<and> tier < IRREVERSIBLE_LOW_VALUE"
  by (cases tier) (auto simp: decide_response_tier_def executes_def less_risk_tier_def)

lemma decide_mono:
  "n \<le> m \<Longrightarrow> t \<le> t' \<Longrightarrow> decide_response_tier n t \<le> decide_response_tier m t'"
  by (cases t; cases t')
    (auto simp: decide_response_tier_def less_eq_risk_tier_def less_eq_response_tier_def)

subsection \<open>Approval requests and the queue\<close>

datatype approval_outcome = PENDING | APPROVED | DENIED | EXPIRED

fun outcome_value :: "approval_outcome \<Rightarrow> string" where
  "outcome_value PENDING = ''pending''"
| "outcome_value APPROVED = ''approved''"
| "outcome_value DENIED = ''denied''"
| "outcome_value EXPIRED = ''expired''"

lemma outcome_value_inj [simp]: "outcome_value a = outcome_value b \<longleftrightarrow> a = b"
  by (cases a; cases b) auto

datatype approver_role = TASK_INITIATING_USER | OPS_SECURITY_APPROVER

fun approver_role_value :: "approver_role \<Rightarrow> string" where
  "approver_role_value TASK_INITIATING_USER = ''task_initiating_user''"
| "approver_role_value OPS_SECURITY_APPROVER = ''ops_security_approver''"

definition DEFAULT_TIMEOUT_SECONDS :: pyfloat where
  "DEFAULT_TIMEOUT_SECONDS = 30 * 60"

record approval_request =
  ar_request_id :: string
  ar_session_id :: string
  ar_tool_name :: string
  ar_params :: params
  ar_submitted_at :: pyfloat
  ar_outcome :: approval_outcome
  ar_decided_at :: "pyfloat option"
  ar_decided_by_role :: "approver_role option"

record approval_queue =
  aq_timeout_seconds :: pyfloat
  aq_requests :: "(string, approval_request) dict"

type_synonym aq_state = "approval_queue \<times> metrics"

definition aq_empty :: "pyfloat \<Rightarrow> approval_queue" where
  "aq_empty timeout = \<lparr>aq_timeout_seconds = timeout, aq_requests = []\<rparr>"

definition aq_count :: "approval_outcome \<Rightarrow> approval_queue \<Rightarrow> nat" where
  "aq_count out q = count_values (\<lambda>r. ar_outcome r = out) (aq_requests q)"

definition aq_pending_count :: "approval_queue \<Rightarrow> nat" where
  "aq_pending_count q = aq_count PENDING q"

definition aq_put :: "approval_request \<Rightarrow> approval_queue \<Rightarrow> approval_queue" where
  "aq_put r q = q\<lparr>aq_requests := dict_set (aq_requests q) (ar_request_id r) r\<rparr>"

definition new_request :: "string \<Rightarrow> pyfloat \<Rightarrow> string \<Rightarrow> string \<Rightarrow> params \<Rightarrow> approval_request" where
  "new_request rid now session_id tool_name params =
     \<lparr>ar_request_id = rid, ar_session_id = session_id, ar_tool_name = tool_name, ar_params = params,
      ar_submitted_at = now, ar_outcome = PENDING, ar_decided_at = None, ar_decided_by_role = None\<rparr>"

definition aq_submit ::
    "string \<Rightarrow> pyfloat \<Rightarrow> string \<Rightarrow> string \<Rightarrow> params \<Rightarrow> aq_state \<Rightarrow> approval_request \<times> aq_state" where
  "aq_submit rid now session_id tool_name params st =
     (let request = new_request rid now session_id tool_name params;
          q = aq_put request (fst st)
      in (request, q, set_approval_queue_depth (aq_pending_count q) (snd st)))"

definition aq_expire :: "pyfloat \<Rightarrow> approval_request \<Rightarrow> approval_request" where
  "aq_expire now r = r\<lparr>ar_outcome := EXPIRED, ar_decided_at := Some now\<rparr>"

definition aq_get ::
    "string \<Rightarrow> pyfloat \<Rightarrow> pyfloat \<Rightarrow> aq_state \<Rightarrow> approval_request result \<times> aq_state" where
  "aq_get rid t_check t_expire st =
     (case dict_get (aq_requests (fst st)) rid of
        None \<Rightarrow> (Inl (UnknownApprovalRequestError rid), st)
      | Some r \<Rightarrow>
          if ar_outcome r = PENDING \<and> t_check - ar_submitted_at r \<ge> aq_timeout_seconds (fst st)
          then let r' = aq_expire t_expire r;
                   q = aq_put r' (fst st)
               in (Inr r', q, set_approval_queue_depth (aq_pending_count q)
                     (record_approval_outcome (outcome_value EXPIRED) (snd st)))
          else (Inr r, st))"

definition aq_resolve :: "pyfloat \<Rightarrow> bool \<Rightarrow> approver_role \<Rightarrow> approval_request \<Rightarrow> approval_request" where
  "aq_resolve now approved role r =
     r\<lparr>ar_outcome := (if approved then APPROVED else DENIED), ar_decided_at := Some now,
       ar_decided_by_role := Some role\<rparr>"

definition aq_decide ::
    "string \<Rightarrow> bool \<Rightarrow> approver_role \<Rightarrow> pyfloat \<Rightarrow> pyfloat \<Rightarrow> pyfloat \<Rightarrow> aq_state
       \<Rightarrow> approval_request result \<times> aq_state" where
  "aq_decide rid approved approver_role t_check t_expire t_decide st =
     (case aq_get rid t_check t_expire st of
        (Inl e, st') \<Rightarrow> (Inl e, st')
      | (Inr r, st') \<Rightarrow>
          if ar_outcome r \<noteq> PENDING then (Inl (ApprovalAlreadyDecidedError rid), st')
          else let r' = aq_resolve t_decide approved approver_role r;
                   q = aq_put r' (fst st')
               in (Inr r', q, set_approval_queue_depth (aq_pending_count q)
                     (record_approval_outcome (outcome_value (ar_outcome r')) (snd st'))))"

subsection \<open>What the operations keep\<close>

text \<open>
  A request is filed under its own id; it has a decision time exactly when it is resolved, and
  the role of an approver exactly when a person resolved it.
\<close>

definition request_ok :: "approval_request \<Rightarrow> bool" where
  "request_ok r \<longleftrightarrow> (ar_outcome r = PENDING \<longleftrightarrow> ar_decided_at r = None)
     \<and> (ar_outcome r = APPROVED \<or> ar_outcome r = DENIED \<longleftrightarrow> ar_decided_by_role r \<noteq> None)"

definition queue_ok :: "approval_queue \<Rightarrow> bool" where
  "queue_ok q \<longleftrightarrow> dict_ok (aq_requests q)
     \<and> (\<forall>rid r. dict_get (aq_requests q) rid = Some r \<longrightarrow> ar_request_id r = rid \<and> request_ok r)"

text \<open>The gauge shows the pending requests, the counter of an outcome the requests it resolved.\<close>

definition meters_ok :: "aq_state \<Rightarrow> bool" where
  "meters_ok st \<longleftrightarrow> m_queue_depth (snd st) = aq_pending_count (fst st)
     \<and> (\<forall>out. out \<noteq> PENDING \<longrightarrow> m_outcomes (snd st) (outcome_value out) = aq_count out (fst st))"

definition aq_ok :: "aq_state \<Rightarrow> bool" where
  "aq_ok st \<longleftrightarrow> queue_ok (fst st) \<and> meters_ok st"

lemma aq_put_simps [simp]:
  "aq_timeout_seconds (aq_put r q) = aq_timeout_seconds q"
  "dict_get (aq_requests (aq_put r q)) rid
     = (if rid = ar_request_id r then Some r else dict_get (aq_requests q) rid)"
  by (simp_all add: aq_put_def)

lemma request_fields [simp]:
  "ar_request_id (new_request rid now sid tn ps) = rid"
  "ar_outcome (new_request rid now sid tn ps) = PENDING"
  "ar_submitted_at (new_request rid now sid tn ps) = now"
  "ar_request_id (aq_expire now r) = ar_request_id r"
  "ar_outcome (aq_expire now r) = EXPIRED"
  "ar_submitted_at (aq_expire now r) = ar_submitted_at r"
  "ar_request_id (aq_resolve now ok role r) = ar_request_id r"
  "ar_outcome (aq_resolve now ok role r) = (if ok then APPROVED else DENIED)"
  "ar_submitted_at (aq_resolve now ok role r) = ar_submitted_at r"
  by (simp_all add: new_request_def aq_expire_def aq_resolve_def)

lemma request_ok_intros [intro]:
  "request_ok (new_request rid now sid tn ps)"
  "request_ok r \<Longrightarrow> ar_outcome r = PENDING \<Longrightarrow> request_ok (aq_expire now r)"
  "request_ok r \<Longrightarrow> ar_outcome r = PENDING \<Longrightarrow> request_ok (aq_resolve now ok role r)"
  by (auto simp: request_ok_def new_request_def aq_expire_def aq_resolve_def)

lemma queue_ok_put: "queue_ok q \<Longrightarrow> request_ok r \<Longrightarrow> queue_ok (aq_put r q)"
  by (auto simp: queue_ok_def aq_put_def split: if_splits)

lemma aq_count_fresh:
  "dict_get (aq_requests q) (ar_request_id r) = None \<Longrightarrow>
     aq_count out (aq_put r q) = aq_count out q + (if ar_outcome r = out then 1 else 0)"
  by (simp add: aq_count_def aq_put_def dict_get_None_keys count_values_fresh)

lemma aq_count_put:
  "dict_get (aq_requests q) (ar_request_id r') = Some r \<Longrightarrow>
     aq_count out (aq_put r' q) + (if ar_outcome r = out then 1 else 0)
       = aq_count out q + (if ar_outcome r' = out then 1 else 0)"
  using count_values_set [of "aq_requests q" "ar_request_id r'" r "\<lambda>r. ar_outcome r = out" r']
  by (simp add: aq_count_def aq_put_def)

lemma aq_ok_submit [inv_intros]:
  assumes "aq_ok st" "dict_get (aq_requests (fst st)) rid = None"
  shows "aq_ok (snd (aq_submit rid now sid tn ps st))"
  using assms
  by (auto simp: aq_ok_def meters_ok_def aq_submit_def Let_def aq_pending_count_def aq_count_fresh
      intro!: queue_ok_put)

text \<open>One step of a pending request to a resolved one, as \<open>aq_get\<close> and \<open>aq_decide\<close> make it.\<close>

lemma aq_ok_resolved:
  assumes "aq_ok st" "dict_get (aq_requests (fst st)) (ar_request_id r') = Some r"
    and "ar_outcome r = PENDING" "ar_outcome r' \<noteq> PENDING" "request_ok r'"
  shows "aq_ok (aq_put r' (fst st), set_approval_queue_depth (aq_pending_count (aq_put r' (fst st)))
           (record_approval_outcome (outcome_value (ar_outcome r')) (snd st)))"
proof -
  have "aq_count out (aq_put r' (fst st)) = aq_count out (fst st) + (if ar_outcome r' = out then 1 else 0)"
    if "out \<noteq> PENDING" for out
    using aq_count_put [OF assms(2), of out] assms(3) that by simp
  with assms show ?thesis
    by (auto simp: aq_ok_def meters_ok_def intro!: queue_ok_put)
qed

lemma aq_ok_request: "aq_ok st \<Longrightarrow> dict_get (aq_requests (fst st)) rid = Some r \<Longrightarrow>
    ar_request_id r = rid \<and> request_ok r"
  by (auto simp: aq_ok_def queue_ok_def)

lemma aq_get_cases:
  obtains (unknown) "dict_get (aq_requests (fst st)) rid = None"
      "aq_get rid t1 t2 st = (Inl (UnknownApprovalRequestError rid), st)"
  | (expired) r where "dict_get (aq_requests (fst st)) rid = Some r" "ar_outcome r = PENDING"
      "t1 - ar_submitted_at r \<ge> aq_timeout_seconds (fst st)"
      "aq_get rid t1 t2 st = (Inr (aq_expire t2 r), aq_put (aq_expire t2 r) (fst st),
         set_approval_queue_depth (aq_pending_count (aq_put (aq_expire t2 r) (fst st)))
           (record_approval_outcome (outcome_value EXPIRED) (snd st)))"
  | (found) r where "dict_get (aq_requests (fst st)) rid = Some r" "aq_get rid t1 t2 st = (Inr r, st)"
      "ar_outcome r = PENDING \<Longrightarrow> t1 - ar_submitted_at r < aq_timeout_seconds (fst st)"
proof (cases "dict_get (aq_requests (fst st)) rid")
  case None
  then show thesis by (intro unknown) (simp_all add: aq_get_def)
next
  case (Some r)
  show thesis
  proof (cases "ar_outcome r = PENDING \<and> t1 - ar_submitted_at r \<ge> aq_timeout_seconds (fst st)")
    case True
    with Some show thesis by (intro expired) (simp_all add: aq_get_def Let_def)
  next
    case False
    with Some have "aq_get rid t1 t2 st = (Inr r, st)"
      unfolding aq_get_def by (simp only: option.case if_False)
    with Some False show thesis by (intro found) auto
  qed
qed

lemma aq_ok_get [inv_intros]:
  assumes ok: "aq_ok st"
  shows "aq_ok (snd (aq_get rid t1 t2 st))"
proof (cases rule: aq_get_cases [of st rid t1 t2])
  case (expired r)
  with aq_ok_request [OF ok expired(1)] aq_ok_resolved [OF ok, of "aq_expire t2 r" r] show ?thesis
    by (auto simp: request_ok_intros)
qed (use ok in simp_all)

lemma aq_decide_cases:
  obtains (error) e where "aq_decide rid ap role t1 t2 t3 st = (Inl e, snd (aq_get rid t1 t2 st))"
  | (resolved) r where "dict_get (aq_requests (fst st)) rid = Some r" "ar_outcome r = PENDING"
      "t1 - ar_submitted_at r < aq_timeout_seconds (fst st)"
      "aq_decide rid ap role t1 t2 t3 st = (Inr (aq_resolve t3 ap role r),
         aq_put (aq_resolve t3 ap role r) (fst st),
         set_approval_queue_depth (aq_pending_count (aq_put (aq_resolve t3 ap role r) (fst st)))
           (record_approval_outcome (outcome_value (ar_outcome (aq_resolve t3 ap role r))) (snd st)))"
proof (cases rule: aq_get_cases [of st rid t1 t2])
  case (found r)
  show thesis
  proof (cases "ar_outcome r = PENDING")
    case True
    with found show thesis by (intro resolved) (simp_all add: aq_decide_def Let_def)
  next
    case False
    with found show thesis by (intro error) (simp add: aq_decide_def)
  qed
qed (intro error; simp add: aq_decide_def)+

lemma aq_ok_decide [inv_intros]:
  assumes ok: "aq_ok st"
  shows "aq_ok (snd (aq_decide rid ap role t1 t2 t3 st))"
proof (cases rule: aq_decide_cases [of rid ap role t1 t2 t3 st])
  case (error e)
  with aq_ok_get [OF ok] show ?thesis by simp
next
  case (resolved r)
  with aq_ok_request [OF ok resolved(1)] aq_ok_resolved [OF ok, of "aq_resolve t3 ap role r" r]
  show ?thesis by (auto simp: request_ok_intros)
qed

subsection \<open>The queue over time\<close>

text \<open>
  The states a queue can be in, with the time of the last clock reading: the clock is monotonic
  and \<open>uuid4\<close> returns an identifier that is not in use.
\<close>

inductive aq_step :: "pyfloat \<times> aq_state \<Rightarrow> pyfloat \<times> aq_state \<Rightarrow> bool" where
  step_submit: "now \<le> t \<Longrightarrow> dict_get (aq_requests (fst st)) rid = None \<Longrightarrow>
     aq_step (now, st) (t, snd (aq_submit rid t sid tn ps st))"
| step_get: "now \<le> t1 \<Longrightarrow> t1 \<le> t2 \<Longrightarrow> aq_step (now, st) (t2, snd (aq_get rid t1 t2 st))"
| step_decide: "now \<le> t1 \<Longrightarrow> t1 \<le> t2 \<Longrightarrow> t2 \<le> t3 \<Longrightarrow>
     aq_step (now, st) (t3, snd (aq_decide rid ap role t1 t2 t3 st))"

inductive_cases aq_stepE: "aq_step (now, st) (now', st')"

definition aq_reachable :: "pyfloat \<Rightarrow> pyfloat \<times> aq_state \<Rightarrow> bool" where
  "aq_reachable timeout x \<longleftrightarrow> (\<exists>t0. aq_step\<^sup>*\<^sup>* (t0, (aq_empty timeout, metrics0)) x)"

lemma aq_ok_init: "aq_ok (aq_empty timeout, metrics0)"
  by (simp add: aq_ok_def queue_ok_def meters_ok_def aq_empty_def metrics0_def aq_count_def
      aq_pending_count_def)

lemma aq_ok_step: "aq_step (now, st) (now', st') \<Longrightarrow> aq_ok st \<Longrightarrow> aq_ok st'"
  by (erule aq_stepE) (auto intro: aq_ok_submit aq_ok_get aq_ok_decide)

lemma aq_steps_ok: "aq_step\<^sup>*\<^sup>* x y \<Longrightarrow> aq_ok (snd x) \<Longrightarrow> aq_ok (snd y)"
  by (induction rule: rtranclp_induct) (auto dest: aq_ok_step)

lemma aq_reachable_ok: "aq_reachable timeout x \<Longrightarrow> aq_ok (snd x)"
  unfolding aq_reachable_def using aq_ok_init by (auto dest: aq_steps_ok)

text \<open>
  What a later state says of a request: the same call, and the same record once it is resolved.
\<close>

definition request_succ :: "approval_request \<Rightarrow> approval_request \<Rightarrow> bool" where
  "request_succ r r' \<longleftrightarrow> ar_session_id r' = ar_session_id r \<and> ar_tool_name r' = ar_tool_name r
     \<and> ar_params r' = ar_params r \<and> ar_submitted_at r' = ar_submitted_at r
     \<and> (ar_outcome r \<noteq> PENDING \<longrightarrow> r' = r)"

lemma request_succ_refl [simp]: "request_succ r r"
  by (simp add: request_succ_def)

lemma request_succ_trans: "request_succ a b \<Longrightarrow> request_succ b c \<Longrightarrow> request_succ a c"
  by (auto simp: request_succ_def)

lemma request_succ_resolved [simp]:
  "ar_outcome r = PENDING \<Longrightarrow> request_succ r (aq_expire t r)"
  "ar_outcome r = PENDING \<Longrightarrow> request_succ r (aq_resolve t ap role r)"
  by (simp_all add: request_succ_def aq_expire_def aq_resolve_def)

definition aq_extends :: "approval_queue \<Rightarrow> approval_queue \<Rightarrow> bool" where
  "aq_extends q q' \<longleftrightarrow> aq_timeout_seconds q' = aq_timeout_seconds q
     \<and> (\<forall>rid r. dict_get (aq_requests q) rid = Some r \<longrightarrow>
          (\<exists>r'. dict_get (aq_requests q') rid = Some r' \<and> request_succ r r'))"

lemma aq_extends_refl [simp]: "aq_extends q q"
  by (auto simp: aq_extends_def)

lemma aq_extends_trans: "aq_extends a b \<Longrightarrow> aq_extends b c \<Longrightarrow> aq_extends a c"
  unfolding aq_extends_def by (metis request_succ_trans)

lemma aq_extends_put:
  "(\<And>r0. dict_get (aq_requests q) (ar_request_id r) = Some r0 \<Longrightarrow> request_succ r0 r) \<Longrightarrow>
     aq_extends q (aq_put r q)"
  by (auto simp: aq_extends_def)

lemma aq_extends_get:
  assumes "aq_ok st"
  shows "aq_extends (fst st) (fst (snd (aq_get rid t1 t2 st)))"
proof (cases rule: aq_get_cases [of st rid t1 t2])
  case (expired r)
  with aq_ok_request [OF assms expired(1)] show ?thesis
    by (auto intro!: aq_extends_put)
qed simp_all

lemma aq_extends_decide:
  assumes "aq_ok st"
  shows "aq_extends (fst st) (fst (snd (aq_decide rid ap role t1 t2 t3 st)))"
proof (cases rule: aq_decide_cases [of rid ap role t1 t2 t3 st])
  case (error e)
  with aq_extends_get [OF assms] show ?thesis by simp
next
  case (resolved r)
  with aq_ok_request [OF assms resolved(1)] show ?thesis
    by (auto intro!: aq_extends_put)
qed

lemma aq_extends_step:
  "aq_step (now, st) (now', st') \<Longrightarrow> aq_ok st \<Longrightarrow> aq_extends (fst st) (fst st') \<and> now \<le> now'"
  by (erule aq_stepE)
    (auto intro: aq_extends_get aq_extends_decide aq_extends_put simp: aq_submit_def Let_def)

lemma aq_extends_steps:
  "aq_step\<^sup>*\<^sup>* x y \<Longrightarrow> aq_ok (snd x) \<Longrightarrow> aq_extends (fst (snd x)) (fst (snd y)) \<and> fst x \<le> fst y"
proof (induction rule: rtranclp_induct)
  case (step y z)
  then have "aq_ok (snd y)" by (auto dest: aq_steps_ok)
  with step aq_extends_step [of "fst y" "snd y" "fst z" "snd z"] show ?case
    by (auto intro: aq_extends_trans)
qed simp

subsection \<open>Properties\<close>

lemma aq_decide_expired:
  assumes "dict_get (aq_requests (fst st)) rid = Some r" "ar_outcome r = PENDING"
    and "aq_timeout_seconds (fst st) \<le> t1 - ar_submitted_at r"
  shows "aq_decide rid ap role t1 t2 t3 st
    = (Inl (ApprovalAlreadyDecidedError rid), snd (aq_get rid t1 t2 st))"
  using assms by (simp add: aq_decide_def aq_get_def Let_def)

text \<open>
  The response is monotone: more flagged detectors or a riskier tool never get a call a
  weaker response, a call runs unattended only without flags or with a single flag on a tool
  whose effects can be undone, and any flag on a high-value tool blocks it.
\<close>

theorem response_monotone:
  "decide_response_tier n t \<le> decide_response_tier (n + k) (max t t')
     \<and> (executes (decide_response_tier n t) \<longleftrightarrow> n = 0 \<or> n = 1 \<and> t < IRREVERSIBLE_LOW_VALUE)
     \<and> (decide_response_tier n t = BLOCK \<longleftrightarrow> 0 < n \<and> t = IRREVERSIBLE_HIGH_VALUE)"
proof (intro conjI)
  show "decide_response_tier n t \<le> decide_response_tier (n + k) (max t t')"
    by (rule decide_mono) simp_all
  show "decide_response_tier n t = BLOCK \<longleftrightarrow> 0 < n \<and> t = IRREVERSIBLE_HIGH_VALUE"
    by (simp add: decide_response_tier_def)
qed (rule decide_executes_iff)

text \<open>
  C13: in every reachable state of an approval queue the depth gauge is the number of pending
  requests, each outcome counter is the number of requests resolved that way, and every request
  is filed under its id, has a decision time exactly when resolved and an approver's role
  exactly when a person resolved it.
\<close>

theorem approval_queue_consistent:
  assumes "aq_reachable timeout (now, q, m)"
  shows "m_queue_depth m = aq_pending_count q
    \<and> m_outcomes m ''approved'' = aq_count APPROVED q
    \<and> m_outcomes m ''denied'' = aq_count DENIED q
    \<and> m_outcomes m ''expired'' = aq_count EXPIRED q
    \<and> queue_ok q"
proof -
  have "aq_ok (q, m)" using aq_reachable_ok [OF assms] by simp
  then show ?thesis by (auto simp: aq_ok_def meters_ok_def simp flip: outcome_value.simps)
qed

text \<open>
  C14: once a request is resolved its record never changes again, whatever is submitted, read or
  decided later; a pending one keeps its call and its submission time.
\<close>

theorem approval_decision_final:
  assumes "aq_reachable timeout (now, q, m)" "aq_step\<^sup>*\<^sup>* (now, q, m) (later, q', m')"
    and "dict_get (aq_requests q) rid = Some r"
  shows "\<exists>r'. dict_get (aq_requests q') rid = Some r'
    \<and> (ar_outcome r \<noteq> PENDING \<longrightarrow> r' = r)
    \<and> ar_tool_name r' = ar_tool_name r \<and> ar_params r' = ar_params r
    \<and> ar_submitted_at r' = ar_submitted_at r"
  using aq_extends_steps [OF assms(2)] aq_reachable_ok [OF assms(1)] assms(3)
  by (auto simp: aq_extends_def request_succ_def)

text \<open>
  \<open>decide\<close> succeeds exactly on a known request that is still pending and not yet timed out
  when it is checked, and then returns it with the decision, its time and the approver's
  role; every other call raises.
\<close>

theorem approval_decide_iff:
  "fst (aq_decide rid ap role t1 t2 t3 st) = Inr r' \<longleftrightarrow>
      (\<exists>r. dict_get (aq_requests (fst st)) rid = Some r \<and> ar_outcome r = PENDING
         \<and> t1 - ar_submitted_at r < aq_timeout_seconds (fst st)
         \<and> r' = r\<lparr>ar_outcome := (if ap then APPROVED else DENIED), ar_decided_at := Some t3,
                  ar_decided_by_role := Some role\<rparr>)"
proof
  assume r': "fst (aq_decide rid ap role t1 t2 t3 st) = Inr r'"
  show "\<exists>r. dict_get (aq_requests (fst st)) rid = Some r \<and> ar_outcome r = PENDING
         \<and> t1 - ar_submitted_at r < aq_timeout_seconds (fst st)
         \<and> r' = r\<lparr>ar_outcome := (if ap then APPROVED else DENIED), ar_decided_at := Some t3,
                  ar_decided_by_role := Some role\<rparr>"
    by (cases rule: aq_decide_cases [of rid ap role t1 t2 t3 st])
      (use r' in \<open>auto simp: aq_resolve_def\<close>)
next
  assume "\<exists>r. dict_get (aq_requests (fst st)) rid = Some r \<and> ar_outcome r = PENDING
         \<and> t1 - ar_submitted_at r < aq_timeout_seconds (fst st)
         \<and> r' = r\<lparr>ar_outcome := (if ap then APPROVED else DENIED), ar_decided_at := Some t3,
                  ar_decided_by_role := Some role\<rparr>"
  then show "fst (aq_decide rid ap role t1 t2 t3 st) = Inr r'"
    by (auto simp: aq_decide_def aq_get_def Let_def aq_resolve_def)
qed

subsection \<open>Witnesses\<close>

definition aq_demo1 :: aq_state where
  "aq_demo1 = snd (aq_submit ''r1'' 1 ''s'' ''share_file'' [] (aq_empty 1800, metrics0))"

definition aq_demo2 :: aq_state where
  "aq_demo2 = snd (aq_decide ''r1'' True OPS_SECURITY_APPROVER 5 5 5 aq_demo1)"

definition aq_demo3 :: aq_state where
  "aq_demo3 = snd (aq_get ''r1'' 4000 4000 aq_demo2)"

lemma aq_demo_steps:
  "aq_reachable 1800 (1, aq_demo1)" "aq_reachable 1800 (5, aq_demo2)"
  "aq_step\<^sup>*\<^sup>* (5, aq_demo2) (4000, aq_demo3)"
proof -
  have 1: "aq_step (0, (aq_empty 1800, metrics0)) (1, aq_demo1)"
    unfolding aq_demo1_def by (rule step_submit) (simp_all add: aq_empty_def)
  have 2: "aq_step (1, aq_demo1) (5, aq_demo2)"
    unfolding aq_demo2_def by (rule step_decide) simp_all
  show "aq_step\<^sup>*\<^sup>* (5, aq_demo2) (4000, aq_demo3)"
    unfolding aq_demo3_def by (rule r_into_rtranclp, rule step_get) simp_all
  from 1 2 show "aq_reachable 1800 (1, aq_demo1)" "aq_reachable 1800 (5, aq_demo2)"
    unfolding aq_reachable_def by (blast intro: rtranclp.intros)+
qed

lemma aq_demo_request:
  "dict_get (aq_requests (fst aq_demo2)) ''r1'' = Some \<lparr>ar_request_id = ''r1'',
     ar_session_id = ''s'', ar_tool_name = ''share_file'', ar_params = [], ar_submitted_at = 1,
     ar_outcome = APPROVED, ar_decided_at = Some 5, ar_decided_by_role = Some OPS_SECURITY_APPROVER\<rparr>"
  by (simp add: aq_demo2_def aq_demo1_def aq_submit_def aq_decide_def aq_get_def aq_empty_def
      aq_put_def new_request_def aq_resolve_def Let_def)

theorem approval_queue_consistent_witness:
  "m_queue_depth (snd aq_demo2) = aq_pending_count (fst aq_demo2)
    \<and> m_outcomes (snd aq_demo2) ''approved'' = aq_count APPROVED (fst aq_demo2)"
  using approval_queue_consistent [of 1800 5 "fst aq_demo2" "snd aq_demo2"] aq_demo_steps(2) by simp

theorem approval_decision_final_witness:
  "\<exists>r'. dict_get (aq_requests (fst aq_demo3)) ''r1'' = Some r' \<and> ar_outcome r' = APPROVED"
  using approval_decision_final [of 1800 5 "fst aq_demo2" "snd aq_demo2" 4000 "fst aq_demo3"
      "snd aq_demo3" "''r1''"] aq_demo_steps(2,3) aq_demo_request by simp

end
