(* ===== verification/CircuitBreaker.thy ===== *)
theory CircuitBreaker
  imports Prelude
begin

section \<open>Circuit breakers\<close>

text \<open>
  Models \<open>interception/circuit_breaker.py\<close> and \<open>interception/redis_circuit_breaker.py\<close>. The
  wrapped function is a state transformer \<open>fn\<close> over the caller's world, so that "without
  calling \<open>fn\<close>" means that the world is unchanged. The clock readings of a call are arguments:
  \<open>t_check\<close> by the \<open>state\<close> property, \<open>t_trip\<close> when the breaker trips.

  What \<open>CircuitBreakerProtocol\<close> promises its client is the locale \<open>breaker_contract\<close>, which both
  breakers interpret; the Redis one through a simulation of the in-memory one, with the Redis
  server as a parameter. \<open>breaker_history\<close> says what the in-memory state means: the breaker is
  open exactly when the last \<open>failure_threshold\<close> executed calls failed and the last of them
  less than the recovery timeout ago.
\<close>

datatype circuit_state = CLOSED | OPEN

type_synonym ('w, 'a) wrapped = "'w \<Rightarrow> 'a result \<times> 'w"

subsection \<open>The in-memory breaker\<close>

record circuit_breaker =
  cb_failure_threshold :: nat
  cb_recovery_timeout :: pyfloat
  cb_state :: circuit_state
  cb_failure_count :: nat
  cb_opened_at :: "pyfloat option"

definition cb_new :: "nat \<Rightarrow> pyfloat \<Rightarrow> circuit_breaker" where
  "cb_new threshold recovery = \<lparr>cb_failure_threshold = threshold, cb_recovery_timeout = recovery,
     cb_state = CLOSED, cb_failure_count = 0, cb_opened_at = None\<rparr>"

text \<open>The property \<open>state\<close>.\<close>

definition cb_state_at :: "pyfloat \<Rightarrow> circuit_breaker \<Rightarrow> circuit_state" where
  "cb_state_at now b =
     (case (cb_state b, cb_opened_at b) of
        (OPEN, Some opened) \<Rightarrow> if now - opened \<ge> cb_recovery_timeout b then CLOSED else cb_state b
      | _ \<Rightarrow> cb_state b)"

definition cb_failed :: "pyfloat \<Rightarrow> circuit_breaker \<Rightarrow> circuit_breaker" where
  "cb_failed t_trip b =
     (let b' = b\<lparr>cb_failure_count := cb_failure_count b + 1\<rparr>
      in if cb_failure_count b' \<ge> cb_failure_threshold b'
         then b'\<lparr>cb_state := OPEN, cb_opened_at := Some t_trip\<rparr> else b')"

definition cb_succeeded :: "circuit_breaker \<Rightarrow> circuit_breaker" where
  "cb_succeeded b = b\<lparr>cb_failure_count := 0, cb_state := CLOSED, cb_opened_at := None\<rparr>"

definition cb_call ::
    "pyfloat \<Rightarrow> pyfloat \<Rightarrow> ('w, 'a) wrapped \<Rightarrow> circuit_breaker \<times> 'w \<Rightarrow> 'a result \<times> circuit_breaker \<times> 'w" where
  "cb_call t_check t_trip fn st =
     (if cb_state_at t_check (fst st) = OPEN then (Inl CircuitOpenError, st)
      else (case fn (snd st) of
              (Inl e, w) \<Rightarrow> (Inl e, cb_failed t_trip (fst st), w)
            | (Inr a, w) \<Rightarrow> (Inr a, cb_succeeded (fst st), w)))"

subsection \<open>The contract of a breaker\<close>

text \<open>
  What \<open>intercept_and_call\<close> relies on. \<open>open_at now s\<close> says whether the breaker \<open>s\<close> refuses
  calls at the time \<open>now\<close>.
\<close>

locale breaker_contract =
  fixes open_at :: "pyfloat \<Rightarrow> 's \<Rightarrow> bool"
    and call :: "pyfloat \<Rightarrow> pyfloat \<Rightarrow> ('w, 'a) wrapped \<Rightarrow> 's \<times> 'w \<Rightarrow> 'a result \<times> 's \<times> 'w"
  assumes refuses: "open_at t s \<Longrightarrow> call t t' fn (s, w) = (Inl CircuitOpenError, s, w)"
    and runs: "\<not> open_at t s \<Longrightarrow> fn w = (r, w') \<Longrightarrow> \<exists>s'. call t t' fn (s, w) = (r, s', w')"
    and closes: "\<not> open_at t s \<Longrightarrow> fn w = (Inr a, w') \<Longrightarrow> call t t' fn (s, w) = (r, s', w'') \<Longrightarrow> \<not> open_at u s'"
begin

lemma call_cases:
  obtains (refused) "open_at t s" "call t t' fn (s, w) = (Inl CircuitOpenError, s, w)"
  | (ran) r w' s' where "\<not> open_at t s" "fn w = (r, w')" "call t t' fn (s, w) = (r, s', w')"
proof (cases "open_at t s")
  case True
  then show thesis using refuses by (intro refused)
next
  case False
  obtain r w' where fn: "fn w = (r, w')" by (cases "fn w")
  then have "\<exists>s'. call t t' fn (s, w) = (r, s', w')" by (rule runs [OF False])
  with False fn show thesis by (blast intro: ran)
qed

text \<open>A result can only come from the wrapped function.\<close>

lemma result_from_fn: "call t t' fn (s, w) = (Inr a, s', w') \<Longrightarrow> fn w = (Inr a, w') \<and> \<not> open_at t s"
  by (cases rule: call_cases [of t s t' fn w]) auto

lemma error_from_fn:
  "call t t' fn (s, w) = (Inl e, s', w') \<Longrightarrow> e \<noteq> CircuitOpenError \<Longrightarrow> fn w = (Inl e, w') \<and> \<not> open_at t s"
  by (cases rule: call_cases [of t s t' fn w]) auto

lemma open_error:
  "call t t' fn (s, w) = (Inl CircuitOpenError, s', w') \<Longrightarrow> fst (fn w) \<noteq> Inl CircuitOpenError \<Longrightarrow>
     open_at t s \<and> s' = s \<and> w' = w"
  by (cases rule: call_cases [of t s t' fn w]) auto

lemma world_kept: "(\<And>v. snd (fn v) = v) \<Longrightarrow> call t t' fn (s, w) = (r, s', w') \<Longrightarrow> w' = w"
  by (cases rule: call_cases [of t s t' fn w]) (auto, metis snd_conv)

end

definition cb_open_at :: "pyfloat \<Rightarrow> circuit_breaker \<Rightarrow> bool" where
  "cb_open_at now b \<longleftrightarrow> cb_state_at now b = OPEN"

lemma cb_succeeded_closed [simp]: "cb_state_at now (cb_succeeded b) = CLOSED"
  by (simp add: cb_state_at_def cb_succeeded_def)

interpretation cb: breaker_contract cb_open_at cb_call
  by unfold_locales (auto simp: cb_open_at_def cb_call_def split: sum.splits prod.splits)

subsection \<open>What the state of the in-memory breaker means\<close>

text \<open>
  A history lists the executed calls, the newest first: when the outcome was recorded and
  whether the call succeeded. \<open>cb_run\<close> runs a breaker over attempted calls and keeps the history
  of those it let through.
\<close>

type_synonym attempt = "pyfloat \<times> pyfloat \<times> bool"

definition wrapped_outcome :: "bool \<Rightarrow> (unit, unit) wrapped" where
  "wrapped_outcome ok w = ((if ok then Inr () else Inl (External ''scoring'')), w)"

fun cb_attempt ::
    "attempt \<Rightarrow> circuit_breaker \<times> (pyfloat \<times> bool) list \<Rightarrow> circuit_breaker \<times> (pyfloat \<times> bool) list" where
  "cb_attempt (t_check, t_trip, ok) (b, hist) =
     (case cb_call t_check t_trip (wrapped_outcome ok) (b, ()) of
        (Inl CircuitOpenError, b', _) \<Rightarrow> (b', hist)
      | (_, b', _) \<Rightarrow> (b', (t_trip, ok) # hist))"

definition cb_run ::
    "nat \<Rightarrow> pyfloat \<Rightarrow> attempt list \<Rightarrow> circuit_breaker \<times> (pyfloat \<times> bool) list" where
  "cb_run threshold recovery attempts = fold cb_attempt attempts (cb_new threshold recovery, [])"

definition failure_streak :: "(pyfloat \<times> bool) list \<Rightarrow> nat" where
  "failure_streak hist = length (takeWhile (\<lambda>(_, ok). \<not> ok) hist)"

lemma failure_streak_simps [simp]:
  "failure_streak [] = 0"
  "failure_streak ((t, ok) # hist) = (if ok then 0 else Suc (failure_streak hist))"
  by (simp_all add: failure_streak_def)

definition cb_means :: "nat \<Rightarrow> pyfloat \<Rightarrow> circuit_breaker \<times> (pyfloat \<times> bool) list \<Rightarrow> bool" where
  "cb_means threshold recovery x \<longleftrightarrow> (case x of (b, hist) \<Rightarrow>
     cb_failure_threshold b = threshold \<and> cb_recovery_timeout b = recovery
     \<and> cb_failure_count b = failure_streak hist
     \<and> (if failure_streak hist \<ge> max 1 threshold
        then cb_state b = OPEN \<and> cb_opened_at b = Some (fst (hd hist))
        else cb_state b = CLOSED \<and> cb_opened_at b = None))"

lemma cb_call_outcome:
  "cb_call t t' (wrapped_outcome ok) (b, ()) =
     (if cb_state_at t b = OPEN then (Inl CircuitOpenError, b, ())
      else if ok then (Inr (), cb_succeeded b, ())
      else (Inl (External ''scoring''), cb_failed t' b, ()))"
  by (simp add: cb_call_def wrapped_outcome_def)

lemma cb_means_attempt:
  assumes "cb_means threshold recovery (b, hist)"
  shows "cb_means threshold recovery (cb_attempt (t, t', ok) (b, hist))"
proof -
  have "cb_means threshold recovery (cb_succeeded b, (t', True) # hist)"
    using assms by (auto simp: cb_means_def cb_succeeded_def)
  moreover have "cb_means threshold recovery (cb_failed t' b, (t', False) # hist)"
    using assms by (auto simp: cb_means_def cb_failed_def Let_def split: if_splits)
  ultimately show ?thesis using assms by (simp add: cb_call_outcome)
qed

lemma cb_means_run: "cb_means threshold recovery (cb_run threshold recovery attempts)"
proof -
  have keep: "cb_means threshold recovery x \<Longrightarrow> cb_means threshold recovery (fold cb_attempt attempts x)" for x
  proof (induction attempts arbitrary: x)
    case (Cons a attempts)
    obtain t t' ok where a: "a = (t, t', ok)" by (cases a)
    obtain b hist where x: "x = (b, hist)" by (cases x)
    show ?case using Cons.prems unfolding a x
      by (simp only: fold.simps o_apply) (intro Cons.IH cb_means_attempt)
  qed simp
  show ?thesis
    unfolding cb_run_def by (rule keep) (simp add: cb_means_def cb_new_def)
qed

text \<open>
  C18: after any sequence of attempted calls, the breaker refuses a call at the time \<open>now\<close> exactly
  when the latest executed calls, at least \<open>failure_threshold\<close> of them and at least one, all
  failed, and the last failure is less than the recovery timeout old.
\<close>

theorem breaker_history:
  "case cb_run threshold recovery attempts of (b, hist) \<Rightarrow>
     cb_open_at now b \<longleftrightarrow>
       max 1 threshold \<le> failure_streak hist \<and> now - fst (hd hist) < recovery"
  using cb_means_run [of threshold recovery attempts]
  by (auto simp: cb_means_def cb_open_at_def cb_state_at_def split: prod.splits if_splits)

subsection \<open>The breaker shared through Redis\<close>

text \<open>
  The Redis server is a parameter: the four commands the breaker sends, over a server state
  \<open>'r\<close>. A stored text is kept as the number it prints, \<open>str\<close> and \<open>float\<close> being inverse on the
  floats of the code.
\<close>

datatype redis_value = RInt int | RNum pyfloat

record 'r redis_kv =
  kv_get :: "string \<Rightarrow> 'r \<Rightarrow> redis_value option"
  kv_set :: "string \<Rightarrow> redis_value \<Rightarrow> 'r \<Rightarrow> 'r"
  kv_incr :: "string \<Rightarrow> 'r \<Rightarrow> int \<times> 'r"
  kv_delete :: "string \<Rightarrow> 'r \<Rightarrow> 'r"

text \<open>The documented behaviour of \<open>GET\<close>, \<open>SET\<close>, \<open>INCR\<close> and \<open>DEL\<close>.\<close>

definition redis_kv_lawful :: "'r redis_kv \<Rightarrow> bool" where
  "redis_kv_lawful R \<longleftrightarrow>
     (\<forall>k k' v r. kv_get R k' (kv_set R k v r) = (if k' = k then Some v else kv_get R k' r))
   \<and> (\<forall>k k' r. kv_get R k' (kv_delete R k r) = (if k' = k then None else kv_get R k' r))
   \<and> (\<forall>k r. kv_get R k r = None \<longrightarrow> fst (kv_incr R k r) = 1)
   \<and> (\<forall>k r n. kv_get R k r = Some (RInt n) \<longrightarrow> fst (kv_incr R k r) = n + 1)
   \<and> (\<forall>k k' r. kv_get R k' (snd (kv_incr R k r))
        = (if k' = k then Some (RInt (fst (kv_incr R k r))) else kv_get R k' r))"

definition breaker_key_prefix :: string where
  "breaker_key_prefix = ''simulacrum:breaker''"

definition failure_count_key :: "string \<Rightarrow> string" where
  "failure_count_key breaker_name = breaker_key_prefix @ '':'' @ breaker_name @ '':failure_count''"

definition opened_at_key :: "string \<Rightarrow> string" where
  "opened_at_key breaker_name = breaker_key_prefix @ '':'' @ breaker_name @ '':opened_at''"

lemma breaker_keys_distinct [simp]:
  "failure_count_key n \<noteq> opened_at_key n" "opened_at_key n \<noteq> failure_count_key n"
  by (simp_all add: failure_count_key_def opened_at_key_def)

fun redis_float :: "redis_value \<Rightarrow> pyfloat" where
  "redis_float (RInt n) = of_int n"
| "redis_float (RNum x) = x"

record 'r redis_breaker =
  rb_redis :: "'r redis_kv"
  rb_breaker_name :: string
  rb_failure_threshold :: nat
  rb_recovery_timeout :: pyfloat

definition rb_state_at :: "'r redis_breaker \<Rightarrow> pyfloat \<Rightarrow> 'r \<Rightarrow> circuit_state" where
  "rb_state_at B now r =
     (case kv_get (rb_redis B) (opened_at_key (rb_breaker_name B)) r of
        None \<Rightarrow> CLOSED
      | Some opened_at_raw \<Rightarrow>
          let opened_at = redis_float opened_at_raw
          in if now - opened_at \<ge> rb_recovery_timeout B then CLOSED else OPEN)"

definition rb_call ::
    "'r redis_breaker \<Rightarrow> pyfloat \<Rightarrow> pyfloat \<Rightarrow> ('w, 'a) wrapped \<Rightarrow> 'r \<times> 'w \<Rightarrow> 'a result \<times> 'r \<times> 'w" where
  "rb_call B t_check t_trip fn st =
     (if rb_state_at B t_check (fst st) = OPEN then (Inl CircuitOpenError, st)
      else (case fn (snd st) of
              (Inl e, w) \<Rightarrow>
                let (new_count, r) = kv_incr (rb_redis B) (failure_count_key (rb_breaker_name B)) (fst st)
                in (Inl e,
                    if new_count \<ge> int (rb_failure_threshold B)
                    then kv_set (rb_redis B) (opened_at_key (rb_breaker_name B)) (RNum t_trip) r else r,
                    w)
            | (Inr a, w) \<Rightarrow>
                (Inr a, kv_delete (rb_redis B) (opened_at_key (rb_breaker_name B))
                   (kv_delete (rb_redis B) (failure_count_key (rb_breaker_name B)) (fst st)), w)))"

definition rb_open_at :: "'r redis_breaker \<Rightarrow> pyfloat \<Rightarrow> 'r \<Rightarrow> bool" where
  "rb_open_at B now r \<longleftrightarrow> rb_state_at B now r = OPEN"

lemma redis_kvD:
  assumes "redis_kv_lawful R"
  shows "kv_get R k' (kv_set R k v r) = (if k' = k then Some v else kv_get R k' r)"
    and "kv_get R k' (kv_delete R k r) = (if k' = k then None else kv_get R k' r)"
    and "kv_get R k r = None \<Longrightarrow> fst (kv_incr R k r) = 1"
    and "kv_get R k r = Some (RInt n) \<Longrightarrow> fst (kv_incr R k r) = n + 1"
    and "kv_get R k' (snd (kv_incr R k r))
        = (if k' = k then Some (RInt (fst (kv_incr R k r))) else kv_get R k' r)"
  using assms unfolding redis_kv_lawful_def by blast+

lemma rb_contract:
  assumes "redis_kv_lawful (rb_redis B)"
  shows "breaker_contract (rb_open_at B) (rb_call B)"
proof
  fix t s t' fn w r w' a s' w'' u
  show "rb_open_at B t s \<Longrightarrow> rb_call B t t' fn (s, w) = (Inl CircuitOpenError, s, w)"
    by (simp add: rb_open_at_def rb_call_def)
  show "\<not> rb_open_at B t s \<Longrightarrow> fn w = (r, w') \<Longrightarrow> \<exists>s'. rb_call B t t' fn (s, w) = (r, s', w')"
    by (cases r) (simp_all add: rb_open_at_def rb_call_def Let_def split: prod.splits)
  show "\<not> rb_open_at B t s \<Longrightarrow> fn w = (Inr a, w') \<Longrightarrow> rb_call B t t' fn (s, w) = (r, s', w'') \<Longrightarrow>
      \<not> rb_open_at B u s'"
    by (auto simp: rb_open_at_def rb_call_def rb_state_at_def redis_kvD(2) [OF assms])
qed

text \<open>The in-memory breaker a server state stands for.\<close>

definition rb_abs :: "'r redis_breaker \<Rightarrow> 'r \<Rightarrow> circuit_breaker" where
  "rb_abs B r = \<lparr>cb_failure_threshold = rb_failure_threshold B, cb_recovery_timeout = rb_recovery_timeout B,
     cb_state = (if kv_get (rb_redis B) (opened_at_key (rb_breaker_name B)) r = None then CLOSED else OPEN),
     cb_failure_count = (case kv_get (rb_redis B) (failure_count_key (rb_breaker_name B)) r of
        Some (RInt n) \<Rightarrow> nat n | _ \<Rightarrow> 0),
     cb_opened_at = map_option redis_float (kv_get (rb_redis B) (opened_at_key (rb_breaker_name B)) r)\<rparr>"

definition rb_ok :: "'r redis_breaker \<Rightarrow> 'r \<Rightarrow> bool" where
  "rb_ok B r \<longleftrightarrow> (case kv_get (rb_redis B) (failure_count_key (rb_breaker_name B)) r of
     None \<Rightarrow> True | Some (RInt n) \<Rightarrow> 0 \<le> n | Some (RNum _) \<Rightarrow> False)"

lemma rb_state_abs: "cb_state_at now (rb_abs B r) = rb_state_at B now r"
  by (auto simp: cb_state_at_def rb_abs_def rb_state_at_def Let_def split: option.splits)

lemma rb_failed_abs:
  assumes R: "redis_kv_lawful (rb_redis B)" and ok: "rb_ok B r"
    and incr: "kv_incr (rb_redis B) (failure_count_key (rb_breaker_name B)) r = (n, r')"
    and s: "s = (if n \<ge> int (rb_failure_threshold B)
        then kv_set (rb_redis B) (opened_at_key (rb_breaker_name B)) (RNum t) r' else r')"
  shows "cb_failed t (rb_abs B r) = rb_abs B s \<and> rb_ok B s"
proof -
  let ?fc = "failure_count_key (rb_breaker_name B)" and ?oa = "opened_at_key (rb_breaker_name B)"
  have get: "kv_get (rb_redis B) k r' = (if k = ?fc then Some (RInt n) else kv_get (rb_redis B) k r)" for k
    using redis_kvD(5) [OF R, of k ?fc r] incr by simp
  have n: "n = 1 + int (cb_failure_count (rb_abs B r))"
    using ok redis_kvD(3,4) [OF R, of ?fc r] incr
    by (auto simp: rb_ok_def rb_abs_def split: option.splits redis_value.splits)
  then have "rb_ok B s" by (simp add: s rb_ok_def redis_kvD(1) [OF R] get)
  moreover have "cb_failed t (rb_abs B r) = rb_abs B s"
    using n by (simp add: s cb_failed_def Let_def rb_abs_def redis_kvD(1) [OF R] get nat_add_distrib)
  ultimately show ?thesis by blast
qed

lemma rb_succeeded_abs:
  assumes "redis_kv_lawful (rb_redis B)"
    and "s = kv_delete (rb_redis B) (opened_at_key (rb_breaker_name B))
               (kv_delete (rb_redis B) (failure_count_key (rb_breaker_name B)) r)"
  shows "cb_succeeded (rb_abs B r) = rb_abs B s \<and> rb_ok B s"
  using assms by (simp add: cb_succeeded_def rb_abs_def rb_ok_def redis_kvD(2))

text \<open>
  C19: the breaker shared through Redis refines the in-memory one: on a server that implements
  the four commands, a call returns what the in-memory breaker with the server's failure count
  and opening time returns, changes the caller's world the same way, and leaves a server state
  that stands for the in-memory breaker's new state.
\<close>

theorem redis_breaker_refines:
  assumes "redis_kv_lawful (rb_redis B)" "rb_ok B r"
  shows "case rb_call B t_check t_trip fn (r, w) of (res, r', w') \<Rightarrow>
    cb_call t_check t_trip fn (rb_abs B r, w) = (res, rb_abs B r', w') \<and> rb_ok B r'"
  using assms(2) rb_failed_abs [OF assms surjective_pairing refl] rb_succeeded_abs [OF assms(1) refl, of r]
  by (auto simp: rb_call_def cb_call_def rb_state_abs Let_def split: prod.splits sum.splits)

text \<open>A server as a map from keys to values.\<close>

definition redis_map :: "(string \<Rightarrow> redis_value option) redis_kv" where
  "redis_map = \<lparr>kv_get = (\<lambda>k r. r k), kv_set = (\<lambda>k v r. r(k \<mapsto> v)),
     kv_incr = (\<lambda>k r. let n = (case r k of Some (RInt n) \<Rightarrow> n + 1 | _ \<Rightarrow> 1) in (n, r(k \<mapsto> RInt n))),
     kv_delete = (\<lambda>k r. r(k := None))\<rparr>"

lemma redis_map_lawful: "redis_kv_lawful redis_map"
  by (simp add: redis_kv_lawful_def redis_map_def Let_def)

definition redis_demo :: "(string \<Rightarrow> redis_value option) redis_breaker" where
  "redis_demo = \<lparr>rb_redis = redis_map, rb_breaker_name = ''detector_scoring'',
     rb_failure_threshold = 1, rb_recovery_timeout = 30\<rparr>"

theorem redis_breaker_refines_witness:
  "case rb_call redis_demo 0 7 (wrapped_outcome False) (Map.empty, ()) of (res, r', w') \<Rightarrow>
     cb_call 0 7 (wrapped_outcome False) (rb_abs redis_demo Map.empty, ()) = (res, rb_abs redis_demo r', w')
     \<and> rb_ok redis_demo r'"
proof (rule redis_breaker_refines)
  show "redis_kv_lawful (rb_redis redis_demo)" by (simp add: redis_demo_def redis_map_lawful)
  show "rb_ok redis_demo Map.empty" by (simp add: redis_demo_def rb_ok_def redis_map_def)
qed

end
