(* ===== verification/Interceptor.thy ===== *)
theory Interceptor
  imports Detectors ContentPattern FakeTools TierEngine CircuitBreaker
begin

section \<open>The interception layer\<close>

text \<open>
  Models \<open>interception/interceptor.py\<close>: \<open>run_scoring\<close>, the flag count and the flag metrics,
  \<open>scoring_to_dict\<close> and \<open>intercept_and_call\<close> with its three ways to end a call, an exception, a
  bypass while the circuit is open, or a scored decision. The session store and the circuit
  breaker are any that meet their contracts. The world holds what a call can change, and the log
  of executed tool calls. Shown: no tool runs unless the decision says so, the session's log
  records every completed call exactly once with its outcome and agrees with what ran, over
  any sequence of calls, and what a blocked or escalated session can still do.
\<close>

subsection \<open>Scoring\<close>

record scoring_bundle =
  sb_schema_violation :: "schema_violation option"
  sb_divergence :: param_divergence_result
  sb_escalation :: permission_escalation_result
  sb_loop_rate :: loop_rate_result
  sb_exfiltration :: exfiltration_result
  sb_content_pattern :: content_pattern_result

definition schema_flagged :: "scoring_bundle \<Rightarrow> bool" where
  "schema_flagged b \<longleftrightarrow> (case sb_schema_violation b of None \<Rightarrow> False | Some v \<Rightarrow> is_violation v)"

definition flagged_detector_count :: "scoring_bundle \<Rightarrow> nat" where
  "flagged_detector_count b =
     (let count = 0;
          count = (if schema_flagged b then count + 1 else count);
          count = (if pd_is_divergent (sb_divergence b) then count + 1 else count);
          count = (if is_escalated (sb_escalation b) then count + 1 else count);
          count = (if lr_is_flagged (sb_loop_rate b) then count + 1 else count);
          count = (if ex_is_flagged (sb_exfiltration b) then count + 1 else count);
          count = (if cp_is_suspicious (sb_content_pattern b) then count + 1 else count)
      in count)"

definition record_flag_metrics :: "scoring_bundle \<Rightarrow> metrics \<Rightarrow> metrics" where
  "record_flag_metrics b m =
     (let m = (if schema_flagged b then record_detector_flag ''schema'' m else m);
          m = (if pd_is_divergent (sb_divergence b) then record_detector_flag ''divergence'' m else m);
          m = (if is_escalated (sb_escalation b) then record_detector_flag ''permission_escalation'' m else m);
          m = (if lr_is_flagged (sb_loop_rate b) then record_detector_flag ''loop_rate'' m else m);
          m = (if ex_is_flagged (sb_exfiltration b) then record_detector_flag ''exfiltration'' m else m);
          m = (if cp_is_suspicious (sb_content_pattern b) then record_detector_flag ''content_pattern'' m else m)
      in m)"

definition json_strs :: "string list \<Rightarrow> json" where
  "json_strs xs = JList (map JStr xs)"

definition scoring_to_dict :: "scoring_bundle \<Rightarrow> (string, json) dict" where
  "scoring_to_dict b =
    [(''schema_violation'',
        json_opt (\<lambda>v. JDict
          [(''missing_params'', json_strs (sorted_strs (sv_missing_params v))),
           (''unexpected_params'', json_strs (sorted_strs (sv_unexpected_params v))),
           (''is_violation'', JBool (is_violation v))]) (sb_schema_violation b)),
     (''divergence'', JDict
        [(''similarity'', JFloat (pd_similarity (sb_divergence b))),
         (''is_divergent'', JBool (pd_is_divergent (sb_divergence b)))]),
     (''escalation'', JDict
        [(''escalated_tools'', json_strs (sorted_strs (pe_escalated_tools (sb_escalation b)))),
         (''is_escalated'', JBool (is_escalated (sb_escalation b)))]),
     (''loop_rate'', JDict
        [(''same_tool_attempt_count'', JInt (int (lr_same_tool_attempt_count (sb_loop_rate b)))),
         (''is_rate_exceeded'', JBool (lr_is_rate_exceeded (sb_loop_rate b))),
         (''is_evasion_retry'', JBool (lr_is_evasion_retry (sb_loop_rate b))),
         (''is_benign_retry'', JBool (lr_is_benign_retry (sb_loop_rate b)))]),
     (''exfiltration'', JDict
        [(''outbound_call_count'', JInt (int (ex_outbound_call_count (sb_exfiltration b)))),
         (''is_frequency_exceeded'', JBool (ex_is_frequency_exceeded (sb_exfiltration b))),
         (''is_content_anomalous'', JBool (ex_is_content_anomalous (sb_exfiltration b))),
         (''anomalous_params'', json_strs (sorted_strs (ex_anomalous_params (sb_exfiltration b))))]),
     (''content_pattern'', JDict
        [(''is_suspicious'', JBool (cp_is_suspicious (sb_content_pattern b))),
         (''reasoning'', json_opt JStr (cp_reasoning (sb_content_pattern b))),
         (''matched_patterns'', json_strs (cp_matched_patterns (sb_content_pattern b))),
         (''confidence'', json_opt JFloat (cp_confidence (sb_content_pattern b)))]),
     (''flagged_detector_count'', JInt (int (flagged_detector_count b)))]"

text \<open>What a call is made with, and what it is made against.\<close>

record call_request =
  cr_task_representation :: task_representation
  cr_task_type :: task_type
  cr_session_id :: string
  cr_tool_name :: string
  cr_params :: params
  cr_turn_index :: int
  cr_divergence_threshold :: pyfloat
  cr_shadow_mode :: bool

record ('s, 'b) guardrails =
  gr_tools :: fake_tool_registry
  gr_tiers :: tool_registry
  gr_schemas :: schema_registry
  gr_store :: "'s store_ops"
  gr_breaker_call :: "pyfloat \<Rightarrow> pyfloat \<Rightarrow> ('s, scoring_bundle) wrapped \<Rightarrow> 'b \<times> 's \<Rightarrow> scoring_bundle result \<times> 'b \<times> 's"
  gr_content_detector :: content_detector

definition schema_or_none :: "schema_violation result \<Rightarrow> schema_violation option result" where
  "schema_or_none r =
     (case r of
        Inl (UnregisteredSchemaError _) \<Rightarrow> Inr None
      | Inl e \<Rightarrow> Inl e
      | Inr v \<Rightarrow> Inr (Some v))"

definition run_scoring :: "('s, 'b) guardrails \<Rightarrow> call_request \<Rightarrow> 's \<Rightarrow> scoring_bundle result" where
  "run_scoring G c s =
     res_bind (schema_or_none (check_schema (gr_schemas G) (cr_tool_name c) (cr_params c))) (\<lambda>schema_violation.
     res_bind (check_param_divergence (cr_task_representation c) (cr_tool_name c) (cr_params c)
         (cr_divergence_threshold c)) (\<lambda>divergence_result.
     res_bind (so_get_tool_footprint (gr_store G) (cr_session_id c) s) (\<lambda>prior_footprint.
     let escalation_result =
       check_permission_escalation (cr_task_type c) (prior_footprint \<union> {cr_tool_name c}) in
     res_bind (check_tool_loop_rate (gr_store G) s (cr_session_id c) (cr_tool_name c) (cr_params c)
         DEFAULT_RATE_THRESHOLD) (\<lambda>loop_rate_result.
     res_bind (check_exfiltration (gr_store G) s (cr_session_id c) (cr_tool_name c) (cr_params c)
         DEFAULT_OUTBOUND_FREQUENCY_THRESHOLD DEFAULT_CONTENT_SIZE_THRESHOLD) (\<lambda>exfiltration_result.
     res_bind (gr_content_detector G (cr_tool_name c) (cr_params c)) (\<lambda>content_pattern_result.
     Inr \<lparr>sb_schema_violation = schema_violation, sb_divergence = divergence_result,
          sb_escalation = escalation_result, sb_loop_rate = loop_rate_result,
          sb_exfiltration = exfiltration_result, sb_content_pattern = content_pattern_result\<rparr>))))))"

text \<open>The lambda the breaker wraps: scoring only reads the store.\<close>

definition wrapped_scoring :: "('s, 'b) guardrails \<Rightarrow> call_request \<Rightarrow> ('s, scoring_bundle) wrapped" where
  "wrapped_scoring G c s = (run_scoring G c s, s)"

subsection \<open>The call\<close>

record ('s, 'b) world =
  w_store :: 's
  w_breaker :: 'b
  w_queue :: approval_queue
  w_metrics :: metrics
  w_executed :: executions

record interception_result =
  ir_tool_name :: string
  ir_response_tier :: response_tier
  ir_scoring :: "scoring_bundle option"
  ir_tool_result :: "params option"
  ir_approval_request_id :: "string option"
  ir_guardrail_bypassed :: bool
  ir_guardrail_bypass_reason :: "string option"
  ir_shadow_mode_active :: bool

definition ir_allowed :: "interception_result \<Rightarrow> bool" where
  "ir_allowed r = (if ir_shadow_mode_active r then True
     else ir_response_tier r = ALLOW \<or> ir_response_tier r = FLAG)"

definition BREAKER_NAME :: string where
  "BREAKER_NAME = ''detector_scoring''"

definition fail_policy_for :: "tool_registry \<Rightarrow> string \<Rightarrow> fail_policy" where
  "fail_policy_for tiers tool_name =
     (case tier_get tool_name tiers of
        Inr reg \<Rightarrow> tr_fail_policy reg
      | Inl (UnregisteredToolError _) \<Rightarrow> FAIL_CLOSED
      | Inl _ \<Rightarrow> FAIL_CLOSED)"

definition call_record :: "call_request \<Rightarrow> tool_call" where
  "call_record c = \<lparr>tc_tool_name = cr_tool_name c, tc_params = cr_params c, tc_turn_index = cr_turn_index c\<rparr>"

definition log_attempt ::
    "('s, 'b) guardrails \<Rightarrow> call_request \<Rightarrow> call_outcome \<Rightarrow> json option \<Rightarrow> ('s, 'b) world
       \<Rightarrow> unit result \<times> ('s, 'b) world" where
  "log_attempt G c outcome detail w =
     (let (r, s) = so_append_attempt (gr_store G) (cr_session_id c) (call_record c) outcome detail (w_store w)
      in (r, w\<lparr>w_store := s\<rparr>))"

definition run_tool ::
    "('s, 'b) guardrails \<Rightarrow> call_request \<Rightarrow> ('s, 'b) world \<Rightarrow> params result \<times> ('s, 'b) world" where
  "run_tool G c w =
     (let (r, ex) = ft_call (gr_tools G) (cr_tool_name c) (cr_params c) (w_executed w)
      in (r, w\<lparr>w_executed := ex\<rparr>))"

definition on_metrics :: "(metrics \<Rightarrow> metrics) \<Rightarrow> ('s, 'b) world \<Rightarrow> ('s, 'b) world" where
  "on_metrics f w = w\<lparr>w_metrics := f (w_metrics w)\<rparr>"

definition bypass_result :: "call_request \<Rightarrow> response_tier \<Rightarrow> params option \<Rightarrow> string \<Rightarrow> interception_result" where
  "bypass_result c tier tool_result reason =
     \<lparr>ir_tool_name = cr_tool_name c, ir_response_tier = tier, ir_scoring = None, ir_tool_result = tool_result,
      ir_approval_request_id = None, ir_guardrail_bypassed = True, ir_guardrail_bypass_reason = Some reason,
      ir_shadow_mode_active = False\<rparr>"

text \<open>The handler of \<open>CircuitOpenError\<close>.\<close>

definition intercept_open ::
    "('s, 'b) guardrails \<Rightarrow> call_request \<Rightarrow> ('s, 'b) world \<Rightarrow> interception_result result \<times> ('s, 'b) world" where
  "intercept_open G c w0 =
     (let w = on_metrics (record_circuit_breaker_state BREAKER_NAME True) w0 in
      if fail_policy_for (gr_tiers G) (cr_tool_name c) = FAIL_OPEN then
        st_bind (log_attempt G c ALLOWED None w) (\<lambda>_ w.
        st_bind (run_tool G c w) (\<lambda>out w.
        (Inr (bypass_result c ALLOW (Some out) ''circuit_open_fail_open''),
         on_metrics (record_action (response_tier_value ALLOW)) w)))
      else
        st_bind (log_attempt G c BLOCKED None w) (\<lambda>_ w.
        (Inr (bypass_result c BLOCK None ''circuit_open_fail_closed''),
         on_metrics (record_action (response_tier_value BLOCK)) w)))"

definition scored_result ::
    "call_request \<Rightarrow> scoring_bundle \<Rightarrow> response_tier \<Rightarrow> params option \<Rightarrow> string option \<Rightarrow> interception_result" where
  "scored_result c b tier tool_result approval_request_id =
     \<lparr>ir_tool_name = cr_tool_name c, ir_response_tier = tier, ir_scoring = Some b, ir_tool_result = tool_result,
      ir_approval_request_id = approval_request_id, ir_guardrail_bypassed = False,
      ir_guardrail_bypass_reason = None, ir_shadow_mode_active = cr_shadow_mode c\<rparr>"

text \<open>From line 307 on: the branch for the response tier.\<close>

definition intercept_respond ::
    "('s, 'b) guardrails \<Rightarrow> string \<Rightarrow> pyfloat \<Rightarrow> call_request \<Rightarrow> scoring_bundle \<Rightarrow> response_tier \<Rightarrow> ('s, 'b) world
       \<Rightarrow> interception_result result \<times> ('s, 'b) world" where
  "intercept_respond G rid t_submit c b tier w =
     (if cr_shadow_mode c then
        st_bind (log_attempt G c ALLOWED (Some (JDict (scoring_to_dict b))) w) (\<lambda>_ w.
        st_bind (run_tool G c w) (\<lambda>out w.
        (Inr (scored_result c b tier (Some out) None), w)))
      else if tier = BLOCK then
        st_bind (log_attempt G c BLOCKED (Some (JDict (scoring_to_dict b))) w) (\<lambda>_ w.
        (Inr (scored_result c b tier None None), w))
      else if tier = REQUIRE_APPROVAL then
        (let (request, q, m) = aq_submit rid t_submit (cr_session_id c) (cr_tool_name c) (cr_params c)
               (w_queue w, w_metrics w);
             detail = dict_set (scoring_to_dict b) ''approval_request_id'' (JStr (ar_request_id request))
         in st_bind (log_attempt G c PENDING_APPROVAL (Some (JDict detail)) (w\<lparr>w_queue := q, w_metrics := m\<rparr>)) (\<lambda>_ w.
            (Inr (scored_result c b tier None (Some (ar_request_id request))), w)))
      else
        st_bind (log_attempt G c ALLOWED (Some (JDict (scoring_to_dict b))) w) (\<lambda>_ w.
        st_bind (run_tool G c w) (\<lambda>out w.
        (Inr (scored_result c b tier (Some out) None), w))))"

definition intercept_scored ::
    "('s, 'b) guardrails \<Rightarrow> string \<Rightarrow> pyfloat \<Rightarrow> call_request \<Rightarrow> scoring_bundle \<Rightarrow> ('s, 'b) world
       \<Rightarrow> interception_result result \<times> ('s, 'b) world" where
  "intercept_scored G rid t_submit c b w0 =
     (let w = on_metrics (record_flag_metrics b) (on_metrics (record_circuit_breaker_state BREAKER_NAME False) w0) in
      case tier_get (cr_tool_name c) (gr_tiers G) of
        Inl e \<Rightarrow> (Inl e, w)
      | Inr reg \<Rightarrow>
          let tier = decide_response_tier (flagged_detector_count b) (tr_tier reg)
          in intercept_respond G rid t_submit c b tier (on_metrics (record_action (response_tier_value tier)) w))"

text \<open>
  The whole call. \<open>T\<close> holds what the environment supplies: the clock readings of the breaker, the
  time of a submission to the queue and the identifier it gets.
\<close>

record call_times =
  ct_check :: pyfloat
  ct_trip :: pyfloat
  ct_submit :: pyfloat
  ct_request_id :: string

definition intercept_and_call ::
    "('s, 'b) guardrails \<Rightarrow> call_times \<Rightarrow> call_request \<Rightarrow> ('s, 'b) world
       \<Rightarrow> interception_result result \<times> ('s, 'b) world" where
  "intercept_and_call G T c w0 =
     (let (r, b, s) = gr_breaker_call G (ct_check T) (ct_trip T) (wrapped_scoring G c) (w_breaker w0, w_store w0);
          w = w0\<lparr>w_breaker := b, w_store := s\<rparr>
      in case r of
           Inl CircuitOpenError \<Rightarrow> intercept_open G c w
         | Inl e \<Rightarrow> (Inl e, w)
         | Inr scoring \<Rightarrow> intercept_scored G (ct_request_id T) (ct_submit T) c scoring w)"

subsection \<open>The decision, abstractly\<close>

text \<open>
  What a call comes to, as a function of what the breaker returned: an exception before anything
  is logged, a bypass with a fail policy, or a response to a scoring.
\<close>

datatype decision = Raise exn | Bypass fail_policy | Respond scoring_bundle response_tier

definition decision_of :: "tool_registry \<Rightarrow> call_request \<Rightarrow> scoring_bundle result \<Rightarrow> decision" where
  "decision_of tiers c r =
     (case r of
        Inl e \<Rightarrow> if e = CircuitOpenError then Bypass (fail_policy_for tiers (cr_tool_name c)) else Raise e
      | Inr b \<Rightarrow> (case tier_get (cr_tool_name c) tiers of
           Inl e \<Rightarrow> Raise e
         | Inr reg \<Rightarrow> Respond b (decide_response_tier (flagged_detector_count b) (tr_tier reg))))"

definition call_decision :: "('s, 'b) guardrails \<Rightarrow> call_times \<Rightarrow> call_request \<Rightarrow> ('s, 'b) world \<Rightarrow> decision" where
  "call_decision G T c w = decision_of (gr_tiers G) c
     (fst (gr_breaker_call G (ct_check T) (ct_trip T) (wrapped_scoring G c) (w_breaker w, w_store w)))"

fun permits :: "call_request \<Rightarrow> decision \<Rightarrow> bool" where
  "permits c (Raise e) \<longleftrightarrow> False"
| "permits c (Bypass p) \<longleftrightarrow> p = FAIL_OPEN"
| "permits c (Respond b tier) \<longleftrightarrow> cr_shadow_mode c \<or> executes tier"

fun logged_outcome :: "call_request \<Rightarrow> decision \<Rightarrow> call_outcome option" where
  "logged_outcome c (Raise e) = None"
| "logged_outcome c (Bypass p) = Some (if p = FAIL_OPEN then ALLOWED else BLOCKED)"
| "logged_outcome c (Respond b tier) = Some
     (if cr_shadow_mode c \<or> executes tier then ALLOWED
      else if tier = BLOCK then BLOCKED else PENDING_APPROVAL)"

fun held :: "call_request \<Rightarrow> decision \<Rightarrow> bool" where
  "held c (Respond b tier) \<longleftrightarrow> \<not> cr_shadow_mode c \<and> tier = REQUIRE_APPROVAL"
| "held c _ \<longleftrightarrow> False"

fun logged_detail :: "call_request \<Rightarrow> string \<Rightarrow> decision \<Rightarrow> json option" where
  "logged_detail c rid (Respond b tier) = Some (JDict
     (if held c (Respond b tier) then dict_set (scoring_to_dict b) ''approval_request_id'' (JStr rid)
      else scoring_to_dict b))"
| "logged_detail c rid _ = None"

fun final_result :: "call_request \<Rightarrow> string \<Rightarrow> decision \<Rightarrow> params option \<Rightarrow> interception_result" where
  "final_result c rid (Bypass FAIL_OPEN) out = bypass_result c ALLOW out ''circuit_open_fail_open''"
| "final_result c rid (Bypass FAIL_CLOSED) out = bypass_result c BLOCK out ''circuit_open_fail_closed''"
| "final_result c rid (Respond b tier) out =
     scored_result c b tier out (if held c (Respond b tier) then Some rid else None)"
| "final_result c rid (Raise e) out = undefined"

lemma permits_iff_logged: "permits c d \<longleftrightarrow> logged_outcome c d = Some ALLOWED"
  by (cases d) auto

lemma held_iff_logged: "held c d \<longleftrightarrow> logged_outcome c d = Some PENDING_APPROVAL"
proof (cases d)
  case (Respond b tier)
  then show ?thesis by (cases tier) (auto simp: executes_def)
qed auto

lemma logged_detail_ok [simp]: "detail_ok (logged_detail c rid d)"
  by (cases d) (auto simp: detail_ok_def)

text \<open>
  The effects of a call with the decision \<open>d\<close>: the attempt that is logged, the tool call that is
  executed, the request that is submitted, and the result.
\<close>

definition tool_run :: "('s, 'b) guardrails \<Rightarrow> call_request \<Rightarrow> ('s, 'b) world \<Rightarrow> params result \<times> executions" where
  "tool_run G c w = ft_call (gr_tools G) (cr_tool_name c) (cr_params c) (w_executed w)"

definition decision_effects ::
    "('s \<Rightarrow> attempt_log) \<Rightarrow> ('s, 'b) guardrails \<Rightarrow> call_times \<Rightarrow> call_request \<Rightarrow> decision \<Rightarrow> ('s, 'b) world
       \<Rightarrow> interception_result result \<Rightarrow> ('s, 'b) world \<Rightarrow> bool" where
  "decision_effects lg G T c d w r w' \<longleftrightarrow>
     lg (w_store w') = (case logged_outcome c d of
        None \<Rightarrow> lg (w_store w)
      | Some out \<Rightarrow> log_append (cr_session_id c)
          (call_attempt (call_record c) out (logged_detail c (ct_request_id T) d)) (lg (w_store w)))
   \<and> w_executed w' = (if permits c d then snd (tool_run G c w) else w_executed w)
   \<and> w_queue w' = (if held c d
        then aq_put (new_request (ct_request_id T) (ct_submit T) (cr_session_id c) (cr_tool_name c) (cr_params c)) (w_queue w)
        else w_queue w)
   \<and> (case d of
        Raise e \<Rightarrow> r = Inl e
      | _ \<Rightarrow> if permits c d
             then (case fst (tool_run G c w) of
                     Inl e \<Rightarrow> r = Inl e
                   | Inr out \<Rightarrow> r = Inr (final_result c (ct_request_id T) d (Some out)))
             else r = Inr (final_result c (ct_request_id T) d None))
   \<and> m_breaker_trips (w_metrics w') = m_breaker_trips (w_metrics w)"

subsection \<open>The code implements the decision\<close>

lemma on_metrics_simps [simp]:
  "w_store (on_metrics f w) = w_store w" "w_breaker (on_metrics f w) = w_breaker w"
  "w_queue (on_metrics f w) = w_queue w" "w_executed (on_metrics f w) = w_executed w"
  "w_metrics (on_metrics f w) = f (w_metrics w)"
  by (simp_all add: on_metrics_def)

lemma flag_metrics_simps [simp]:
  "m_actions (record_flag_metrics b m) = m_actions m"
  "m_breaker_state (record_flag_metrics b m) = m_breaker_state m"
  "m_breaker_trips (record_flag_metrics b m) = m_breaker_trips m"
  "m_queue_depth (record_flag_metrics b m) = m_queue_depth m"
  "m_outcomes (record_flag_metrics b m) = m_outcomes m"
  by (simp_all add: record_flag_metrics_def Let_def)

lemma run_tool_eq: "run_tool G c w = (fst (tool_run G c w), w\<lparr>w_executed := snd (tool_run G c w)\<rparr>)"
  by (simp add: run_tool_def tool_run_def split: prod.split)

lemma tool_run_cong: "w_executed w = w_executed w' \<Longrightarrow> tool_run G c w = tool_run G c w'"
  by (simp add: tool_run_def)

lemma aq_submit_eq:
  "aq_submit rid now sid tn ps (q, m) = (new_request rid now sid tn ps, aq_put (new_request rid now sid tn ps) q,
     set_approval_queue_depth (aq_pending_count (aq_put (new_request rid now sid tn ps) q)) m)"
  by (simp add: aq_submit_def Let_def)

lemma decision_effects_cong:
  assumes "w_store v = w_store w" "w_executed v = w_executed w" "w_queue v = w_queue w"
    "m_breaker_trips (w_metrics v) = m_breaker_trips (w_metrics w)"
  shows "decision_effects lg G T c d v r w' = decision_effects lg G T c d w r w'"
  unfolding decision_effects_def tool_run_def assms by (rule refl)

locale interception =
  session_store "gr_store G" good lg + breaker_contract open_at "gr_breaker_call G"
  for G :: "('s, 'b) guardrails" and good :: "'s \<Rightarrow> bool" and lg :: "'s \<Rightarrow> attempt_log"
    and open_at :: "pyfloat \<Rightarrow> 'b \<Rightarrow> bool"
begin

lemma log_attempt_good:
  assumes "good (w_store w)" "detail_ok d"
  obtains s where "log_attempt G c out d w = (Inr (), w\<lparr>w_store := s\<rparr>)" "good s"
    "lg s = log_append (cr_session_id c) (call_attempt (call_record c) out d) (lg (w_store w))"
  by (rule append_attemptE [OF assms, of "cr_session_id c" "call_record c" out])
    (use that in \<open>simp add: log_attempt_def\<close>)

lemma intercept_open_effects:
  assumes good: "good (w_store w)" and r: "intercept_open G c w = (r, w')"
  shows "good (w_store w') \<and> decision_effects lg G T c (Bypass (fail_policy_for (gr_tiers G) (cr_tool_name c))) w r w'"
proof (cases "fail_policy_for (gr_tiers G) (cr_tool_name c)")
  case FAIL_OPEN
  let ?w = "on_metrics (record_circuit_breaker_state BREAKER_NAME True) w"
  obtain s where s: "log_attempt G c ALLOWED None ?w = (Inr (), ?w\<lparr>w_store := s\<rparr>)" "good s"
    "lg s = log_append (cr_session_id c) (call_attempt (call_record c) ALLOWED None) (lg (w_store w))"
    using log_attempt_good [of ?w None c ALLOWED] good by (auto simp: detail_ok_def)
  have run: "tool_run G c (?w\<lparr>w_store := s\<rparr>) = tool_run G c w" by (simp add: tool_run_def)
  show ?thesis
  proof (cases "fst (tool_run G c w)")
    case (Inl e)
    with r FAIL_OPEN s run show ?thesis
      by (auto simp: intercept_open_def Let_def run_tool_eq decision_effects_def)
  next
    case (Inr out)
    with r FAIL_OPEN s run show ?thesis
      by (auto simp: intercept_open_def Let_def run_tool_eq decision_effects_def)
  qed
next
  case FAIL_CLOSED
  let ?w = "on_metrics (record_circuit_breaker_state BREAKER_NAME True) w"
  obtain s where s: "log_attempt G c BLOCKED None ?w = (Inr (), ?w\<lparr>w_store := s\<rparr>)" "good s"
    "lg s = log_append (cr_session_id c) (call_attempt (call_record c) BLOCKED None) (lg (w_store w))"
    using log_attempt_good [of ?w None c BLOCKED] good by (auto simp: detail_ok_def)
  with r FAIL_CLOSED show ?thesis
    by (auto simp: intercept_open_def Let_def decision_effects_def)
qed

text \<open>The branch that runs the tool, in shadow mode and for the tiers that execute.\<close>

lemma respond_run_effects:
  assumes good: "good (w_store w)" and runs: "cr_shadow_mode c \<or> executes tier"
    and r: "intercept_respond G rid t c b tier w = (r, w')" and rid: "ct_request_id T = rid"
  shows "good (w_store w') \<and> decision_effects lg G T c (Respond b tier) w r w'"
proof -
  let ?d = "Some (JDict (scoring_to_dict b))"
  have nh: "\<not> held c (Respond b tier)" using runs by (auto simp: executes_def)
  obtain s where s: "log_attempt G c ALLOWED ?d w = (Inr (), w\<lparr>w_store := s\<rparr>)" "good s"
    "lg s = log_append (cr_session_id c) (call_attempt (call_record c) ALLOWED ?d) (lg (w_store w))"
    using log_attempt_good [of w ?d c ALLOWED] good by (auto simp: detail_ok_def)
  have run: "tool_run G c (w\<lparr>w_store := s\<rparr>) = tool_run G c w" by (simp add: tool_run_def)
  have eq: "intercept_respond G rid t c b tier w =
      st_bind (log_attempt G c ALLOWED ?d w) (\<lambda>_ w. st_bind (run_tool G c w) (\<lambda>out w.
        (Inr (scored_result c b tier (Some out) None), w)))"
    using runs by (auto simp: intercept_respond_def executes_def)
  show ?thesis
  proof (cases "fst (tool_run G c w)")
    case (Inl e)
    with r [unfolded eq] s run runs nh show ?thesis
      by (auto simp: run_tool_eq decision_effects_def)
  next
    case (Inr out)
    with r [unfolded eq] s run runs nh show ?thesis
      by (auto simp: run_tool_eq decision_effects_def)
  qed
qed

lemma respond_stop_effects:
  assumes good: "good (w_store w)" and stops: "\<not> cr_shadow_mode c" "\<not> executes tier"
    and r: "intercept_respond G (ct_request_id T) (ct_submit T) c b tier w = (r, w')"
  shows "good (w_store w') \<and> decision_effects lg G T c (Respond b tier) w r w'"
proof (cases "tier = BLOCK")
  case True
  let ?d = "Some (JDict (scoring_to_dict b))"
  obtain s where "log_attempt G c BLOCKED ?d w = (Inr (), w\<lparr>w_store := s\<rparr>)" "good s"
    "lg s = log_append (cr_session_id c) (call_attempt (call_record c) BLOCKED ?d) (lg (w_store w))"
    using log_attempt_good [of w ?d c BLOCKED] good by (auto simp: detail_ok_def)
  with True stops r show ?thesis by (auto simp: intercept_respond_def decision_effects_def)
next
  case False
  with stops(2) have t: "tier = REQUIRE_APPROVAL" by (cases tier) (auto simp: executes_def)
  let ?req = "new_request (ct_request_id T) (ct_submit T) (cr_session_id c) (cr_tool_name c) (cr_params c)"
  let ?q = "aq_put ?req (w_queue w)"
  let ?w = "w\<lparr>w_queue := ?q, w_metrics := set_approval_queue_depth (aq_pending_count ?q) (w_metrics w)\<rparr>"
  let ?d = "Some (JDict (dict_set (scoring_to_dict b) ''approval_request_id'' (JStr (ct_request_id T))))"
  obtain s where s: "log_attempt G c PENDING_APPROVAL ?d ?w = (Inr (), ?w\<lparr>w_store := s\<rparr>)" "good s"
    "lg s = log_append (cr_session_id c) (call_attempt (call_record c) PENDING_APPROVAL ?d) (lg (w_store w))"
    using log_attempt_good [of ?w ?d c PENDING_APPROVAL] good by (auto simp: detail_ok_def)
  have "intercept_respond G (ct_request_id T) (ct_submit T) c b tier w =
      st_bind (log_attempt G c PENDING_APPROVAL ?d ?w) (\<lambda>_ w.
        (Inr (scored_result c b tier None (Some (ct_request_id T))), w))"
    using stops t by (simp add: intercept_respond_def aq_submit_eq Let_def)
  with s r t stops show ?thesis by (auto simp: decision_effects_def)
qed

lemma decision_effects_metrics:
  "decision_effects lg G T c d (on_metrics f w) r w' \<Longrightarrow> (\<And>m. m_breaker_trips (f m) = m_breaker_trips m) \<Longrightarrow>
     decision_effects lg G T c d w r w'"
  by (subst (asm) decision_effects_cong [of "on_metrics f w" w]) simp_all

lemma intercept_scored_effects:
  assumes good: "good (w_store w)"
    and r: "intercept_scored G (ct_request_id T) (ct_submit T) c b w = (r, w')"
  shows "good (w_store w') \<and> decision_effects lg G T c (decision_of (gr_tiers G) c (Inr b)) w r w'"
proof (cases "tier_get (cr_tool_name c) (gr_tiers G)")
  case (Inl e)
  with r good show ?thesis
    by (auto simp: intercept_scored_def Let_def decision_of_def decision_effects_def)
next
  case (Inr reg)
  let ?tier = "decide_response_tier (flagged_detector_count b) (tr_tier reg)"
  let ?f = "\<lambda>m. record_action (response_tier_value ?tier)
      (record_flag_metrics b (record_circuit_breaker_state BREAKER_NAME False m))"
  have d: "decision_of (gr_tiers G) c (Inr b) = Respond b ?tier" by (simp add: decision_of_def Inr)
  have "intercept_respond G (ct_request_id T) (ct_submit T) c b ?tier (on_metrics ?f w) = (r, w')"
    using r Inr by (simp add: intercept_scored_def Let_def on_metrics_def)
  then have "good (w_store w') \<and> decision_effects lg G T c (Respond b ?tier) (on_metrics ?f w) r w'"
    using respond_run_effects [of "on_metrics ?f w" c ?tier "ct_request_id T" "ct_submit T" b r w' T]
      respond_stop_effects [of "on_metrics ?f w" c ?tier T b r w'] good
    by (cases "cr_shadow_mode c \<or> executes ?tier") auto
  then show ?thesis unfolding d
    by (auto intro: decision_effects_metrics)
qed

theorem intercept_refines:
  assumes good: "good (w_store w)" and r: "intercept_and_call G T c w = (r, w')"
  shows "good (w_store w') \<and> decision_effects lg G T c (call_decision G T c w) w r w'"
proof -
  obtain sr b s where call: "gr_breaker_call G (ct_check T) (ct_trip T) (wrapped_scoring G c) (w_breaker w, w_store w)
      = (sr, b, s)" using prod_cases3 by blast
  have s: "s = w_store w"
    by (rule world_kept [OF _ call]) (simp add: wrapped_scoring_def)
  have same: "decision_effects lg G T c d (w\<lparr>w_breaker := b\<rparr>) r w' \<Longrightarrow> decision_effects lg G T c d w r w'" for d
    by (subst (asm) decision_effects_cong [of "w\<lparr>w_breaker := b\<rparr>" w]) simp_all
  have w: "w\<lparr>w_breaker := b, w_store := s\<rparr> = w\<lparr>w_breaker := b\<rparr>" by (simp add: s)
  have d: "call_decision G T c w = decision_of (gr_tiers G) c sr" by (simp add: call_decision_def call)
  show ?thesis
  proof (cases sr)
    case (Inr sb)
    with r call w have "intercept_scored G (ct_request_id T) (ct_submit T) c sb (w\<lparr>w_breaker := b\<rparr>) = (r, w')"
      by (simp add: intercept_and_call_def)
    from intercept_scored_effects [OF _ this] good same show ?thesis by (simp add: d Inr)
  next
    case (Inl e)
    show ?thesis
    proof (cases "e = CircuitOpenError")
      case True
      with r call w Inl have "intercept_open G c (w\<lparr>w_breaker := b\<rparr>) = (r, w')"
        by (simp add: intercept_and_call_def)
      from intercept_open_effects [OF _ this, of T] good same show ?thesis
        by (simp add: d Inl True decision_of_def)
    next
      case False
      with r call w Inl have "r = Inl e \<and> w' = w\<lparr>w_breaker := b\<rparr>"
        by (cases e) (auto simp: intercept_and_call_def)
      with good False show ?thesis by (simp add: d Inl decision_of_def decision_effects_def)
    qed
  qed
qed

text \<open>A response comes from a scoring of the store's state by a closed breaker.\<close>

lemma respond_scored:
  assumes "call_decision G T c w = Respond b tier"
  shows "run_scoring G c (w_store w) = Inr b" "\<not> open_at (ct_check T) (w_breaker w)"
    "\<exists>reg. tier_get (cr_tool_name c) (gr_tiers G) = Inr reg
       \<and> tier = decide_response_tier (flagged_detector_count b) (tr_tier reg)"
proof -
  obtain sr br s where call: "gr_breaker_call G (ct_check T) (ct_trip T) (wrapped_scoring G c) (w_breaker w, w_store w)
      = (sr, br, s)" using prod_cases3 by blast
  with assms have "sr = Inr b" by (auto simp: call_decision_def decision_of_def split: sum.splits if_splits)
  with call result_from_fn [of "ct_check T" "ct_trip T" "wrapped_scoring G c" "w_breaker w" "w_store w"]
  show "run_scoring G c (w_store w) = Inr b" "\<not> open_at (ct_check T) (w_breaker w)"
    by (auto simp: wrapped_scoring_def)
  from assms \<open>sr = Inr b\<close> call show "\<exists>reg. tier_get (cr_tool_name c) (gr_tiers G) = Inr reg
       \<and> tier = decide_response_tier (flagged_detector_count b) (tr_tier reg)"
    by (auto simp: call_decision_def decision_of_def split: sum.splits)
qed

lemma open_bypasses:
  "open_at (ct_check T) (w_breaker w) \<Longrightarrow>
     call_decision G T c w = Bypass (fail_policy_for (gr_tiers G) (cr_tool_name c))"
  by (simp add: call_decision_def refuses decision_of_def)

end

text \<open>The wiring of the deployed service: in-memory store and breaker, the default tools.\<close>

definition default_guardrails :: "(memory_store, circuit_breaker) guardrails" where
  "default_guardrails = \<lparr>gr_tools = default_registry, gr_tiers = default_tier_registry,
     gr_schemas = build_default_schema_registry, gr_store = memory_ops, gr_breaker_call = cb_call,
     gr_content_detector = heuristic_check_content\<rparr>"

lemma default_interception: "interception default_guardrails (\<lambda>_. True) mem_log cb_open_at"
  unfolding interception_def
  using mem.session_store_axioms cb.breaker_contract_axioms by (simp add: default_guardrails_def)

interpretation dflt: interception default_guardrails "\<lambda>_. True" mem_log cb_open_at
  by (rule default_interception)

subsection \<open>Flags\<close>

lemma flagged_count_zero_iff:
  "flagged_detector_count b = 0 \<longleftrightarrow> \<not> schema_flagged b \<and> \<not> pd_is_divergent (sb_divergence b)
     \<and> \<not> is_escalated (sb_escalation b) \<and> \<not> lr_is_flagged (sb_loop_rate b)
     \<and> \<not> ex_is_flagged (sb_exfiltration b) \<and> \<not> cp_is_suspicious (sb_content_pattern b)"
  by (simp add: flagged_detector_count_def Let_def)

text \<open>The names under which \<open>record_flag_metrics\<close> counts.\<close>

definition DETECTOR_NAMES :: "string list" where
  "DETECTOR_NAMES = [''schema'', ''divergence'', ''permission_escalation'', ''loop_rate'', ''exfiltration'',
     ''content_pattern'']"

lemma flag_metrics_total:
  "sum_list (map (m_flags (record_flag_metrics b m)) DETECTOR_NAMES)
     = sum_list (map (m_flags m) DETECTOR_NAMES) + flagged_detector_count b"
  by (simp add: record_flag_metrics_def flagged_detector_count_def DETECTOR_NAMES_def Let_def)

context interception
begin

lemma scoring_parts:
  assumes "good s" "run_scoring G c s = Inr b"
  shows "sb_escalation b = check_permission_escalation (cr_task_type c)
      (attempt_tool ` set (lg s (cr_session_id c)) \<union> {cr_tool_name c})"
    and "sb_loop_rate b = loop_rate_of (same_tool (cr_tool_name c) (lg s (cr_session_id c))) (cr_tool_name c)
      (cr_params c) DEFAULT_RATE_THRESHOLD"
  using assms by (auto simp: run_scoring_def res_bind_eq_Inr footprint check_tool_loop_rate_log Let_def)

end

text \<open>A sequence of calls; a call that raises is an error of its request, and the next one follows.\<close>

definition intercept_calls ::
    "('s, 'b) guardrails \<Rightarrow> (call_times \<times> call_request) list \<Rightarrow> ('s, 'b) world \<Rightarrow> ('s, 'b) world" where
  "intercept_calls G calls w = fold (\<lambda>(T, c) w. snd (intercept_and_call G T c w)) calls w"

lemma intercept_calls_simps [simp]:
  "intercept_calls G [] w = w"
  "intercept_calls G ((T, c) # calls) w = intercept_calls G calls (snd (intercept_and_call G T c w))"
  by (simp_all add: intercept_calls_def)

text \<open>The tool calls that the log of a session says were let through.\<close>

definition allowed_calls :: "call_attempt list \<Rightarrow> executions" where
  "allowed_calls as = map (\<lambda>a. (tc_tool_name (ca_call a), tc_params (ca_call a)))
     (filter (\<lambda>a. ca_outcome a = ALLOWED) as)"

lemma allowed_calls_append [simp]: "allowed_calls (as @ bs) = allowed_calls as @ allowed_calls bs"
  by (simp add: allowed_calls_def)

definition guardrails_ok :: "('s, 'b) guardrails \<Rightarrow> bool" where
  "guardrails_ok G \<longleftrightarrow> ft_complete (gr_tools G) \<and> gr_tiers G = ft_tier_registry (gr_tools G)"

lemma call_record_simps [simp]:
  "tc_tool_name (call_record c) = cr_tool_name c" "tc_params (call_record c) = cr_params c"
  "tc_turn_index (call_record c) = cr_turn_index c"
  by (simp_all add: call_record_def)

context interception
begin

lemma intercept_good: "good (w_store w) \<Longrightarrow> good (w_store (snd (intercept_and_call G T c w)))"
  using intercept_refines [of w T c] by (cases "intercept_and_call G T c w") simp

lemma intercept_calls_good: "good (w_store w) \<Longrightarrow> good (w_store (intercept_calls G calls w))"
  by (induction calls arbitrary: w) (auto simp: intercept_good)

lemma intercept_log:
  assumes "good (w_store w)"
  shows "lg (w_store (snd (intercept_and_call G T c w))) sid = lg (w_store w) sid
    @ (case logged_outcome c (call_decision G T c w) of
         None \<Rightarrow> []
       | Some out \<Rightarrow> if sid = cr_session_id c
           then [call_attempt (call_record c) out (logged_detail c (ct_request_id T) (call_decision G T c w))] else [])"
  using intercept_refines [OF assms, of T c]
  by (cases "intercept_and_call G T c w") (auto simp: decision_effects_def split: option.splits)

lemma intercept_calls_log:
  "good (w_store w) \<Longrightarrow> \<exists>new. lg (w_store (intercept_calls G calls w)) sid = lg (w_store w) sid @ new
     \<and> (\<forall>a \<in> set new. \<exists>(T, c) \<in> set calls. cr_session_id c = sid \<and> ca_call a = call_record c)"
proof (induction calls arbitrary: w)
  case (Cons x calls)
  obtain T c where x: "x = (T, c)" by (cases x)
  let ?w = "snd (intercept_and_call G T c w)"
  obtain new where new: "lg (w_store (intercept_calls G calls ?w)) sid = lg (w_store ?w) sid @ new"
    "\<forall>a \<in> set new. \<exists>(T, c) \<in> set calls. cr_session_id c = sid \<and> ca_call a = call_record c"
    using Cons.IH [OF intercept_good [OF Cons.prems]] by blast
  obtain n1 where n1: "lg (w_store ?w) sid = lg (w_store w) sid @ n1"
    "\<forall>a \<in> set n1. cr_session_id c = sid \<and> ca_call a = call_record c"
    using intercept_log [OF Cons.prems, of T c sid] by (auto split: option.splits if_splits)
  from new n1 show ?case unfolding x by (intro exI [of _ "n1 @ new"]) auto
qed simp

text \<open>A permitted call has a registered tool, so on complete registries it runs.\<close>

lemma permits_registered: "permits c (call_decision G T c w) \<Longrightarrow> \<exists>reg. tier_get (cr_tool_name c) (gr_tiers G) = Inr reg"
proof (cases "call_decision G T c w")
  case (Bypass p)
  then have p: "p = fail_policy_for (gr_tiers G) (cr_tool_name c)"
    by (auto simp: call_decision_def decision_of_def split: sum.splits if_splits)
  assume "permits c (call_decision G T c w)"
  with Bypass p have "fail_policy_for (gr_tiers G) (cr_tool_name c) = FAIL_OPEN" by simp
  then show ?thesis by (auto simp: fail_policy_for_def split: sum.splits exn.splits)
next
  case (Respond b tier)
  from respond_scored(3) [OF this] show ?thesis by blast
qed simp

lemma intercept_executed:
  assumes "good (w_store w)"
  shows "permits c (call_decision G T c w) \<Longrightarrow> guardrails_ok G \<Longrightarrow>
      w_executed (snd (intercept_and_call G T c w)) = w_executed w @ [(cr_tool_name c, cr_params c)]"
    and "\<not> permits c (call_decision G T c w) \<Longrightarrow> w_executed (snd (intercept_and_call G T c w)) = w_executed w"
proof -
  have eff: "w_executed (snd (intercept_and_call G T c w)) =
      (if permits c (call_decision G T c w) then snd (tool_run G c w) else w_executed w)"
    using intercept_refines [OF assms, of T c]
    by (cases "intercept_and_call G T c w") (simp add: decision_effects_def)
  then show "\<not> permits c (call_decision G T c w) \<Longrightarrow> w_executed (snd (intercept_and_call G T c w)) = w_executed w"
    by simp
  assume p: "permits c (call_decision G T c w)" and ok: "guardrails_ok G"
  from permits_registered [OF p] obtain reg where "tier_get (cr_tool_name c) (gr_tiers G) = Inr reg" by blast
  with ok have "snd (tool_run G c w) = w_executed w @ [(cr_tool_name c, cr_params c)]"
    by (simp add: guardrails_ok_def tool_run_def ft_call_complete)
  with eff p show "w_executed (snd (intercept_and_call G T c w)) = w_executed w @ [(cr_tool_name c, cr_params c)]"
    by simp
qed

lemma audit_step:
  assumes "good (w_store w)" "guardrails_ok G" "cr_session_id c = sid"
  shows "\<exists>new. lg (w_store (snd (intercept_and_call G T c w))) sid = lg (w_store w) sid @ new
    \<and> w_executed (snd (intercept_and_call G T c w)) = w_executed w @ allowed_calls new"
  using intercept_log [OF assms(1), of T c sid] intercept_executed [OF assms(1), of c T] assms(2,3)
    permits_iff_logged [of c "call_decision G T c w"]
  by (cases "logged_outcome c (call_decision G T c w)")
    (auto simp: allowed_calls_def)

lemma audit_trail:
  "good (w_store w) \<Longrightarrow> guardrails_ok G \<Longrightarrow> \<forall>(T, c) \<in> set calls. cr_session_id c = sid \<Longrightarrow>
     \<exists>new. lg (w_store (intercept_calls G calls w)) sid = lg (w_store w) sid @ new
       \<and> w_executed (intercept_calls G calls w) = w_executed w @ allowed_calls new"
proof (induction calls arbitrary: w)
  case Nil
  show ?case by (simp add: allowed_calls_def)
next
  case (Cons x calls)
  obtain T c where x: "x = (T, c)" by (cases x)
  from Cons.prems x have sid: "cr_session_id c = sid" by simp
  from audit_step [OF Cons.prems(1,2) sid, of T] obtain n1 where
    n1: "lg (w_store (snd (intercept_and_call G T c w))) sid = lg (w_store w) sid @ n1"
      "w_executed (snd (intercept_and_call G T c w)) = w_executed w @ allowed_calls n1" by blast
  from Cons.IH [OF intercept_good [OF Cons.prems(1)] Cons.prems(2), of T c] Cons.prems(3) obtain n2 where
    "lg (w_store (intercept_calls G calls (snd (intercept_and_call G T c w)))) sid
       = lg (w_store (snd (intercept_and_call G T c w))) sid @ n2"
    "w_executed (intercept_calls G calls (snd (intercept_and_call G T c w)))
       = w_executed (snd (intercept_and_call G T c w)) @ allowed_calls n2" by auto
  with n1 show ?case unfolding x by (intro exI [of _ "n1 @ n2"]) simp
qed

text \<open>A blocked attempt is remembered until the tool is used again.\<close>

lemma blocked_remembered:
  assumes good: "good (w_store w)"
    and last: "last_attempt_was t (lg (w_store w) sid) P"
    and other: "\<forall>(T, c) \<in> set calls. cr_session_id c = sid \<longrightarrow> cr_tool_name c \<noteq> t"
  shows "last_attempt_was t (lg (w_store (intercept_calls G calls w)) sid) P"
proof -
  obtain new where new: "lg (w_store (intercept_calls G calls w)) sid = lg (w_store w) sid @ new"
    "\<forall>a \<in> set new. \<exists>(T, c) \<in> set calls. cr_session_id c = sid \<and> ca_call a = call_record c"
    using intercept_calls_log [OF good] by blast
  then have "\<forall>a \<in> set new. attempt_tool a \<noteq> t"
    using other by (fastforce simp: attempt_tool_def)
  moreover obtain pre a post where "lg (w_store w) sid = pre @ a # post" "attempt_tool a = t"
    "\<forall>b \<in> set post. attempt_tool b \<noteq> t" "P a"
    using last unfolding last_attempt_was_def by blast
  ultimately show ?thesis
    unfolding last_attempt_was_def new(1)
    by (intro exI [of _ pre] exI [of _ a] exI [of _ "post @ new"]) auto
qed

lemma evasion_flagged:
  assumes "good (w_store w)" "call_decision G T c w = Respond b tier"
    and "last_attempt_was (cr_tool_name c) (lg (w_store w) (cr_session_id c))
      (\<lambda>a. ca_outcome a = BLOCKED \<and> \<not> dict_eq (tc_params (ca_call a)) (cr_params c))"
  shows "0 < flagged_detector_count b"
proof -
  have "lr_is_flagged (sb_loop_rate b)"
    unfolding scoring_parts(2) [OF assms(1) respond_scored(1) [OF assms(2)]] loop_rate_flagged_iff
    using assms(3) by blast
  then show ?thesis by (metis flagged_count_zero_iff neq0_conv)
qed

lemma escalation_flagged:
  assumes "good (w_store w)" "call_decision G T c w = Respond b tier"
    and "a \<in> set (lg (w_store w) (cr_session_id c))" "attempt_tool a \<notin> baseline_footprint (cr_task_type c)"
  shows "0 < flagged_detector_count b"
proof -
  have "\<not> attempt_tool ` set (lg (w_store w) (cr_session_id c)) \<union> {cr_tool_name c} \<subseteq> baseline_footprint (cr_task_type c)"
    using assms(3,4) by blast
  then have "is_escalated (sb_escalation b)"
    unfolding scoring_parts(1) [OF assms(1) respond_scored(1) [OF assms(2)]] is_escalated_iff .
  then show ?thesis by (metis flagged_count_zero_iff neq0_conv)
qed

lemma flagged_response:
  assumes "call_decision G T c w = Respond b tier" "0 < flagged_detector_count b"
  shows "tier \<noteq> ALLOW"
    and "tier_get (cr_tool_name c) (gr_tiers G) = Inr reg \<Longrightarrow> IRREVERSIBLE_LOW_VALUE \<le> tr_tier reg \<Longrightarrow> \<not> executes tier"
    and "tier_get (cr_tool_name c) (gr_tiers G) = Inr reg \<Longrightarrow> tr_tier reg = IRREVERSIBLE_HIGH_VALUE \<Longrightarrow> tier = BLOCK"
proof -
  obtain reg' where reg: "tier_get (cr_tool_name c) (gr_tiers G) = Inr reg'"
    and tier: "tier = decide_response_tier (flagged_detector_count b) (tr_tier reg')"
    using respond_scored(3) [OF assms(1)] by blast
  from assms(2) show "tier \<noteq> ALLOW" unfolding tier by (simp add: decide_response_tier_def)
  show "tier_get (cr_tool_name c) (gr_tiers G) = Inr reg \<Longrightarrow> IRREVERSIBLE_LOW_VALUE \<le> tr_tier reg \<Longrightarrow> \<not> executes tier"
    using assms(2) reg unfolding tier decide_executes_iff by (simp add: not_less)
  show "tier_get (cr_tool_name c) (gr_tiers G) = Inr reg \<Longrightarrow> tr_tier reg = IRREVERSIBLE_HIGH_VALUE \<Longrightarrow> tier = BLOCK"
    using assms(2) reg unfolding tier by (simp add: decide_response_tier_def)
qed

text \<open>Scoring answers if the embedding model and the content detector do.\<close>

lemma scoring_answers:
  assumes "good s" "\<And>t. \<exists>v. tp_embedder (cr_task_representation c) t = Inr v"
    and "\<And>t ps. \<exists>r. gr_content_detector G t ps = Inr r"
  shows "\<exists>b. run_scoring G c s = Inr b"
proof -
  have "\<exists>v. schema_or_none (check_schema (gr_schemas G) (cr_tool_name c) (cr_params c)) = Inr v"
    by (cases "schema_get (cr_tool_name c) (gr_schemas G)")
      (auto simp: schema_or_none_def check_schema_def schema_get_def Let_def split: option.splits)
  moreover have "\<exists>r. check_param_divergence (cr_task_representation c) (cr_tool_name c) (cr_params c)
      (cr_divergence_threshold c) = Inr r"
    using assms(2) [of "call_topic_text (cr_tool_name c) (cr_params c)"]
    by (auto simp: check_param_divergence_def Let_def)
  moreover have "\<exists>r. check_exfiltration (gr_store G) s (cr_session_id c) (cr_tool_name c) (cr_params c)
      DEFAULT_OUTBOUND_FREQUENCY_THRESHOLD DEFAULT_CONTENT_SIZE_THRESHOLD = Inr r"
    using check_exfiltration_flagged_iff [OF assms(1)] by blast
  moreover obtain r where "gr_content_detector G (cr_tool_name c) (cr_params c) = Inr r" using assms(3) by blast
  ultimately show ?thesis
    by (auto simp: run_scoring_def footprint [OF assms(1)] check_tool_loop_rate_log [OF assms(1)] Let_def)
qed

lemma scored_decision:
  assumes "\<not> open_at (ct_check T) (w_breaker w)" "run_scoring G c (w_store w) = Inr b"
    and "tier_get (cr_tool_name c) (gr_tiers G) = Inr reg"
  shows "call_decision G T c w = Respond b (decide_response_tier (flagged_detector_count b) (tr_tier reg))"
  using runs [OF assms(1), of "wrapped_scoring G c" "w_store w" "Inr b" "w_store w" "ct_trip T"] assms(2,3)
  by (auto simp: wrapped_scoring_def call_decision_def decision_of_def)

text \<open>The result of a call, the logged attempt and the decision agree.\<close>

lemma intercept_outcome:
  assumes "good (w_store w)" "intercept_and_call G T c w = (Inr res, w')"
  shows "\<exists>out detail. lg (w_store w') = log_append (cr_session_id c) (call_attempt (call_record c) out detail) (lg (w_store w))
    \<and> (out = ALLOWED \<longleftrightarrow> ir_allowed res) \<and> (ir_allowed res \<longleftrightarrow> ir_tool_result res \<noteq> None)
    \<and> (out = PENDING_APPROVAL \<longleftrightarrow> ir_approval_request_id res = Some (ct_request_id T))
    \<and> (out = BLOCKED \<longleftrightarrow> \<not> ir_allowed res \<and> ir_response_tier res = BLOCK)
    \<and> (permits c (call_decision G T c w) \<longleftrightarrow> ir_allowed res)"
proof -
  let ?d = "call_decision G T c w"
  have eff: "decision_effects lg G T c ?d w (Inr res) w'"
    using intercept_refines [OF assms] by blast
  then have ne: "logged_outcome c ?d \<noteq> None" by (cases ?d) (auto simp: decision_effects_def)
  then obtain out where out: "logged_outcome c ?d = Some out" by blast
  from eff obtain o' where res: "res = final_result c (ct_request_id T) ?d o'"
    and o': "o' \<noteq> None \<longleftrightarrow> permits c ?d"
    using ne by (cases ?d) (auto simp: decision_effects_def split: if_splits sum.splits)
  have "(out = ALLOWED \<longleftrightarrow> ir_allowed res) \<and> (ir_allowed res \<longleftrightarrow> ir_tool_result res \<noteq> None)
    \<and> (out = PENDING_APPROVAL \<longleftrightarrow> ir_approval_request_id res = Some (ct_request_id T))
    \<and> (out = BLOCKED \<longleftrightarrow> \<not> ir_allowed res \<and> ir_response_tier res = BLOCK)"
  proof (cases ?d)
    case (Bypass p)
    with out res o' show ?thesis by (cases p) (auto simp: bypass_result_def ir_allowed_def)
  next
    case (Respond b tier)
    with out res o' show ?thesis by (cases tier) (auto simp: scored_result_def ir_allowed_def executes_def)
  qed (use out in simp)
  with eff out permits_iff_logged [of c ?d] show ?thesis by (auto simp: decision_effects_def)
qed

end

end
