(* ===== verification/Mediation.thy ===== *)
theory Mediation
  imports Interceptor
begin

section \<open>What the interception layer guarantees\<close>

text \<open>
  The properties of \<open>intercept_and_call\<close>, on every store and breaker that meet their contracts
  (\<open>interception G good lg open_at\<close>), each with a witness on the deployed wiring
  \<open>default_guardrails\<close>.
\<close>

subsection \<open>A concrete call\<close>

definition demo_world :: "(memory_store, circuit_breaker) world" where
  "demo_world = \<lparr>w_store = [], w_breaker = cb_new 3 30, w_queue = aq_empty DEFAULT_TIMEOUT_SECONDS,
     w_metrics = metrics0, w_executed = []\<rparr>"

definition demo_times :: call_times where
  "demo_times = \<lparr>ct_check = 0, ct_trip = 0, ct_submit = 0, ct_request_id = ''r1''\<rparr>"

text \<open>An embedder that finds every call on topic.\<close>

definition demo_task :: task_representation where
  "demo_task = \<lparr>tp_embedder = (\<lambda>_. Inr [1]), tp_current_vector = [1],
     tp_current_task_text = ''Please check my inbox and reply to anything urgent'',
     tp_sub_task_index = 0, tp_history = [[1]]\<rparr>"

definition demo_request :: "string \<Rightarrow> params \<Rightarrow> call_request" where
  "demo_request tool_name ps = \<lparr>cr_task_representation = demo_task, cr_task_type = INBOX_TRIAGE,
     cr_session_id = ''s'', cr_tool_name = tool_name, cr_params = ps, cr_turn_index = 0,
     cr_divergence_threshold = FAKE_DIVERGENCE_THRESHOLD, cr_shadow_mode = False\<rparr>"

lemma default_guardrails_ok: "guardrails_ok default_guardrails"
  by (simp add: guardrails_ok_def default_guardrails_def ft_complete_def default_registry_def
      default_tier_registry_def dict_keys_def default_tools_def)

text \<open>A breaker that is open: its last trip was just now.\<close>

definition demo_open_world :: "(memory_store, circuit_breaker) world" where
  "demo_open_world = demo_world\<lparr>w_breaker := cb_failed 0 (cb_new 1 30)\<rparr>"

lemma demo_open: "cb_open_at (ct_check demo_times) (w_breaker demo_open_world)"
  by (simp add: demo_open_world_def demo_times_def cb_open_at_def cb_state_at_def cb_failed_def cb_new_def)

subsection \<open>Complete mediation\<close>

text \<open>
  C1: a call of the interception layer executes at most one tool call, the requested one with the
  requested parameters; it executes it exactly when the decision permits it, and a decision
  permits it only in shadow mode, for the response tiers that let calls run, or, while the
  circuit is open, for tools whose policy is to fail open.
\<close>

theorem complete_mediation:
  assumes "interception G good lg open_at" "guardrails_ok G" "good (w_store w)"
  shows "w_executed (snd (intercept_and_call G T c w)) = w_executed w
      @ (if permits c (call_decision G T c w) then [(cr_tool_name c, cr_params c)] else [])
    \<and> (case call_decision G T c w of
         Raise e \<Rightarrow> \<not> permits c (Raise e)
       | Bypass p \<Rightarrow> permits c (Bypass p) = (p = FAIL_OPEN) \<and> p = fail_policy_for (gr_tiers G) (cr_tool_name c)
       | Respond b tier \<Rightarrow> permits c (Respond b tier) = (cr_shadow_mode c \<or> tier = ALLOW \<or> tier = FLAG))"
proof
  show "w_executed (snd (intercept_and_call G T c w)) = w_executed w
      @ (if permits c (call_decision G T c w) then [(cr_tool_name c, cr_params c)] else [])"
    using interception.intercept_executed [OF assms(1,3), of c T] assms(2) by simp
  show "case call_decision G T c w of
         Raise e \<Rightarrow> \<not> permits c (Raise e)
       | Bypass p \<Rightarrow> permits c (Bypass p) = (p = FAIL_OPEN) \<and> p = fail_policy_for (gr_tiers G) (cr_tool_name c)
       | Respond b tier \<Rightarrow> permits c (Respond b tier) = (cr_shadow_mode c \<or> tier = ALLOW \<or> tier = FLAG)"
    by (auto simp: executes_def call_decision_def decision_of_def split: decision.splits sum.splits if_splits)
qed

theorem complete_mediation_witness:
  "w_executed (snd (intercept_and_call default_guardrails demo_times (demo_request ''send_payment'' []) demo_open_world))
     = (if permits (demo_request ''send_payment'' [])
            (call_decision default_guardrails demo_times (demo_request ''send_payment'' []) demo_open_world)
        then [(''send_payment'', [])] else [])"
  using complete_mediation [OF default_interception default_guardrails_ok, where w = demo_open_world and T = demo_times
      and c = "demo_request ''send_payment'' []"]
  by (simp add: demo_open_world_def demo_world_def demo_request_def)

subsection \<open>The result and the log\<close>

text \<open>
  C2: a call that returns a result appends exactly one attempt to its session, the call itself,
  and leaves every other session's log alone; the attempt is logged as allowed exactly when
  the result says the call was allowed, which is when the tool ran and its output is in the
  result; otherwise it is logged as pending when the result has an approval request, and as
  blocked when the response is a block.
\<close>

theorem result_matches_log:
  assumes "interception G good lg open_at" "good (w_store w)" "intercept_and_call G T c w = (Inr res, w')"
  shows "\<exists>out detail. lg (w_store w') = log_append (cr_session_id c) (call_attempt (call_record c) out detail) (lg (w_store w))
    \<and> (out = ALLOWED \<longleftrightarrow> ir_allowed res) \<and> (ir_allowed res \<longleftrightarrow> ir_tool_result res \<noteq> None)
    \<and> (out = PENDING_APPROVAL \<longleftrightarrow> ir_approval_request_id res = Some (ct_request_id T))
    \<and> (out = BLOCKED \<longleftrightarrow> \<not> ir_allowed res \<and> ir_response_tier res = BLOCK)"
  using interception.intercept_outcome [OF assms] by blast

lemma demo_open_result:
  "intercept_and_call default_guardrails demo_times (demo_request ''send_payment'' []) demo_open_world
     = (Inr (bypass_result (demo_request ''send_payment'' []) BLOCK None ''circuit_open_fail_closed''),
        snd (intercept_and_call default_guardrails demo_times (demo_request ''send_payment'' []) demo_open_world))"
proof -
  obtain r w' where rw: "intercept_and_call default_guardrails demo_times (demo_request ''send_payment'' []) demo_open_world = (r, w')"
    by fastforce
  have "fail_policy_for (gr_tiers default_guardrails) ''send_payment'' = FAIL_CLOSED"
    by (simp add: fail_policy_for_def default_guardrails_def default_tier_get default_tier_def map_of_default
        default_tool_lookup tr_fail_policy_def)
  then have "call_decision default_guardrails demo_times (demo_request ''send_payment'' []) demo_open_world = Bypass FAIL_CLOSED"
    using dflt.open_bypasses [OF demo_open, of "demo_request ''send_payment'' []"] by (simp add: demo_request_def)
  with dflt.intercept_refines [OF _ rw] rw show ?thesis by (simp add: decision_effects_def)
qed

theorem result_matches_log_witness:
  "\<exists>out detail. mem_log (w_store (snd (intercept_and_call default_guardrails demo_times
        (demo_request ''send_payment'' []) demo_open_world)))
     = log_append ''s'' (call_attempt (call_record (demo_request ''send_payment'' [])) out detail) (mem_log [])"
  using result_matches_log [OF default_interception _ demo_open_result]
  by (auto simp: demo_request_def demo_open_world_def demo_world_def)

text \<open>
  C3: the log of a session is a complete and truthful audit trail: over any sequence of calls of
  the session, exceptions included, the tool calls that were executed are, in order, exactly the
  calls of the new attempts with the outcome allowed.
\<close>

theorem audit_trail_complete:
  assumes "interception G good lg open_at" "guardrails_ok G" "good (w_store w)"
    and "\<forall>(T, c) \<in> set calls. cr_session_id c = sid"
  shows "\<exists>new. lg (w_store (intercept_calls G calls w)) sid = lg (w_store w) sid @ new
    \<and> w_executed (intercept_calls G calls w) = w_executed w
        @ map (\<lambda>a. (tc_tool_name (ca_call a), tc_params (ca_call a))) (filter (\<lambda>a. ca_outcome a = ALLOWED) new)"
  using interception.audit_trail [OF assms(1,3,2,4)] by (simp add: allowed_calls_def)

theorem audit_trail_complete_witness:
  "\<exists>new. mem_log (w_store (intercept_calls default_guardrails
        [(demo_times, demo_request ''read_inbox'' [(''count'', ''3'')]), (demo_times, demo_request ''send_payment'' [])]
        demo_world)) ''s'' = mem_log [] ''s'' @ new"
  using audit_trail_complete [OF default_interception default_guardrails_ok, where w = demo_world and sid = "''s''" and
      calls = "[(demo_times, demo_request ''read_inbox'' [(''count'', ''3'')]), (demo_times, demo_request ''send_payment'' [])]"]
  by (auto simp: demo_request_def demo_world_def)

subsection \<open>Fail-open and fail-closed\<close>

text \<open>
  C4: while the circuit is open no call is scored; a tool that is not registered or whose effects
  cannot be undone is not executed and the call is answered with a block, logged as blocked;
  the others are executed, logged as allowed, and their result is marked as a bypass.
\<close>

theorem open_circuit_policy:
  assumes "interception G good lg open_at" "guardrails_ok G" "good (w_store w)"
    and "open_at (ct_check T) (w_breaker w)" "intercept_and_call G T c w = (r, w')"
  shows "case tier_get (cr_tool_name c) (gr_tiers G) of
      Inl e \<Rightarrow> r = Inr (bypass_result c BLOCK None ''circuit_open_fail_closed'') \<and> w_executed w' = w_executed w
    | Inr reg \<Rightarrow>
        if IRREVERSIBLE_LOW_VALUE \<le> tr_tier reg
        then r = Inr (bypass_result c BLOCK None ''circuit_open_fail_closed'') \<and> w_executed w' = w_executed w
        else w_executed w' = w_executed w @ [(cr_tool_name c, cr_params c)]
          \<and> (case r of Inl e \<Rightarrow> fst (tool_run G c w) = Inl e
             | Inr res \<Rightarrow> res = bypass_result c ALLOW (ir_tool_result res) ''circuit_open_fail_open'')"
proof -
  have d: "call_decision G T c w = Bypass (fail_policy_for (gr_tiers G) (cr_tool_name c))"
    by (rule interception.open_bypasses [OF assms(1,4)])
  have eff: "decision_effects lg G T c (call_decision G T c w) w r w'"
    using interception.intercept_refines [OF assms(1,3,5)] by blast
  have run: "permits c (call_decision G T c w) \<Longrightarrow> w_executed w' = w_executed w @ [(cr_tool_name c, cr_params c)]"
    using interception.intercept_executed(1) [OF assms(1,3), of c T] assms(2,5) by simp
  show ?thesis
  proof (cases "tier_get (cr_tool_name c) (gr_tiers G)")
    case (Inl e)
    then have "fail_policy_for (gr_tiers G) (cr_tool_name c) = FAIL_CLOSED"
      by (auto simp: fail_policy_for_def split: exn.splits)
    with eff d Inl show ?thesis by (simp add: decision_effects_def)
  next
    case (Inr reg)
    then have p: "fail_policy_for (gr_tiers G) (cr_tool_name c) = tier_fail_policy (tr_tier reg)"
      by (simp add: fail_policy_for_def tr_fail_policy_def)
    show ?thesis
    proof (cases "IRREVERSIBLE_LOW_VALUE \<le> tr_tier reg")
      case True
      with p fail_policy_irreversible have "fail_policy_for (gr_tiers G) (cr_tool_name c) = FAIL_CLOSED" by simp
      with eff d Inr True show ?thesis by (simp add: decision_effects_def)
    next
      case False
      with p fail_policy_irreversible have f: "fail_policy_for (gr_tiers G) (cr_tool_name c) = FAIL_OPEN"
        by (metis fail_policy.exhaust)
      with d have "permits c (call_decision G T c w)" by simp
      from run [OF this] eff d Inr False f show ?thesis
        by (auto simp: decision_effects_def bypass_result_def split: sum.splits)
    qed
  qed
qed

theorem open_circuit_policy_witness:
  "w_executed (snd (intercept_and_call default_guardrails demo_times (demo_request ''send_payment'' []) demo_open_world)) = []"
  using open_circuit_policy [OF default_interception default_guardrails_ok _ demo_open demo_open_result]
  by (simp add: demo_request_def demo_open_world_def demo_world_def default_guardrails_def default_tier_get
      default_tier_def map_of_default default_tool_lookup less_eq_risk_tier_def)

subsection \<open>What a session cannot do any more\<close>

text \<open>
  C11: outside shadow mode no flagged call of an irreversible tool runs: a high-value one is
  blocked, with no approval asked for, and a low-value one is held with a request filed for it; and
  its attempt is never logged as allowed. In shadow mode the same call does go to its tool, and its
  attempt is logged as allowed.
\<close>

theorem flagged_irreversible_never_runs:
  assumes "interception G good lg open_at" "good (w_store w)"
    and "call_decision G T c w = Respond b tier" "0 < flagged_detector_count b"
    and "tier_get (cr_tool_name c) (gr_tiers G) = Inr reg" "IRREVERSIBLE_LOW_VALUE \<le> tr_tier reg"
    and "intercept_and_call G T c w = (r, w')"
  shows "(\<not> cr_shadow_mode c \<longrightarrow> w_executed w' = w_executed w
      \<and> (\<exists>a. lg (w_store w') (cr_session_id c) = lg (w_store w) (cr_session_id c) @ [a]
           \<and> ca_call a = call_record c \<and> ca_outcome a \<noteq> ALLOWED)
      \<and> (tr_tier reg = IRREVERSIBLE_HIGH_VALUE \<longrightarrow> r = Inr (scored_result c b BLOCK None None) \<and> w_queue w' = w_queue w)
      \<and> (tr_tier reg = IRREVERSIBLE_LOW_VALUE \<longrightarrow>
           r = Inr (scored_result c b REQUIRE_APPROVAL None (Some (ct_request_id T)))
           \<and> dict_get (aq_requests (w_queue w')) (ct_request_id T)
               = Some (new_request (ct_request_id T) (ct_submit T) (cr_session_id c) (cr_tool_name c) (cr_params c))))
    \<and> (cr_shadow_mode c \<longrightarrow>
         w_executed w' = snd (ft_call (gr_tools G) (cr_tool_name c) (cr_params c) (w_executed w))
         \<and> (\<exists>a. lg (w_store w') (cr_session_id c) = lg (w_store w) (cr_session_id c) @ [a]
              \<and> ca_call a = call_record c \<and> ca_outcome a = ALLOWED))"
proof -
  have eff: "decision_effects lg G T c (Respond b tier) w r w'"
    using interception.intercept_refines [OF assms(1,2,7)] assms(3) by simp
  have stop: "\<not> executes tier"
    by (rule interception.flagged_response(2) [OF assms(1,3,4,5,6)])
  obtain reg' where "tier_get (cr_tool_name c) (gr_tiers G) = Inr reg'"
    "tier = decide_response_tier (flagged_detector_count b) (tr_tier reg')"
    using interception.respond_scored(3) [OF assms(1,3)] by blast
  with assms(4,5) have tier: "tr_tier reg = IRREVERSIBLE_HIGH_VALUE \<Longrightarrow> tier = BLOCK"
    "tr_tier reg = IRREVERSIBLE_LOW_VALUE \<Longrightarrow> tier = REQUIRE_APPROVAL"
    by (auto simp: decide_response_tier_def)
  show ?thesis
  proof (cases "cr_shadow_mode c")
    case True
    with eff show ?thesis by (auto simp: decision_effects_def tool_run_def call_attempt_def)
  next
    case False
    have "w_executed w' = w_executed w" using eff stop False by (simp add: decision_effects_def)
    moreover have "\<exists>a. lg (w_store w') (cr_session_id c) = lg (w_store w) (cr_session_id c) @ [a]
        \<and> ca_call a = call_record c \<and> ca_outcome a \<noteq> ALLOWED"
      using eff stop False by (auto simp: decision_effects_def call_attempt_def)
    moreover have "tr_tier reg = IRREVERSIBLE_HIGH_VALUE \<longrightarrow>
        r = Inr (scored_result c b BLOCK None None) \<and> w_queue w' = w_queue w"
      using eff tier(1) False by (auto simp: decision_effects_def executes_def)
    moreover have "tr_tier reg = IRREVERSIBLE_LOW_VALUE \<longrightarrow>
        r = Inr (scored_result c b REQUIRE_APPROVAL None (Some (ct_request_id T)))
        \<and> dict_get (aq_requests (w_queue w')) (ct_request_id T)
            = Some (new_request (ct_request_id T) (ct_submit T) (cr_session_id c) (cr_tool_name c) (cr_params c))"
      using eff tier(2) False by (auto simp: decision_effects_def executes_def)
    ultimately show ?thesis using False by blast
  qed
qed

text \<open>
  C9: probing does not pay: after a call of a tool was blocked, and whatever other tools the session
  calls in between, the next call of the same tool with other parameters is flagged whenever it is
  scored, so it never gets the plain response allow, and for an irreversible tool it does not run
  outside shadow mode.
\<close>

theorem blocked_retry_flagged:
  assumes "interception G good lg open_at" "good (w_store w)"
    and "logged_outcome c1 (call_decision G T1 c1 w) = Some BLOCKED"
    and "\<forall>(T, c) \<in> set calls. cr_session_id c = cr_session_id c1 \<longrightarrow> cr_tool_name c \<noteq> cr_tool_name c1"
    and "cr_session_id c2 = cr_session_id c1" "cr_tool_name c2 = cr_tool_name c1"
      "\<not> dict_eq (cr_params c1) (cr_params c2)"
    and w2: "w2 = intercept_calls G calls (snd (intercept_and_call G T1 c1 w))"
    and d2: "call_decision G T2 c2 w2 = Respond b tier"
  shows "0 < flagged_detector_count b \<and> tier \<noteq> ALLOW
    \<and> (\<forall>reg. tier_get (cr_tool_name c2) (gr_tiers G) = Inr reg \<longrightarrow> IRREVERSIBLE_LOW_VALUE \<le> tr_tier reg \<longrightarrow> \<not> executes tier)"
proof -
  let ?t = "cr_tool_name c2" and ?sid = "cr_session_id c2" and ?w1 = "snd (intercept_and_call G T1 c1 w)"
  let ?P = "\<lambda>a. ca_outcome a = BLOCKED \<and> \<not> dict_eq (tc_params (ca_call a)) (cr_params c2)"
  have good1: "good (w_store ?w1)" by (rule interception.intercept_good [OF assms(1,2)])
  obtain det where "lg (w_store ?w1) ?sid = lg (w_store w) ?sid @ [call_attempt (call_record c1) BLOCKED det]"
    using interception.intercept_log [OF assms(1,2), of T1 c1 ?sid] assms(3,5) by simp
  then have "last_attempt_was ?t (lg (w_store ?w1) ?sid) ?P"
    unfolding last_attempt_was_def using assms(6,7)
    by (intro exI [of _ "lg (w_store w) ?sid"] exI [of _ "call_attempt (call_record c1) BLOCKED det"] exI [of _ "[]"])
      (simp add: attempt_tool_def)
  then have "last_attempt_was ?t (lg (w_store w2) ?sid) ?P"
    unfolding w2 by (rule interception.blocked_remembered [OF assms(1) good1]) (use assms(4-6) in auto)
  moreover have "good (w_store w2)" unfolding w2 by (rule interception.intercept_calls_good [OF assms(1) good1])
  ultimately have flag: "0 < flagged_detector_count b"
    using interception.evasion_flagged [OF assms(1) _ d2] by blast
  with interception.flagged_response [OF assms(1) d2 flag] show ?thesis by blast
qed

text \<open>
  C10: escalation sticks: once a session has attempted a tool outside the footprint of its task type,
  with whatever outcome, every later scored call of the session for that task type is flagged, on
  whatever tool.
\<close>

theorem escalation_sticks:
  assumes "interception G good lg open_at" "good (w_store w)"
    and "logged_outcome c1 (call_decision G T1 c1 w) \<noteq> None"
    and "cr_tool_name c1 \<notin> baseline_footprint (cr_task_type c2)" "cr_session_id c2 = cr_session_id c1"
    and "w2 = intercept_calls G calls (snd (intercept_and_call G T1 c1 w))"
    and "call_decision G T2 c2 w2 = Respond b tier"
  shows "0 < flagged_detector_count b \<and> tier \<noteq> ALLOW"
proof -
  let ?sid = "cr_session_id c2" and ?w1 = "snd (intercept_and_call G T1 c1 w)"
  have good1: "good (w_store ?w1)" by (rule interception.intercept_good [OF assms(1,2)])
  obtain out det where log1: "lg (w_store ?w1) ?sid = lg (w_store w) ?sid @ [call_attempt (call_record c1) out det]"
    using interception.intercept_log [OF assms(1,2), of T1 c1 ?sid] assms(3,5) by auto
  obtain new where "lg (w_store w2) ?sid = lg (w_store ?w1) ?sid @ new"
    using interception.intercept_calls_log [OF assms(1) good1, of calls ?sid] assms(6) by blast
  with log1 have a: "call_attempt (call_record c1) out det \<in> set (lg (w_store w2) ?sid)" by simp
  have good2: "good (w_store w2)"
    unfolding assms(6) by (rule interception.intercept_calls_good [OF assms(1) good1])
  have flag: "0 < flagged_detector_count b"
    by (rule interception.escalation_flagged [OF assms(1) good2 assms(7) a]) (simp add: attempt_tool_def assms(4))
  with interception.flagged_response(1) [OF assms(1,7) flag] show ?thesis by simp
qed

subsection \<open>Metrics\<close>

text \<open>
  Recording the flags of a scoring adds to the six detector counters together exactly its
  flag count, the number the response is decided on.
\<close>

theorem flag_metrics_agree:
  "sum_list (map (m_flags (record_flag_metrics b m)) DETECTOR_NAMES)
     = sum_list (map (m_flags m) DETECTOR_NAMES) + flagged_detector_count b
   \<and> flagged_detector_count b \<le> 6"
  using flag_metrics_total [of b m] by (simp add: flagged_detector_count_def Let_def)

text \<open>
  The counter of circuit-breaker trips is never moved by any sequence of intercepted calls,
  those included in which the breaker trips, although it is exported to count them.
\<close>

theorem breaker_trips_never_counted:
  assumes "interception G good lg open_at" "good (w_store w)"
  shows "m_breaker_trips (w_metrics (intercept_calls G calls w)) = m_breaker_trips (w_metrics w)"
  using assms(2)
proof (induction calls arbitrary: w)
  case (Cons x calls)
  obtain T c where x: "x = (T, c)" by (cases x)
  have "m_breaker_trips (w_metrics (snd (intercept_and_call G T c w))) = m_breaker_trips (w_metrics w)"
    using interception.intercept_refines [OF assms(1) Cons.prems, of T c]
    by (cases "intercept_and_call G T c w") (simp add: decision_effects_def)
  with Cons.IH [OF interception.intercept_good [OF assms(1) Cons.prems]] show ?case by (simp add: x)
qed simp

text \<open>A world in which scoring fails once and trips the breaker.\<close>

definition demo_failing_request :: call_request where
  "demo_failing_request = (demo_request ''read_inbox'' [(''count'', ''3'')])
     \<lparr>cr_task_representation := demo_task\<lparr>tp_embedder := (\<lambda>_. Inl (External ''model''))\<rparr>\<rparr>"

definition demo_fragile_world :: "(memory_store, circuit_breaker) world" where
  "demo_fragile_world = demo_world\<lparr>w_breaker := cb_new 1 30\<rparr>"

theorem breaker_trips_never_counted_witness:
  "m_breaker_trips (w_metrics (intercept_calls default_guardrails [(demo_times, demo_failing_request)] demo_fragile_world))
     ''detector_scoring'' = 0
   \<and> cb_open_at 1 (w_breaker (intercept_calls default_guardrails [(demo_times, demo_failing_request)] demo_fragile_world))"
proof
  show "m_breaker_trips (w_metrics (intercept_calls default_guardrails [(demo_times, demo_failing_request)] demo_fragile_world))
     ''detector_scoring'' = 0"
    using breaker_trips_never_counted [OF default_interception, where w = demo_fragile_world
        and calls = "[(demo_times, demo_failing_request)]"]
    by (simp add: demo_fragile_world_def demo_world_def metrics0_def)
  have "check_schema build_default_schema_registry ''read_inbox'' [(''count'', ''3'')]
      = Inr \<lparr>sv_tool_name = ''read_inbox'', sv_missing_params = {}, sv_unexpected_params = {}\<rparr>"
    by (simp add: check_schema_def schema_get_def default_schemas required_schema_def allowed_params_def
        dict_keys_def Let_def)
  then have "run_scoring default_guardrails demo_failing_request [] = Inl (External ''model'')"
    by (simp add: run_scoring_def demo_failing_request_def demo_request_def demo_task_def default_guardrails_def
        schema_or_none_def check_param_divergence_def)
  then show "cb_open_at 1 (w_breaker (intercept_calls default_guardrails [(demo_times, demo_failing_request)] demo_fragile_world))"
    by (simp add: intercept_and_call_def default_guardrails_def cb_call_def wrapped_scoring_def
        demo_fragile_world_def demo_world_def demo_times_def cb_state_at_def cb_new_def cb_failed_def
        cb_open_at_def Let_def)
qed

subsection \<open>Witnesses with a scored call\<close>

text \<open>On the default wiring a demonstration call is scored whenever the breaker is closed.\<close>

lemma default_scoring: "\<exists>b. run_scoring default_guardrails (demo_request t ps) s = Inr b"
  by (rule dflt.scoring_answers)
    (simp_all add: demo_request_def demo_task_def default_guardrails_def heuristic_check_content_def Let_def)

lemma default_responds:
  assumes "\<not> cb_open_at (ct_check T) (w_breaker w)" "map_of default_tools t = Some (tr, f)"
  shows "\<exists>b. call_decision default_guardrails T (demo_request t ps) w
    = Respond b (decide_response_tier (flagged_detector_count b) tr)"
proof -
  obtain b where "run_scoring default_guardrails (demo_request t ps) (w_store w) = Inr b"
    using default_scoring by blast
  moreover have "tier_get (cr_tool_name (demo_request t ps)) (gr_tiers default_guardrails) = Inr \<lparr>tr_tool_name = t, tr_tier = tr\<rparr>"
    using assms(2) by (simp add: demo_request_def default_guardrails_def default_tier_get default_tier_def map_of_default)
  ultimately show ?thesis using dflt.scored_decision [OF assms(1)] by fastforce
qed

definition demo_later :: call_times where
  "demo_later = \<lparr>ct_check = 100, ct_trip = 100, ct_submit = 100, ct_request_id = ''r2''\<rparr>"

definition demo_world2 :: "(memory_store, circuit_breaker) world" where
  "demo_world2 = snd (intercept_and_call default_guardrails demo_times (demo_request ''send_payment'' []) demo_open_world)"

lemma demo_open_decision:
  "call_decision default_guardrails demo_times (demo_request ''send_payment'' []) demo_open_world = Bypass FAIL_CLOSED"
  using dflt.open_bypasses [OF demo_open, of "demo_request ''send_payment'' []"]
  by (simp add: demo_request_def fail_policy_for_def default_guardrails_def default_tier_get default_tier_def
      map_of_default default_tool_lookup tr_fail_policy_def)

lemma demo_world2_closed: "\<not> cb_open_at (ct_check demo_later) (w_breaker demo_world2)"
proof -
  have "gr_breaker_call default_guardrails = cb_call" by (simp add: default_guardrails_def)
  moreover have "cb_state_at (ct_check demo_times) (w_breaker demo_open_world) = OPEN"
    using demo_open by (simp add: cb_open_at_def)
  ultimately have w2: "demo_world2 = snd (intercept_open default_guardrails (demo_request ''send_payment'' []) demo_open_world)"
    by (simp add: demo_world2_def intercept_and_call_def cb_call_def)
  have "fail_policy_for (gr_tiers default_guardrails) (cr_tool_name (demo_request ''send_payment'' [])) = FAIL_CLOSED"
    using demo_open_decision dflt.open_bypasses [OF demo_open, of "demo_request ''send_payment'' []"] by simp
  then have "w_breaker demo_world2 = w_breaker demo_open_world"
    unfolding w2 by (simp add: intercept_open_def log_attempt_def default_guardrails_def memory_ops_def mem_append_attempt_def Let_def)
  then show ?thesis
    by (simp add: demo_open_world_def demo_later_def cb_open_at_def cb_state_at_def cb_failed_def cb_new_def)
qed

theorem blocked_retry_flagged_witness:
  "\<exists>b tier. call_decision default_guardrails demo_later (demo_request ''send_payment'' [(''amount'', ''5'')]) demo_world2
       = Respond b tier \<and> 0 < flagged_detector_count b"
proof -
  obtain b tier where d: "call_decision default_guardrails demo_later (demo_request ''send_payment'' [(''amount'', ''5'')]) demo_world2
       = Respond b tier"
    using default_responds [OF demo_world2_closed default_tool_lookup(11)] by blast
  have "0 < flagged_detector_count b"
    using blocked_retry_flagged [OF default_interception, where w = demo_open_world and ?T1.0 = demo_times
        and ?c1.0 = "demo_request ''send_payment'' []" and calls = "[]" and ?w2.0 = demo_world2, OF _ _ _ _ _ _ _ d]
      demo_open_decision
    by (simp add: demo_world2_def demo_request_def dict_eq_def)
  with d show ?thesis by blast
qed

theorem escalation_sticks_witness:
  "\<exists>b tier. call_decision default_guardrails demo_later (demo_request ''read_inbox'' [(''count'', ''3'')]) demo_world2
       = Respond b tier \<and> tier \<noteq> ALLOW"
proof -
  obtain b tier where d: "call_decision default_guardrails demo_later (demo_request ''read_inbox'' [(''count'', ''3'')]) demo_world2
       = Respond b tier"
    using default_responds [OF demo_world2_closed default_tool_lookup(1)] by blast
  have "tier \<noteq> ALLOW"
    using escalation_sticks [OF default_interception, where w = demo_open_world and ?T1.0 = demo_times
        and ?c1.0 = "demo_request ''send_payment'' []" and calls = "[]" and ?w2.0 = demo_world2, OF _ _ _ _ _ d]
      demo_open_decision
    by (simp add: demo_world2_def demo_request_def baseline_simps)
  with d show ?thesis by blast
qed

theorem flagged_irreversible_never_runs_witness:
  "w_executed (snd (intercept_and_call default_guardrails demo_later
      (demo_request ''send_payment'' [(''amount'', ''5'')]) demo_world2)) = w_executed demo_world2"
proof -
  let ?c = "demo_request ''send_payment'' [(''amount'', ''5'')]"
  obtain b tier where d: "call_decision default_guardrails demo_later ?c demo_world2 = Respond b tier"
    using default_responds [OF demo_world2_closed default_tool_lookup(11)] by blast
  have "run_scoring default_guardrails ?c (w_store demo_world2) = Inr b"
    by (rule dflt.respond_scored(1) [OF d])
  then have "is_escalated (sb_escalation b)"
    using dflt.scoring_parts(1) by (fastforce simp: is_escalated_iff demo_request_def baseline_simps)
  then have "0 < flagged_detector_count b" by (metis flagged_count_zero_iff neq0_conv)
  with flagged_irreversible_never_runs [OF default_interception _ d, of
      "\<lparr>tr_tool_name = ''send_payment'', tr_tier = IRREVERSIBLE_HIGH_VALUE\<rparr>"
      "fst (intercept_and_call default_guardrails demo_later ?c demo_world2)"
      "snd (intercept_and_call default_guardrails demo_later ?c demo_world2)"]
  show ?thesis
    by (simp add: demo_request_def default_guardrails_def default_tier_get default_tier_def map_of_default
        default_tool_lookup less_eq_risk_tier_def)
qed

end
