(* ===== verification/TaskCompletion.thy ===== *)
theory TaskCompletion
  imports NormalTraffic Mediation
begin

section \<open>The task completion report\<close>

text \<open>
  Models \<open>evaluation/task_completion_report.py\<close>: generated sessions are run through
  \<open>intercept_and_call\<close>, each with a new store, breaker and approval queue, and the report counts
  those in which every call was allowed. The generator of a seed and what the environment supplies
  to each call are parameters; the metrics and the tools are shared by all sessions. Shown: with
  the default tools and the heuristic content detector no generated session is disrupted, whatever
  the generator draws, as long as the embedding finds the calls on topic.
\<close>

record task_completion_result =
  td_task_type :: task_type
  td_session_id :: string
  td_completed_cleanly :: bool
  td_first_disruption_tier :: "string option"

record task_completion_report =
  tk_total_sessions :: nat
  tk_cleanly_completed :: nat
  tk_disrupted :: nat

definition clean_completion_rate :: "task_completion_report \<Rightarrow> pyfloat" where
  "clean_completion_rate r =
     (if tk_total_sessions r \<noteq> 0 then real (tk_cleanly_completed r) / real (tk_total_sessions r) else 0)"

definition false_positive_task_cost_rate :: "task_completion_report \<Rightarrow> pyfloat" where
  "false_positive_task_cost_rate r =
     (if tk_total_sessions r \<noteq> 0 then real (tk_disrupted r) / real (tk_total_sessions r) else 0)"

text \<open>
  What outlives a session: the number of calls made, which picks the readings of the clock and the
  identifier the next call gets, the metrics, and the log of the tools.
\<close>

record harness =
  hs_calls :: nat
  hs_metrics :: metrics
  hs_executed :: executions

definition harness_guardrails ::
    "fake_tool_registry \<Rightarrow> tool_registry \<Rightarrow> schema_registry \<Rightarrow> content_detector
      \<Rightarrow> (memory_store, circuit_breaker) guardrails" where
  "harness_guardrails tools tiers schemas check_content =
     \<lparr>gr_tools = tools, gr_tiers = tiers, gr_schemas = schemas, gr_store = memory_ops, gr_breaker_call = cb_call,
      gr_content_detector = check_content\<rparr>"

definition session_world :: "harness \<Rightarrow> (memory_store, circuit_breaker) world" where
  "session_world h = \<lparr>w_store = [], w_breaker = cb_new 3 30, w_queue = aq_empty DEFAULT_TIMEOUT_SECONDS,
     w_metrics = hs_metrics h, w_executed = hs_executed h\<rparr>"

definition completion_request :: "task_representation \<Rightarrow> pyfloat \<Rightarrow> task_type \<Rightarrow> string \<Rightarrow> tool_call \<Rightarrow> call_request" where
  "completion_request tp threshold task_type session_id call =
     \<lparr>cr_task_representation = tp, cr_task_type = task_type, cr_session_id = session_id,
      cr_tool_name = tc_tool_name call, cr_params = tc_params call, cr_turn_index = tc_turn_index call,
      cr_divergence_threshold = threshold, cr_shadow_mode = False\<rparr>"

text \<open>The loop over the calls of a session.\<close>

fun run_calls ::
    "(memory_store, circuit_breaker) guardrails \<Rightarrow> (nat \<Rightarrow> call_times) \<Rightarrow> (tool_call \<Rightarrow> call_request) \<Rightarrow> tool_call list
      \<Rightarrow> string option \<Rightarrow> nat \<Rightarrow> (memory_store, circuit_breaker) world
      \<Rightarrow> string option result \<times> nat \<times> (memory_store, circuit_breaker) world" where
  "run_calls G env_at request [] first_disruption k w = (Inr first_disruption, k, w)"
| "run_calls G env_at request (call # calls) first_disruption k w =
     (case intercept_and_call G (env_at k) (request call) w of
        (Inl e, w) \<Rightarrow> (Inl e, k + 1, w)
      | (Inr result, w) \<Rightarrow>
          run_calls G env_at request calls
            (if ir_response_tier result \<noteq> ALLOW \<and> first_disruption = None
             then Some (response_tier_value (ir_response_tier result)) else first_disruption) (k + 1) w)"

definition run_session ::
    "(memory_store, circuit_breaker) guardrails \<Rightarrow> (nat \<Rightarrow> call_times) \<Rightarrow> task_representation \<Rightarrow> pyfloat \<Rightarrow> task_type
      \<Rightarrow> session \<Rightarrow> harness \<Rightarrow> task_completion_result result \<times> harness" where
  "run_session G env_at tp threshold task_type session h =
     (let (r, k, w) = run_calls G env_at (completion_request tp threshold task_type (ss_session_id session))
            (ss_calls session) None (hs_calls h) (session_world h)
      in (res_bind r (\<lambda>first_disruption.
            Inr \<lparr>td_task_type = task_type, td_session_id = ss_session_id session,
                 td_completed_cleanly = (first_disruption = None), td_first_disruption_tier = first_disruption\<rparr>),
          \<lparr>hs_calls = k, hs_metrics = w_metrics w, hs_executed = w_executed w\<rparr>))"

fun run_sessions ::
    "(session \<Rightarrow> harness \<Rightarrow> task_completion_result result \<times> harness) \<Rightarrow> session list \<Rightarrow> harness
      \<Rightarrow> task_completion_result list result \<times> harness" where
  "run_sessions run [] h = (Inr [], h)"
| "run_sessions run (s # ss) h =
     st_bind (run s h) (\<lambda>r h. st_bind (run_sessions run ss h) (\<lambda>rs h. (Inr (r # rs), h)))"

definition seeded_sessions :: "'g rng \<Rightarrow> (int \<Rightarrow> 'g) \<Rightarrow> int \<Rightarrow> int \<Rightarrow> task_type \<Rightarrow> session list" where
  "seeded_sessions R seeded sessions_per_task_type seed_offset task_type =
     map (\<lambda>i. fst (generate_session R task_type (seeded (seed_offset + int i)))) [0..<nat sessions_per_task_type]"

fun run_task_types ::
    "embedder \<Rightarrow> (task_representation \<Rightarrow> task_type \<Rightarrow> harness \<Rightarrow> task_completion_result list result \<times> harness)
      \<Rightarrow> task_type list \<Rightarrow> harness \<Rightarrow> task_completion_result list result \<times> harness" where
  "run_task_types embed_fn run [] h = (Inr [], h)"
| "run_task_types embed_fn run (tt # tts) h =
     (case tp_start embed_fn (TASK_INITIAL_USER_TEXT tt) of
        Inl e \<Rightarrow> (Inl e, h)
      | Inr tp \<Rightarrow> st_bind (run tp tt h) (\<lambda>rs h. st_bind (run_task_types embed_fn run tts h) (\<lambda>rss h. (Inr (rs @ rss), h))))"

definition completion_report :: "task_completion_result list \<Rightarrow> task_completion_report" where
  "completion_report results =
     (let cleanly_completed = length (filter td_completed_cleanly results)
      in \<lparr>tk_total_sessions = length results, tk_cleanly_completed = cleanly_completed,
          tk_disrupted = length results - cleanly_completed\<rparr>)"

definition run_task_completion_report ::
    "'g rng \<Rightarrow> (int \<Rightarrow> 'g) \<Rightarrow> (nat \<Rightarrow> call_times) \<Rightarrow> embedder \<Rightarrow> (memory_store, circuit_breaker) guardrails
      \<Rightarrow> pyfloat \<Rightarrow> int \<Rightarrow> int \<Rightarrow> harness \<Rightarrow> task_completion_report result \<times> harness" where
  "run_task_completion_report R seeded env_at embed_fn G divergence_threshold sessions_per_task_type seed_offset h =
     st_bind (run_task_types embed_fn
        (\<lambda>tp tt. run_sessions (run_session G env_at tp divergence_threshold tt)
           (seeded_sessions R seeded sessions_per_task_type seed_offset tt)) all_task_types h)
       (\<lambda>results h. (Inr (completion_report results), h))"


subsection \<open>One call\<close>

lemma clean_call:
  assumes "run_scoring G c (w_store w) = Inr b" "flagged_detector_count b = 0" "cb_state (w_breaker w) = CLOSED"
    and "tier_get (cr_tool_name c) (gr_tiers G) = Inr reg"
    and "ft_call (gr_tools G) (cr_tool_name c) (cr_params c) (w_executed w) = (Inr out, ex)"
    and "gr_store G = memory_ops" "gr_breaker_call G = cb_call" "\<not> cr_shadow_mode c"
  obtains res w' d where "intercept_and_call G T c w = (Inr res, w')" "ir_response_tier res = ALLOW"
    "cb_state (w_breaker w') = CLOSED" "w_executed w' = ex"
    "mem_log (w_store w') = log_append (cr_session_id c) (call_attempt (call_record c) ALLOWED d) (mem_log (w_store w))"
proof -
  have closed: "cb_state_at t (w_breaker w) \<noteq> OPEN" for t
    using assms(3) by (simp add: cb_state_at_def split: option.splits)
  obtain w1 where w1: "intercept_and_call G T c w = intercept_respond G (ct_request_id T) (ct_submit T) c b ALLOW w1"
    "w_store w1 = w_store w" "w_breaker w1 = cb_succeeded (w_breaker w)" "w_executed w1 = w_executed w"
    using assms closed
    by (simp add: intercept_and_call_def cb_call_def wrapped_scoring_def intercept_scored_def decide_response_tier_def
        Let_def on_metrics_def)
  let ?d = "Some (JDict (scoring_to_dict b))"
  have "intercept_respond G (ct_request_id T) (ct_submit T) c b ALLOW w1
     = (Inr (scored_result c b ALLOW (Some out) None),
        w1\<lparr>w_store := snd (mem_append_attempt (cr_session_id c) (call_record c) ALLOWED ?d (w_store w1)), w_executed := ex\<rparr>)"
    using assms w1(4)
    by (simp add: intercept_respond_def log_attempt_def run_tool_def memory_ops_def mem_append_attempt_def Let_def)
  with w1 show thesis
    by (intro that [of _ _ ?d]) (auto simp: scored_result_def mem_log_append cb_succeeded_def)
qed


lemma normal_scoring:
  assumes "rng_lawful R" "generate_session R tt g = (s, g')" "ss_calls s = pre @ c # post"
    and "map ca_call (mem_log st sid) = pre" "list_all (\<lambda>a. ca_outcome a = ALLOWED) (mem_log st sid)"
    and "check_param_divergence tp (tc_tool_name c) (tc_params c) threshold = Inr d" "\<not> pd_is_divergent d"
  shows "\<exists>b. run_scoring (harness_guardrails tools tiers build_default_schema_registry heuristic_check_content)
      (completion_request tp threshold tt sid c) st = Inr b \<and> flagged_detector_count b = 0"
proof -
  note normal_call_unflagged [OF assms(1-3) mem.session_store_axioms _ assms(4,5)]
  then obtain v F l e where
    "check_schema build_default_schema_registry (tc_tool_name c) (tc_params c) = Inr v" "\<not> is_violation v"
    "so_get_tool_footprint memory_ops sid st = Inr F"
    "\<not> is_escalated (check_permission_escalation tt (F \<union> {tc_tool_name c}))"
    "check_tool_loop_rate memory_ops st sid (tc_tool_name c) (tc_params c) DEFAULT_RATE_THRESHOLD = Inr l"
    "\<not> lr_is_flagged l"
    "check_exfiltration memory_ops st sid (tc_tool_name c) (tc_params c)
       DEFAULT_OUTBOUND_FREQUENCY_THRESHOLD DEFAULT_CONTENT_SIZE_THRESHOLD = Inr e" "\<not> ex_is_flagged e"
    by blast
  moreover have "params_plain (tc_params c)"
    by (rule session_params_plain [OF assms(1,2)]) (simp add: assms(3))
  ultimately show ?thesis using assms(6,7)
    by (simp add: run_scoring_def harness_guardrails_def completion_request_def schema_or_none_def plain_params_clean
        flagged_count_zero_iff schema_flagged_def Let_def)
qed

lemma normal_call_serves:
  assumes "rng_lawful R" "generate_session R tt g = (s, g')" "c \<in> set (ss_calls s)"
  shows "\<exists>reg. tier_get (tc_tool_name c) default_tier_registry = Inr reg"
    and "\<exists>out. ft_call default_registry (tc_tool_name c) ps ex = (Inr out, ex @ [(tc_tool_name c, ps)])"
proof -
  have "tc_tool_name c \<in> baseline_footprint tt"
    using session_calls_ok [OF assms] by (simp add: call_ok_def)
  then show "\<exists>reg. tier_get (tc_tool_name c) default_tier_registry = Inr reg"
    "\<exists>out. ft_call default_registry (tc_tool_name c) ps ex = (Inr out, ex @ [(tc_tool_name c, ps)])"
    by (cases tt; auto simp: baseline_simps default_tool_lookup default_ft_call default_tool_outputs default_tier_get
        default_tier_def map_of_default)+
qed

subsection \<open>A session and the report\<close>

definition executions_of :: "tool_call list \<Rightarrow> executions" where
  "executions_of calls = map (\<lambda>c. (tc_tool_name c, tc_params c)) calls"

definition on_topic :: "task_representation \<Rightarrow> pyfloat \<Rightarrow> tool_call \<Rightarrow> bool" where
  "on_topic tp threshold c \<longleftrightarrow>
     (\<exists>d. check_param_divergence tp (tc_tool_name c) (tc_params c) threshold = Inr d \<and> \<not> pd_is_divergent d)"

definition default_harness :: "(memory_store, circuit_breaker) guardrails" where
  "default_harness =
     harness_guardrails default_registry default_tier_registry build_default_schema_registry heuristic_check_content"

lemma run_calls_clean:
  assumes "rng_lawful R" "generate_session R tt g = (s, g')" "\<And>c. c \<in> set (ss_calls s) \<Longrightarrow> on_topic tp threshold c"
  shows "ss_calls s = pre @ calls \<Longrightarrow> map ca_call (mem_log (w_store w) sid) = pre \<Longrightarrow>
     list_all (\<lambda>a. ca_outcome a = ALLOWED) (mem_log (w_store w) sid) \<Longrightarrow> cb_state (w_breaker w) = CLOSED \<Longrightarrow>
     \<exists>w'. run_calls default_harness env_at (completion_request tp threshold tt sid) calls None k w
            = (Inr None, k + length calls, w') \<and> w_executed w' = w_executed w @ executions_of calls"
proof (induction calls arbitrary: pre k w)
  case Nil
  then show ?case by (simp add: executions_of_def)
next
  case (Cons c calls)
  let ?r = "completion_request tp threshold tt sid c"
  from Cons.prems(1) have c: "c \<in> set (ss_calls s)" by simp
  from assms(3) [OF c] obtain d where d: "check_param_divergence tp (tc_tool_name c) (tc_params c) threshold = Inr d"
    "\<not> pd_is_divergent d" by (auto simp: on_topic_def)
  obtain b where b: "run_scoring default_harness ?r (w_store w) = Inr b" "flagged_detector_count b = 0"
    using normal_scoring [OF assms(1,2) Cons.prems(1-3) d] unfolding default_harness_def by blast
  obtain reg out where reg: "tier_get (cr_tool_name ?r) (gr_tiers default_harness) = Inr reg"
    and out: "ft_call (gr_tools default_harness) (cr_tool_name ?r) (cr_params ?r) (w_executed w)
      = (Inr out, w_executed w @ [(tc_tool_name c, tc_params c)])"
    using normal_call_serves(1) [OF assms(1,2) c]
      normal_call_serves(2) [OF assms(1,2) c, of "tc_params c" "w_executed w"]
    by (auto simp: completion_request_def default_harness_def harness_guardrails_def)
  obtain res w1 e where step: "intercept_and_call default_harness (env_at k) ?r w = (Inr res, w1)"
    "ir_response_tier res = ALLOW" "cb_state (w_breaker w1) = CLOSED"
    "w_executed w1 = w_executed w @ [(tc_tool_name c, tc_params c)]"
    "mem_log (w_store w1) = log_append (cr_session_id ?r) (call_attempt (call_record ?r) ALLOWED e) (mem_log (w_store w))"
    by (rule clean_call [OF b Cons.prems(4) reg out, of "env_at k"])
      (auto simp: default_harness_def harness_guardrails_def completion_request_def)
  have log: "mem_log (w_store w1) sid = mem_log (w_store w) sid @ [call_attempt c ALLOWED e]"
    unfolding step(5) by (simp add: completion_request_def call_record_def)
  obtain w' where "run_calls default_harness env_at (completion_request tp threshold tt sid) calls None (k + 1) w1
      = (Inr None, k + 1 + length calls, w')" "w_executed w' = w_executed w1 @ executions_of calls"
    using Cons.IH [of "pre @ [c]" w1 "k + 1"] Cons.prems step(3) log by auto
  with step(1,2,4) show ?case by (simp add: executions_of_def)
qed


definition normal_session :: "'g rng \<Rightarrow> task_representation \<Rightarrow> pyfloat \<Rightarrow> task_type \<Rightarrow> session \<Rightarrow> bool" where
  "normal_session R tp threshold tt s \<longleftrightarrow>
     (\<exists>g. s = fst (generate_session R tt g)) \<and> list_all (on_topic tp threshold) (ss_calls s)"

definition advanced :: "tool_call list \<Rightarrow> harness \<Rightarrow> harness \<Rightarrow> bool" where
  "advanced calls h h' \<longleftrightarrow> hs_executed h' = hs_executed h @ executions_of calls
     \<and> hs_calls h' = hs_calls h + length calls"

lemma advanced_simps [simp]: "advanced [] h h"
  by (simp add: advanced_def executions_of_def)

lemma advanced_trans: "advanced cs h h' \<Longrightarrow> advanced ds h' h'' \<Longrightarrow> advanced (cs @ ds) h h''"
  by (simp add: advanced_def executions_of_def)

lemma run_session_clean:
  assumes "rng_lawful R" "normal_session R tp threshold tt s"
  shows "\<exists>r h'. run_session default_harness env_at tp threshold tt s h = (Inr r, h') \<and> td_completed_cleanly r
    \<and> advanced (ss_calls s) h h'"
proof -
  obtain g g' where g: "generate_session R tt g = (s, g')"
    using assms(2) unfolding normal_session_def by (metis prod.collapse)
  have "on_topic tp threshold c" if "c \<in> set (ss_calls s)" for c
    using assms(2) that by (simp add: normal_session_def list_all_iff)
  from run_calls_clean [OF assms(1) g this, of "[]" "ss_calls s" "session_world h" "ss_session_id s" env_at "hs_calls h"]
  show ?thesis
    by (auto simp: run_session_def session_world_def cb_new_def mem_log_def dict_get_or_def advanced_def)
qed

lemma run_sessions_clean:
  assumes "rng_lawful R"
  shows "list_all (normal_session R tp threshold tt) ss \<Longrightarrow>
    \<exists>rs h'. run_sessions (run_session default_harness env_at tp threshold tt) ss h = (Inr rs, h')
      \<and> length rs = length ss \<and> list_all td_completed_cleanly rs \<and> advanced (concat (map ss_calls ss)) h h'"
proof (induction ss arbitrary: h)
  case (Cons s ss)
  obtain r h1 where 1: "run_session default_harness env_at tp threshold tt s h = (Inr r, h1)"
    "td_completed_cleanly r" "advanced (ss_calls s) h h1"
    using run_session_clean [OF assms, of tp threshold tt s env_at h] Cons.prems by auto
  obtain rs h2 where "run_sessions (run_session default_harness env_at tp threshold tt) ss h1 = (Inr rs, h2)"
    "length rs = length ss" "list_all td_completed_cleanly rs" "advanced (concat (map ss_calls ss)) h1 h2"
    using Cons.IH [of h1] Cons.prems by auto
  with 1 show ?case by (auto intro: advanced_trans)
qed simp

definition embedding_on_topic :: "'g rng \<Rightarrow> embedder \<Rightarrow> pyfloat \<Rightarrow> bool" where
  "embedding_on_topic R embed_fn threshold \<longleftrightarrow>
     (\<forall>tt. \<exists>tp. tp_start embed_fn (TASK_INITIAL_USER_TEXT tt) = Inr tp
        \<and> (\<forall>g. list_all (on_topic tp threshold) (ss_calls (fst (generate_session R tt g)))))"

definition seeded_calls :: "'g rng \<Rightarrow> (int \<Rightarrow> 'g) \<Rightarrow> int \<Rightarrow> int \<Rightarrow> task_type list \<Rightarrow> tool_call list" where
  "seeded_calls R seeded n offset tts =
     concat (map (\<lambda>tt. concat (map ss_calls (seeded_sessions R seeded n offset tt))) tts)"

lemma run_task_types_clean:
  assumes "rng_lawful R" "embedding_on_topic R embed_fn threshold"
  shows "\<exists>rs h'. run_task_types embed_fn
      (\<lambda>tp tt. run_sessions (run_session default_harness env_at tp threshold tt) (seeded_sessions R seeded n offset tt)) tts h
        = (Inr rs, h')
    \<and> length rs = length tts * nat n \<and> list_all td_completed_cleanly rs \<and> advanced (seeded_calls R seeded n offset tts) h h'"
proof (induction tts arbitrary: h)
  case Nil
  show ?case by (simp add: seeded_calls_def)
next
  case (Cons tt tts)
  let ?ss = "seeded_sessions R seeded n offset tt"
  obtain tp where tp: "tp_start embed_fn (TASK_INITIAL_USER_TEXT tt) = Inr tp"
    "\<And>g. list_all (on_topic tp threshold) (ss_calls (fst (generate_session R tt g)))"
    using assms(2) unfolding embedding_on_topic_def by blast
  have "list_all (normal_session R tp threshold tt) ?ss"
    using tp(2) by (auto simp: seeded_sessions_def normal_session_def list_all_iff)
  then obtain rs h1 where 1: "run_sessions (run_session default_harness env_at tp threshold tt) ?ss h = (Inr rs, h1)"
    "length rs = length ?ss" "list_all td_completed_cleanly rs" "advanced (concat (map ss_calls ?ss)) h h1"
    using run_sessions_clean [OF assms(1)] by blast
  obtain rss h2 where "run_task_types embed_fn
      (\<lambda>tp tt. run_sessions (run_session default_harness env_at tp threshold tt) (seeded_sessions R seeded n offset tt)) tts h1
        = (Inr rss, h2)"
    "length rss = length tts * nat n" "list_all td_completed_cleanly rss" "advanced (seeded_calls R seeded n offset tts) h1 h2"
    using Cons.IH [of h1] by blast
  with 1 tp(1) show ?case
    by (auto simp: seeded_calls_def seeded_sessions_def intro: advanced_trans)
qed

text \<open>
  C6: with the default tools, schemas and thresholds and the heuristic content detector, and an
  embedding that finds the calls of generated sessions on topic, the task completion report counts
  no disrupted session and a clean completion rate of one, whatever the generator draws for
  whatever seeds: every call of every session is executed, in the order of the sessions, and
  nothing else is.
\<close>

theorem generated_traffic_undisturbed:
  assumes "rng_lawful R" "embedding_on_topic R embed_fn threshold" "0 < n"
  shows "\<exists>report h'. run_task_completion_report R seeded env_at embed_fn default_harness threshold n offset h = (Inr report, h')
    \<and> tk_total_sessions report = 5 * nat n \<and> tk_disrupted report = 0
    \<and> clean_completion_rate report = 1 \<and> false_positive_task_cost_rate report = 0
    \<and> hs_executed h' = hs_executed h @ executions_of (seeded_calls R seeded n offset all_task_types)"
proof -
  obtain rs h' where "run_task_types embed_fn
      (\<lambda>tp tt. run_sessions (run_session default_harness env_at tp threshold tt) (seeded_sessions R seeded n offset tt))
      all_task_types h = (Inr rs, h')"
    "length rs = 5 * nat n" "list_all td_completed_cleanly rs"
    "advanced (seeded_calls R seeded n offset all_task_types) h h'"
    using run_task_types_clean [OF assms(1,2), of env_at seeded n offset all_task_types h] by (auto simp: all_task_types_def)
  moreover from this have "filter td_completed_cleanly rs = rs" by (simp add: list_all_iff)
  ultimately show ?thesis using assms(3)
    by (simp add: run_task_completion_report_def completion_report_def clean_completion_rate_def
        false_positive_task_cost_rate_def advanced_def Let_def)
qed

theorem generated_traffic_undisturbed_witness:
  "\<exists>report h'. run_task_completion_report rng_counter (\<lambda>i. nat i) (\<lambda>_. demo_times) (\<lambda>_. Inr [1]) default_harness
       FAKE_DIVERGENCE_THRESHOLD 20 0 \<lparr>hs_calls = 0, hs_metrics = metrics0, hs_executed = []\<rparr> = (Inr report, h')
     \<and> tk_total_sessions report = 100 \<and> tk_disrupted report = 0"
proof -
  have "embedding_on_topic rng_counter (\<lambda>_. Inr [1]) FAKE_DIVERGENCE_THRESHOLD"
    by (simp add: embedding_on_topic_def tp_start_def on_topic_def check_param_divergence_def cosine_similarity_def
        dot_def norm2_def FAKE_DIVERGENCE_THRESHOLD_def list_all_iff)
  from generated_traffic_undisturbed [OF rng_counter_lawful this, of 20]
  show ?thesis by fastforce
qed

end
