(* ===== verification/Investigation.thy ===== *)
theory Investigation
  imports Mediation Redaction
begin

section \<open>Explanations and the investigation report\<close>

text \<open>
  Models \<open>explainability/explainer.py\<close>, \<open>investigation/report.py\<close> and, of \<open>api/app.py\<close>, the
  findings that go into an explanation (\<open>_collect_flagged_reasons\<close>). Shown: a report exists for
  every session the interception layer has logged, its totals are those of the log, the decision
  it shows for a held call is the one the approval queue has; what leaves as a redacted report
  shows no sensitive text in a parameter or a reasoning; and a block that only the
  content-pattern detector caused is explained as having no finding.
\<close>

subsection \<open>Explainers\<close>

record explanation_context =
  ec_tool_name :: string
  ec_response_tier :: string
  ec_flagged_reasons :: "string list"

type_synonym explainer = "explanation_context \<Rightarrow> string result"

definition quoted :: "string \<Rightarrow> string" where
  "quoted s = [CHR 0x27] @ s @ [CHR 0x27]"

definition template_explain :: "explanation_context \<Rightarrow> string" where
  "template_explain context =
     (if ec_flagged_reasons context = [] then
        ''The call to '' @ quoted (ec_tool_name context) @ '' was '' @ ec_response_tier context
          @ '' with no specific detector findings recorded.''
      else let reasons_text = str_join ''; '' (ec_flagged_reasons context) in
        ''The call to '' @ quoted (ec_tool_name context) @ '' was '' @ ec_response_tier context
          @ '' because the following was observed: '' @ reasons_text
          @ ''. This is a correlational finding, not a certainty of malicious intent.'')"

definition TemplateExplainer :: explainer where
  "TemplateExplainer context = Inr (template_explain context)"

definition explain_prompt :: "explanation_context \<Rightarrow> string" where
  "explain_prompt context =
     (let joined = str_join ''; '' (ec_flagged_reasons context);
          reasons_text = (if joined = [] then ''no specific findings recorded'' else joined) in
      ''A tool-calling AI agent'' @ [CHR 0x27] @ ''s action was intercepted by a security guardrail. Tool: ''
        @ quoted (ec_tool_name context) @ ''. Decision: '' @ quoted (ec_response_tier context)
        @ ''. Findings: '' @ reasons_text
        @ ''. In 1-2 sentences, explain to a human approver why this was flagged, stating clearly this is a correlational finding, not a proven certainty of malicious intent.'')"

definition GroqExplainer :: "llm \<Rightarrow> explainer" where
  "GroqExplainer llm context =
     (case llm (explain_prompt context) of
        Inr content \<Rightarrow> Inr (strip is_space content)
      | Inl _ \<Rightarrow> TemplateExplainer context)"

lemma explainers_answer: "\<exists>s. GroqExplainer llm context = Inr s" "\<exists>s. TemplateExplainer context = Inr s"
  by (auto simp: GroqExplainer_def TemplateExplainer_def split: sum.split)

text \<open>\<open>_collect_flagged_reasons\<close>: one line per detector that flagged, of five detectors.\<close>

definition schema_reason :: "schema_violation \<Rightarrow> string" where
  "schema_reason v = ''schema_violation: missing='' @ list_str (sorted_strs (sv_missing_params v))
     @ '', unexpected='' @ list_str (sorted_strs (sv_unexpected_params v))"

definition collect_scoring_reasons :: "scoring_bundle \<Rightarrow> string list" where
  "collect_scoring_reasons b =
     (case sb_schema_violation b of None \<Rightarrow> [] | Some v \<Rightarrow> if is_violation v then [schema_reason v] else [])
   @ (if pd_is_divergent (sb_divergence b)
      then [''param_divergence: similarity='' @ fixed3 (pd_similarity (sb_divergence b)) @ '' below threshold''] else [])
   @ (if is_escalated (sb_escalation b)
      then [''permission_escalation: '' @ list_str (sorted_strs (pe_escalated_tools (sb_escalation b)))
              @ '' outside task baseline''] else [])
   @ (if lr_is_flagged (sb_loop_rate b)
      then [''loop_rate: evasion='' @ bool_str (lr_is_evasion_retry (sb_loop_rate b))
              @ '', rate_exceeded='' @ bool_str (lr_is_rate_exceeded (sb_loop_rate b))] else [])
   @ (if ex_is_flagged (sb_exfiltration b)
      then [''exfiltration: frequency='' @ bool_str (ex_is_frequency_exceeded (sb_exfiltration b))
              @ '', content='' @ bool_str (ex_is_content_anomalous (sb_exfiltration b))] else [])"

definition collect_flagged_reasons :: "interception_result \<Rightarrow> string list" where
  "collect_flagged_reasons r =
     (case ir_scoring r of None \<Rightarrow> [] | Some b \<Rightarrow> collect_scoring_reasons b)"

lemma collect_reasons_length:
  "length (collect_scoring_reasons b) + (if cp_is_suspicious (sb_content_pattern b) then 1 else 0)
     = flagged_detector_count b"
  by (simp add: collect_scoring_reasons_def flagged_detector_count_def schema_flagged_def Let_def split: option.split)

subsection \<open>The report\<close>

record call_report_entry =
  cre_turn_index :: int
  cre_tool_name :: string
  cre_params :: params
  cre_outcome :: string
  cre_scoring_detail :: "json option"
  cre_approval_outcome :: "string option"
  cre_approval_decided_by_role :: "string option"

record investigation_report =
  rp_session_id :: string
  rp_total_calls :: nat
  rp_calls :: "call_report_entry list"
  rp_flagged_call_count :: nat
  rp_outcome_breakdown :: "(string, nat) dict"

text \<open>\<open>detail.get(key)\<close> on stored data, and \<open>value > 0\<close>.\<close>

fun detail_get :: "json \<Rightarrow> string \<Rightarrow> json option result" where
  "detail_get (JDict d) k = Inr (map_of d k)"
| "detail_get _ k = Inl AttributeError"

fun json_positive :: "json \<Rightarrow> bool result" where
  "json_positive (JInt i) = Inr (i > 0)"
| "json_positive (JFloat x) = Inr (x > 0)"
| "json_positive (JBool b) = Inr b"
| "json_positive _ = Inl TypeError"

definition attempt_flagged :: "json option \<Rightarrow> bool result" where
  "attempt_flagged scoring_detail =
     (case scoring_detail of
        None \<Rightarrow> Inr False
      | Some d \<Rightarrow> res_bind (detail_get d ''flagged_detector_count'') (\<lambda>v.
          json_positive (case v of None \<Rightarrow> JInt 0 | Some j \<Rightarrow> j)))"

text \<open>
  The fields of a held call: what \<open>approval_queue.get\<close> answers, at two clock readings. An id that
  cannot be hashed raises; one that is not a string names no request.
\<close>

fun queue_lookup :: "json \<Rightarrow> pyfloat \<times> pyfloat \<Rightarrow> aq_state \<Rightarrow> (string option \<times> string option) result \<times> aq_state" where
  "queue_lookup (JStr rid) (t_check, t_expire) st =
     (case aq_get rid t_check t_expire st of
        (Inl e, st') \<Rightarrow> (Inr (None, None), st')
      | (Inr request, st') \<Rightarrow> (Inr (Some (outcome_value (ar_outcome request)),
           map_option approver_role_value (ar_decided_by_role request)), st'))"
| "queue_lookup (JList _) t st = (Inl TypeError, st)"
| "queue_lookup (JDict _) t st = (Inl TypeError, st)"
| "queue_lookup _ t st = (Inr (None, None), st)"

definition attempt_approval ::
    "call_attempt \<Rightarrow> pyfloat \<times> pyfloat \<Rightarrow> aq_state option \<Rightarrow> (string option \<times> string option) result \<times> aq_state option" where
  "attempt_approval a t queue =
     (case (ca_outcome a, ca_scoring_detail a, queue) of
        (PENDING_APPROVAL, Some d, Some st) \<Rightarrow>
          (case detail_get d ''approval_request_id'' of
             Inl e \<Rightarrow> (Inl e, queue)
           | Inr None \<Rightarrow> (Inr (None, None), queue)
           | Inr (Some request_id) \<Rightarrow>
               if request_id = JNull then (Inr (None, None), queue)
               else (let (r, st') = queue_lookup request_id t st in (r, Some st')))
      | _ \<Rightarrow> (Inr (None, None), queue))"

text \<open>One turn of the loop over the attempts, on its three variables.\<close>

record report_acc =
  ra_entries :: "call_report_entry list"
  ra_outcome_counts :: "(string, nat) dict"
  ra_flagged_count :: nat

definition report_attempt ::
    "call_attempt \<Rightarrow> pyfloat \<times> pyfloat \<Rightarrow> report_acc \<Rightarrow> aq_state option \<Rightarrow> report_acc result \<times> aq_state option" where
  "report_attempt a t acc queue =
     (let v = call_outcome_value (ca_outcome a);
          acc = acc\<lparr>ra_outcome_counts :=
            dict_set (ra_outcome_counts acc) v (dict_get_or (ra_outcome_counts acc) v 0 + 1)\<rparr>
      in case attempt_flagged (ca_scoring_detail a) of
           Inl e \<Rightarrow> (Inl e, queue)
         | Inr flagged \<Rightarrow>
             st_bind (attempt_approval a t queue) (\<lambda>(approval_outcome, decided_by) queue.
               (Inr (acc\<lparr>ra_flagged_count := ra_flagged_count acc + (if flagged then 1 else 0),
                         ra_entries := ra_entries acc @
                           [\<lparr>cre_turn_index = tc_turn_index (ca_call a), cre_tool_name = tc_tool_name (ca_call a),
                             cre_params = tc_params (ca_call a), cre_outcome = v,
                             cre_scoring_detail = ca_scoring_detail a, cre_approval_outcome = approval_outcome,
                             cre_approval_decided_by_role = decided_by\<rparr>]\<rparr>), queue)))"

text \<open>\<open>clock i\<close>: the two readings of the lookup for the attempt number \<open>i\<close>.\<close>

fun report_loop ::
    "(nat \<Rightarrow> pyfloat \<times> pyfloat) \<Rightarrow> nat \<Rightarrow> call_attempt list \<Rightarrow> report_acc \<Rightarrow> aq_state option
       \<Rightarrow> report_acc result \<times> aq_state option" where
  "report_loop clock i [] acc queue = (Inr acc, queue)"
| "report_loop clock i (a # attempts) acc queue =
     st_bind (report_attempt a (clock i) acc queue) (report_loop clock (Suc i) attempts)"

definition generate_investigation_report ::
    "'s store_ops \<Rightarrow> (nat \<Rightarrow> pyfloat \<times> pyfloat) \<Rightarrow> string \<Rightarrow> 's \<Rightarrow> aq_state option
       \<Rightarrow> investigation_report result \<times> aq_state option" where
  "generate_investigation_report S clock session_id s queue =
     st_bind (so_get_attempts S session_id s, queue) (\<lambda>attempts queue.
     st_bind (report_loop clock 0 attempts \<lparr>ra_entries = [], ra_outcome_counts = [], ra_flagged_count = 0\<rparr> queue) (\<lambda>acc queue.
       (Inr \<lparr>rp_session_id = session_id, rp_total_calls = length (ra_entries acc), rp_calls = ra_entries acc,
             rp_flagged_call_count = ra_flagged_count acc, rp_outcome_breakdown = ra_outcome_counts acc\<rparr>, queue)))"

text \<open>
  What leaves the process. \<open>dict(detail)\<close> of a value that is no dictionary, and the substitution in
  a reasoning that is no string, raise.
\<close>

fun json_truthy :: "json \<Rightarrow> bool" where
  "json_truthy JNull = False"
| "json_truthy (JBool b) = b"
| "json_truthy (JInt i) = (i \<noteq> 0)"
| "json_truthy (JFloat x) = (x \<noteq> 0)"
| "json_truthy (JStr s) = (s \<noteq> [])"
| "json_truthy (JList xs) = (xs \<noteq> [])"
| "json_truthy (JDict d) = (d \<noteq> [])"

definition redact_content_pattern :: "json \<Rightarrow> json result" where
  "redact_content_pattern content_pattern =
     res_bind (detail_get content_pattern ''reasoning'') (\<lambda>r.
       case (r, content_pattern) of
         (Some reasoning, JDict cp) \<Rightarrow>
           if json_truthy reasoning
           then (case reasoning of
                   JStr s \<Rightarrow> Inr (JDict (dict_set cp ''reasoning'' (JStr (redact_text s))))
                 | _ \<Rightarrow> Inl TypeError)
           else Inr content_pattern
       | _ \<Rightarrow> Inr content_pattern)"

fun redact_scoring_detail :: "json option \<Rightarrow> json option result" where
  "redact_scoring_detail None = Inr None"
| "redact_scoring_detail (Some (JDict redacted)) =
     (case dict_get redacted ''content_pattern'' of
        None \<Rightarrow> Inr (Some (JDict redacted))
      | Some content_pattern \<Rightarrow>
          if content_pattern = JNull then Inr (Some (JDict redacted))
          else res_bind (redact_content_pattern content_pattern) (\<lambda>cp.
            Inr (Some (JDict (dict_set redacted ''content_pattern'' cp)))))"
| "redact_scoring_detail (Some _) = Inl TypeError"

definition entry_to_dict :: "call_report_entry \<Rightarrow> json result" where
  "entry_to_dict c =
     res_bind (redact_scoring_detail (cre_scoring_detail c)) (\<lambda>detail.
     Inr (JDict
       [(''turn_index'', JInt (cre_turn_index c)),
        (''tool_name'', JStr (cre_tool_name c)),
        (''params'', JDict (map (\<lambda>(k, v). (k, JStr v)) (redact_params (cre_params c)))),
        (''outcome'', JStr (cre_outcome c)),
        (''scoring_detail'', json_opt id detail),
        (''approval_outcome'', json_opt JStr (cre_approval_outcome c)),
        (''approval_decided_by_role'', json_opt JStr (cre_approval_decided_by_role c))]))"

definition to_redacted_dict :: "investigation_report \<Rightarrow> json result" where
  "to_redacted_dict report =
     res_bind (res_map entry_to_dict (rp_calls report)) (\<lambda>calls.
     Inr (JDict
       [(''session_id'', JStr (rp_session_id report)),
        (''total_calls'', JInt (int (rp_total_calls report))),
        (''flagged_call_count'', JInt (int (rp_flagged_call_count report))),
        (''outcome_breakdown'', JDict (map (\<lambda>(k, n). (k, JInt (int n))) (rp_outcome_breakdown report))),
        (''calls'', JList calls)]))"

subsection \<open>Details the interception layer writes\<close>

fun pattern_wf :: "json \<Rightarrow> bool" where
  "pattern_wf (JDict cp) = (case map_of cp ''reasoning'' of
     None \<Rightarrow> True | Some JNull \<Rightarrow> True | Some (JStr _) \<Rightarrow> True | _ \<Rightarrow> False)"
| "pattern_wf _ = False"

fun detail_wf :: "json option \<Rightarrow> bool" where
  "detail_wf None = True"
| "detail_wf (Some (JDict d)) \<longleftrightarrow>
     (case map_of d ''flagged_detector_count'' of Some (JInt _) \<Rightarrow> True | _ \<Rightarrow> False)
   \<and> (case map_of d ''approval_request_id'' of None \<Rightarrow> True | Some (JStr _) \<Rightarrow> True | _ \<Rightarrow> False)
   \<and> (case map_of d ''content_pattern'' of Some cp \<Rightarrow> pattern_wf cp | None \<Rightarrow> False)"
| "detail_wf (Some _) = False"

fun detail_count :: "json option \<Rightarrow> int" where
  "detail_count (Some (JDict d)) = (case map_of d ''flagged_detector_count'' of Some (JInt n) \<Rightarrow> n | _ \<Rightarrow> 0)"
| "detail_count _ = 0"

fun detail_request :: "json option \<Rightarrow> string option" where
  "detail_request (Some (JDict d)) = (case map_of d ''approval_request_id'' of Some (JStr rid) \<Rightarrow> Some rid | _ \<Rightarrow> None)"
| "detail_request _ = None"

lemma scoring_dict_gets:
  "map_of (scoring_to_dict b) ''flagged_detector_count'' = Some (JInt (int (flagged_detector_count b)))"
  "map_of (scoring_to_dict b) ''approval_request_id'' = None"
  "\<exists>cp. map_of (scoring_to_dict b) ''content_pattern'' = Some (JDict cp)
     \<and> map_of cp ''reasoning'' = Some (json_opt JStr (cp_reasoning (sb_content_pattern b)))"
  by (simp_all add: scoring_to_dict_def)

lemma logged_detail_wf: "detail_wf (logged_detail c rid d)"
proof (cases d)
  case (Respond b tier)
  obtain cp where "map_of (scoring_to_dict b) ''content_pattern'' = Some (JDict cp)"
    "map_of cp ''reasoning'' = Some (json_opt JStr (cp_reasoning (sb_content_pattern b)))"
    using scoring_dict_gets(3) by blast
  then show ?thesis
    by (cases "cp_reasoning (sb_content_pattern b)") (simp_all add: Respond scoring_dict_gets)
qed simp_all

lemma logged_detail_count:
  "detail_count (logged_detail c rid (Respond b tier)) = int (flagged_detector_count b)"
  by (simp add: scoring_dict_gets)

lemma attempt_flagged_wf: "detail_wf d \<Longrightarrow> attempt_flagged d = Inr (0 < detail_count d)"
  by (cases d rule: detail_wf.cases) (auto simp: attempt_flagged_def split: option.splits json.splits)

definition attempt_wf :: "call_attempt \<Rightarrow> bool" where
  "attempt_wf a \<longleftrightarrow> detail_wf (ca_scoring_detail a)"

lemma logged_attempt_wf [simp]: "attempt_wf (call_attempt cl out (logged_detail c rid d))"
  by (simp add: attempt_wf_def logged_detail_wf)

text \<open>What holds of every detail the interception layer writes holds of its log.\<close>

lemma interception_log_all:
  assumes I: "interception G good lg open_at"
    and P: "\<And>cl out c rid d. P (call_attempt cl out (logged_detail c rid d))"
  shows "good (w_store w) \<Longrightarrow> list_all P (lg (w_store w) sid) \<Longrightarrow>
    list_all P (lg (w_store (intercept_calls G calls w)) sid)"
proof (induction calls arbitrary: w)
  case (Cons x calls)
  obtain T c where x: "x = (T, c)" by (cases x)
  have "list_all P (lg (w_store (snd (intercept_and_call G T c w))) sid)"
    using Cons.prems(2) P
    by (auto simp: interception.intercept_log [OF I Cons.prems(1)] split: option.splits simp del: logged_detail.simps)
  with Cons.IH [OF interception.intercept_good [OF I Cons.prems(1)]] show ?case by (simp add: x)
qed simp

lemmas interception_log_wf = interception_log_all [where P = attempt_wf, OF _ logged_attempt_wf]

subsection \<open>What the report says\<close>

text \<open>A lookup only lets requests expire.\<close>

definition only_expired :: "aq_state \<Rightarrow> aq_state \<Rightarrow> bool" where
  "only_expired st st' \<longleftrightarrow> aq_extends (fst st) (fst st')
     \<and> (\<forall>rid. dict_get (aq_requests (fst st)) rid = None \<longrightarrow> dict_get (aq_requests (fst st')) rid = None)"

lemma only_expired_refl [simp]: "only_expired st st"
  by (simp add: only_expired_def)

lemma only_expired_trans: "only_expired a b \<Longrightarrow> only_expired b c \<Longrightarrow> only_expired a c"
  unfolding only_expired_def by (blast intro: aq_extends_trans)

lemma only_expired_get: "aq_ok st \<Longrightarrow> only_expired st (snd (aq_get rid t1 t2 st))"
proof (cases rule: aq_get_cases [of st rid t1 t2])
  case (expired r)
  assume ok: "aq_ok st"
  with expired aq_ok_request [OF ok expired(1)] aq_extends_get [OF ok, of rid t1 t2] show ?thesis
    by (auto simp: only_expired_def)
qed simp_all

definition held_request :: "call_attempt \<Rightarrow> string option" where
  "held_request a = (if ca_outcome a = PENDING_APPROVAL then detail_request (ca_scoring_detail a) else None)"

text \<open>
  What an entry may show of the request \<open>r\<close> it asked for, by the state of the queue: the
  outcome and the role of a resolved request are final.
\<close>

definition shows_request :: "approval_request option \<Rightarrow> string option \<times> string option \<Rightarrow> bool" where
  "shows_request r shown \<longleftrightarrow>
     (case r of
        None \<Rightarrow> shown = (None, None)
      | Some r \<Rightarrow> fst shown = Some (outcome_value PENDING)
          \<or> shown = (Some (outcome_value (ar_outcome r)), map_option approver_role_value (ar_decided_by_role r)))"

definition shows_approval :: "approval_queue \<Rightarrow> string option \<Rightarrow> string option \<times> string option \<Rightarrow> bool" where
  "shows_approval q req shown \<longleftrightarrow>
     (case req of None \<Rightarrow> shown = (None, None) | Some rid \<Rightarrow> shows_request (dict_get (aq_requests q) rid) shown)"

lemma shows_approval_later:
  assumes "shows_approval (fst st) req shown" "only_expired st st'"
  shows "shows_approval (fst st') req shown"
proof (cases req)
  case (Some rid)
  show ?thesis
  proof (cases "dict_get (aq_requests (fst st)) rid")
    case None
    with assms Some show ?thesis by (auto simp: shows_approval_def shows_request_def only_expired_def)
  next
    case (Some r)
    with assms(2) obtain r' where r': "dict_get (aq_requests (fst st')) rid = Some r'" "request_succ r r'"
      unfolding only_expired_def aq_extends_def by blast
    with assms(1) Some \<open>req = Some rid\<close> show ?thesis
      by (cases "ar_outcome r = PENDING") (auto simp: shows_approval_def shows_request_def request_succ_def)
  qed
qed (use assms in \<open>simp add: shows_approval_def\<close>)

lemma aq_get_shows:
  assumes "aq_ok st" "aq_get rid t1 t2 st = (r, st')"
  shows "shows_request (dict_get (aq_requests (fst st')) rid)
    (case r of Inl _ \<Rightarrow> (None, None)
     | Inr r \<Rightarrow> (Some (outcome_value (ar_outcome r)), map_option approver_role_value (ar_decided_by_role r)))"
proof (cases rule: aq_get_cases [of st rid t1 t2])
  case (expired r0)
  with assms aq_ok_request [OF assms(1) expired(1)] show ?thesis by (auto simp: shows_request_def)
qed (use assms in \<open>auto simp: shows_request_def\<close>)

lemma attempt_approval_spec:
  assumes ok: "aq_ok st" and wf: "attempt_wf a"
  shows "\<exists>shown st'. attempt_approval a t (Some st) = (Inr shown, Some st') \<and> aq_ok st' \<and> only_expired st st'
    \<and> shows_approval (fst st') (held_request a) shown"
proof (cases "held_request a")
  case None
  have "attempt_approval a t (Some st) = (Inr (None, None), Some st)"
    using wf None
    by (cases "ca_scoring_detail a" rule: detail_wf.cases; cases "ca_outcome a")
      (auto simp: attempt_approval_def held_request_def attempt_wf_def split: option.splits json.splits)
  with ok None show ?thesis by (auto simp: shows_approval_def)
next
  case (Some rid)
  obtain r st' where g: "aq_get rid (fst t) (snd t) st = (r, st')" by (metis surj_pair)
  have "attempt_approval a t (Some st) = (Inr (case r of Inl _ \<Rightarrow> (None, None)
     | Inr r \<Rightarrow> (Some (outcome_value (ar_outcome r)), map_option approver_role_value (ar_decided_by_role r))), Some st')"
    using Some g
    by (cases "ca_scoring_detail a" rule: detail_wf.cases; cases t)
      (auto simp: attempt_approval_def held_request_def split: option.splits json.splits if_splits sum.splits)
  with Some aq_get_shows [OF ok g] only_expired_get [OF ok, of rid "fst t" "snd t"] aq_ok_get [OF ok, of rid "fst t" "snd t"] g
  show ?thesis by (auto simp: shows_approval_def)
qed

definition entry_ok :: "approval_queue \<Rightarrow> call_attempt \<Rightarrow> call_report_entry \<Rightarrow> bool" where
  "entry_ok q a e \<longleftrightarrow> cre_turn_index e = tc_turn_index (ca_call a) \<and> cre_tool_name e = tc_tool_name (ca_call a)
     \<and> cre_params e = tc_params (ca_call a) \<and> cre_outcome e = call_outcome_value (ca_outcome a)
     \<and> cre_scoring_detail e = ca_scoring_detail a
     \<and> shows_approval q (held_request a) (cre_approval_outcome e, cre_approval_decided_by_role e)"

definition flagged_attempt :: "call_attempt \<Rightarrow> bool" where
  "flagged_attempt a \<longleftrightarrow> 0 < detail_count (ca_scoring_detail a)"

definition count_outcome :: "call_outcome \<Rightarrow> call_attempt list \<Rightarrow> nat" where
  "count_outcome out as = length (filter (\<lambda>a. ca_outcome a = out) as)"

lemma call_outcome_value_inj [simp]: "call_outcome_value a = call_outcome_value b \<longleftrightarrow> a = b"
  by (cases a; cases b) auto

lemma dict_get_or_set [simp]: "dict_get_or (dict_set d k v) k' x = (if k' = k then v else dict_get_or d k' x)"
  by (simp add: dict_get_or_def)

lemma report_attempt_spec:
  assumes ok: "aq_ok st" and wf: "attempt_wf a"
  shows "\<exists>e acc' st'. report_attempt a t acc (Some st) = (Inr acc', Some st') \<and> aq_ok st' \<and> only_expired st st'
    \<and> entry_ok (fst st') a e \<and> ra_entries acc' = ra_entries acc @ [e]
    \<and> ra_flagged_count acc' = ra_flagged_count acc + (if flagged_attempt a then 1 else 0)
    \<and> (\<forall>out. dict_get_or (ra_outcome_counts acc') (call_outcome_value out) 0
          = dict_get_or (ra_outcome_counts acc) (call_outcome_value out) 0 + count_outcome out [a])"
proof -
  obtain shown st' where "attempt_approval a t (Some st) = (Inr shown, Some st')" "aq_ok st'" "only_expired st st'"
    "shows_approval (fst st') (held_request a) shown"
    using attempt_approval_spec [OF ok wf] by blast
  moreover have "attempt_flagged (ca_scoring_detail a) = Inr (flagged_attempt a)"
    using wf by (simp add: attempt_wf_def attempt_flagged_wf flagged_attempt_def)
  ultimately show ?thesis
    by (cases shown) (auto simp: report_attempt_def entry_ok_def count_outcome_def Let_def)
qed

lemma entry_ok_later: "only_expired st st' \<Longrightarrow> entry_ok (fst st) a e \<Longrightarrow> entry_ok (fst st') a e"
  unfolding entry_ok_def using shows_approval_later by blast

lemma report_loop_spec:
  "aq_ok st \<Longrightarrow> list_all attempt_wf as \<Longrightarrow>
    \<exists>es acc' st'. report_loop clock i as acc (Some st) = (Inr acc', Some st') \<and> only_expired st st'
    \<and> list_all2 (entry_ok (fst st')) as es \<and> ra_entries acc' = ra_entries acc @ es
    \<and> ra_flagged_count acc' = ra_flagged_count acc + length (filter flagged_attempt as)
    \<and> (\<forall>out. dict_get_or (ra_outcome_counts acc') (call_outcome_value out) 0
          = dict_get_or (ra_outcome_counts acc) (call_outcome_value out) 0 + count_outcome out as)"
proof (induction as arbitrary: i acc st)
  case Nil
  show ?case by (intro exI [of _ "[]"]) (simp add: count_outcome_def)
next
  case (Cons a as)
  obtain e acc1 st1 where one: "report_attempt a (clock i) acc (Some st) = (Inr acc1, Some st1)" "aq_ok st1"
    "only_expired st st1" "entry_ok (fst st1) a e" "ra_entries acc1 = ra_entries acc @ [e]"
    "ra_flagged_count acc1 = ra_flagged_count acc + (if flagged_attempt a then 1 else 0)"
    "\<forall>out. dict_get_or (ra_outcome_counts acc1) (call_outcome_value out) 0
          = dict_get_or (ra_outcome_counts acc) (call_outcome_value out) 0 + count_outcome out [a]"
    using report_attempt_spec [of st a "clock i" acc] Cons.prems by auto
  obtain es acc' st' where more: "report_loop clock (Suc i) as acc1 (Some st1) = (Inr acc', Some st')" "only_expired st1 st'"
    "list_all2 (entry_ok (fst st')) as es" "ra_entries acc' = ra_entries acc1 @ es"
    "ra_flagged_count acc' = ra_flagged_count acc1 + length (filter flagged_attempt as)"
    "\<forall>out. dict_get_or (ra_outcome_counts acc') (call_outcome_value out) 0
          = dict_get_or (ra_outcome_counts acc1) (call_outcome_value out) 0 + count_outcome out as"
    using Cons.IH [OF one(2), of "Suc i" acc1] Cons.prems by auto
  have "entry_ok (fst st') a e" by (rule entry_ok_later [OF more(2) one(4)])
  with one more only_expired_trans [OF one(3) more(2)] show ?case
    by (intro exI [of _ "e # es"] exI [of _ acc'] exI [of _ st']) (simp add: count_outcome_def)
qed

lemma count_outcomes_total:
  "count_outcome ALLOWED as + count_outcome BLOCKED as + count_outcome TOOL_ERROR as
     + count_outcome PENDING_APPROVAL as = length as"
proof (induction as)
  case (Cons a as)
  then show ?case by (cases "ca_outcome a") (simp_all add: count_outcome_def)
qed (simp add: count_outcome_def)

lemma report_of_log:
  assumes "interception G good lg open_at" "good (w_store w0)" "lg (w_store w0) sid = []" "aq_ok st"
    and w: "w = intercept_calls G calls w0"
    and "generate_investigation_report (gr_store G) clock sid (w_store w) (Some st) = (r, queue)"
  shows "\<exists>rep st'. r = Inr rep \<and> queue = Some st' \<and> only_expired st st'
    \<and> rp_session_id rep = sid \<and> rp_total_calls rep = length (lg (w_store w) sid)
    \<and> list_all2 (entry_ok (fst st')) (lg (w_store w) sid) (rp_calls rep)
    \<and> rp_flagged_call_count rep = length (filter flagged_attempt (lg (w_store w) sid))
    \<and> (\<forall>out. dict_get_or (rp_outcome_breakdown rep) (call_outcome_value out) 0
          = count_outcome out (lg (w_store w) sid))
    \<and> count_outcome ALLOWED (lg (w_store w) sid) + count_outcome BLOCKED (lg (w_store w) sid)
        + count_outcome TOOL_ERROR (lg (w_store w) sid) + count_outcome PENDING_APPROVAL (lg (w_store w) sid)
      = rp_total_calls rep"
proof -
  let ?as = "lg (w_store w) sid"
  have "good (w_store w)" unfolding w by (rule interception.intercept_calls_good [OF assms(1,2)])
  then have read: "so_get_attempts (gr_store G) sid (w_store w) = Inr ?as"
    by (rule session_store.attempts [OF interception.axioms(1) [OF assms(1)]])
  have "list_all attempt_wf ?as"
    unfolding w by (rule interception_log_wf [OF assms(1,2)]) (simp add: assms(3))
  with report_loop_spec [OF assms(4), of ?as clock 0
      "\<lparr>ra_entries = [], ra_outcome_counts = [], ra_flagged_count = 0\<rparr>"]
  obtain es acc st' where loop: "report_loop clock 0 ?as \<lparr>ra_entries = [], ra_outcome_counts = [], ra_flagged_count = 0\<rparr> (Some st)
      = (Inr acc, Some st')" "only_expired st st'" "list_all2 (entry_ok (fst st')) ?as es" "ra_entries acc = es"
    "ra_flagged_count acc = length (filter flagged_attempt ?as)"
    "\<forall>out. dict_get_or (ra_outcome_counts acc) (call_outcome_value out) 0 = count_outcome out ?as"
    by (auto simp: dict_get_or_def)
  moreover have "length es = length ?as" using loop(3) by (simp add: list_all2_lengthD)
  ultimately show ?thesis
    using assms(6) read count_outcomes_total [of ?as]
    by (cases st') (auto simp: generate_investigation_report_def)
qed

text \<open>
  C26: after any sequence of calls through the interception layer the report of a session exists
  and is truthful: it has one entry per logged attempt, in order and with the logged call, outcome
  and detail; the flagged calls are those with a positive flag count; the breakdown counts each
  outcome and sums to the total; the approval it shows for a held call is the final decision
  and role of its request, or pending, and nothing for calls that were not held or whose request
  the queue does not know. Making the report changes the queue only by letting overdue
  requests expire.
\<close>

theorem investigation_report_faithful:
  assumes "interception G good lg open_at" "good (w_store w0)" "lg (w_store w0) sid = []" "aq_ok st"
    and "w = intercept_calls G calls w0"
    and "generate_investigation_report (gr_store G) clock sid (w_store w) (Some st) = (r, queue)"
  shows "\<exists>rep st'. r = Inr rep \<and> queue = Some st' \<and> only_expired st st'
    \<and> rp_session_id rep = sid \<and> rp_total_calls rep = length (lg (w_store w) sid)
    \<and> list_all2 (entry_ok (fst st')) (lg (w_store w) sid) (rp_calls rep)
    \<and> rp_flagged_call_count rep = length (filter flagged_attempt (lg (w_store w) sid))
    \<and> (\<forall>out. dict_get_or (rp_outcome_breakdown rep) (call_outcome_value out) 0
          = count_outcome out (lg (w_store w) sid))
    \<and> count_outcome ALLOWED (lg (w_store w) sid) + count_outcome BLOCKED (lg (w_store w) sid)
        + count_outcome TOOL_ERROR (lg (w_store w) sid) + count_outcome PENDING_APPROVAL (lg (w_store w) sid)
      = rp_total_calls rep"
  by (rule report_of_log [OF assms])

theorem investigation_report_faithful_witness:
  "\<exists>rep st'. generate_investigation_report (gr_store default_guardrails) (\<lambda>_. (9, 9)) ''s''
        (w_store (intercept_calls default_guardrails [(demo_times, demo_request ''send_payment'' [])] demo_open_world))
        (Some (aq_empty 1800, metrics0)) = (Inr rep, Some st')
    \<and> rp_total_calls rep = length (mem_log (w_store (intercept_calls default_guardrails
        [(demo_times, demo_request ''send_payment'' [])] demo_open_world)) ''s'')"
proof -
  let ?calls = "[(demo_times, demo_request ''send_payment'' [])]"
  let ?run = "generate_investigation_report (gr_store default_guardrails) (\<lambda>_. (9, 9)) ''s''
        (w_store (intercept_calls default_guardrails ?calls demo_open_world)) (Some (aq_empty 1800, metrics0))"
  have "mem_log (w_store demo_open_world) ''s'' = []"
    by (simp add: demo_open_world_def demo_world_def mem_log_def dict_get_or_def)
  from investigation_report_faithful [OF default_interception TrueI this aq_ok_init [of 1800] refl,
      where calls = ?calls and clock = "\<lambda>_. (9, 9)" and r = "fst ?run" and queue = "snd ?run"]
  show ?thesis by (auto simp: prod_eq_iff)
qed

text \<open>No redaction pattern matches the text.\<close>

definition redacted :: "string \<Rightarrow> bool" where
  "redacted s \<longleftrightarrow> \<not> re_search email_pattern s \<and> \<not> re_search ssn_pattern s
     \<and> \<not> re_search card_pattern s \<and> \<not> re_search credential_pattern s"

lemma redacted_redact_text [simp]: "redacted (redact_text s)"
  by (simp add: redacted_def redact_text_absent)

fun json_path :: "string list \<Rightarrow> json \<Rightarrow> json option" where
  "json_path [] j = Some j"
| "json_path (k # ks) j = (case json_get j k of None \<Rightarrow> None | Some j' \<Rightarrow> json_path ks j')"

lemma redact_params_get:
  "map_of (map (\<lambda>(k, v). (k, JStr v)) (redact_params ps)) k = Some v \<Longrightarrow> \<exists>s. v = JStr s \<and> redacted s"
  by (drule map_of_SomeD) (auto simp: redact_params_def)

lemma redact_pattern_reasoning:
  assumes "redact_content_pattern cp = Inr cp'" "json_get cp' ''reasoning'' = Some (JStr s)" "s \<noteq> []"
  shows "redacted s"
proof (cases cp)
  case (JDict d)
  show ?thesis
  proof (cases "map_of d ''reasoning''")
    case None
    with assms JDict show ?thesis by (auto simp: redact_content_pattern_def)
  next
    case (Some r)
    show ?thesis
    proof (cases "json_truthy r")
      case True
      with assms JDict Some show ?thesis by (cases r) (auto simp: redact_content_pattern_def)
    next
      case False
      with assms JDict Some have "r = JStr s" by (auto simp: redact_content_pattern_def)
      with False assms(3) show ?thesis by simp
    qed
  qed
qed (use assms in \<open>simp_all add: redact_content_pattern_def\<close>)

lemma redact_detail_reasoning:
  assumes "redact_scoring_detail d = Inr (Some j)" "json_path [''content_pattern'', ''reasoning''] j = Some (JStr s)" "s \<noteq> []"
  shows "redacted s"
proof (cases d rule: redact_scoring_detail.cases)
  case (2 dd)
  show ?thesis
  proof (cases "map_of dd ''content_pattern''")
    case None
    with assms 2 show ?thesis by auto
  next
    case (Some cp)
    show ?thesis
    proof (cases "cp = JNull")
      case True
      with assms 2 Some show ?thesis by auto
    next
      case False
      with assms(1) 2 Some obtain cp' where cp': "redact_content_pattern cp = Inr cp'"
        and j: "j = JDict (dict_set dd ''content_pattern'' cp')"
        by (auto simp: res_bind_eq_Inr)
      from assms(2) j have "json_get cp' ''reasoning'' = Some (JStr s)" by (auto split: option.splits)
      from redact_pattern_reasoning [OF cp' this assms(3)] show ?thesis .
    qed
  qed
qed (use assms in simp_all)

lemma redact_pattern_wf: "pattern_wf cp \<Longrightarrow> \<exists>cp'. redact_content_pattern cp = Inr cp'"
proof (cases cp rule: pattern_wf.cases)
  case (1 d)
  moreover assume "pattern_wf cp"
  ultimately show ?thesis
    by (cases "map_of d ''reasoning''") (auto simp: redact_content_pattern_def split: json.splits)
qed simp_all

lemma redact_detail_wf: "detail_wf d \<Longrightarrow> \<exists>d'. redact_scoring_detail d = Inr d'"
proof (cases d rule: detail_wf.cases)
  case (2 dd)
  moreover assume "detail_wf d"
  ultimately obtain cp where "map_of dd ''content_pattern'' = Some cp" "pattern_wf cp"
    by (auto split: option.splits)
  with redact_pattern_wf [of cp] 2 show ?thesis by auto
qed simp_all

lemma res_map_sound:
  "res_map f xs = Inr ys \<Longrightarrow> length ys = length xs \<and> (\<forall>y \<in> set ys. \<exists>x. f x = Inr y)"
proof (induction xs arbitrary: ys)
  case (Cons x xs)
  then obtain y zs where "ys = y # zs" "f x = Inr y" "res_map f xs = Inr zs" by (auto simp: res_bind_eq_Inr)
  with Cons.IH show ?case by auto
qed simp

lemma entry_clean:
  assumes "entry_to_dict e = Inr c"
  shows "json_path [''params'', k] c = Some v \<Longrightarrow> \<exists>s. v = JStr s \<and> redacted s"
    and "json_path [''scoring_detail'', ''content_pattern'', ''reasoning''] c = Some (JStr s) \<Longrightarrow> s \<noteq> [] \<Longrightarrow> redacted s"
proof -
  from assms obtain detail where d: "redact_scoring_detail (cre_scoring_detail e) = Inr detail"
    "json_get c ''params'' = Some (JDict (map (\<lambda>(k, v). (k, JStr v)) (redact_params (cre_params e))))"
    "json_get c ''scoring_detail'' = Some (json_opt id detail)"
    by (auto simp: entry_to_dict_def res_bind_eq_Inr)
  show "json_path [''params'', k] c = Some v \<Longrightarrow> \<exists>s. v = JStr s \<and> redacted s"
    using d(2) redact_params_get by (auto split: option.splits)
  assume s: "json_path [''scoring_detail'', ''content_pattern'', ''reasoning''] c = Some (JStr s)" "s \<noteq> []"
  show "redacted s"
  proof (cases detail)
    case None
    with s(1) d(3) show ?thesis by simp
  next
    case (Some j)
    with s d redact_detail_reasoning [of "cre_scoring_detail e" j s] show ?thesis by simp
  qed
qed

text \<open>
  C24: what is exported of a report is redacted: a report whose details the interception layer wrote
  can always be exported; every call of the report is in the export, and no value of a parameter
  and no reasoning of the content-pattern detector in it contains text that a redaction pattern
  matches.
\<close>

theorem redacted_report_clean:
  "(list_all (\<lambda>e. detail_wf (cre_scoring_detail e)) (rp_calls report) \<longrightarrow> (\<exists>j. to_redacted_dict report = Inr j))
   \<and> (to_redacted_dict report = Inr j \<longrightarrow>
        (\<exists>cs. json_get j ''calls'' = Some (JList cs) \<and> length cs = length (rp_calls report)
          \<and> (\<forall>c \<in> set cs. (\<forall>k v. json_path [''params'', k] c = Some v \<longrightarrow> (\<exists>s. v = JStr s \<and> redacted s))
              \<and> (\<forall>s. json_path [''scoring_detail'', ''content_pattern'', ''reasoning''] c = Some (JStr s) \<longrightarrow>
                    s \<noteq> [] \<longrightarrow> redacted s))))"
proof (intro conjI impI)
  assume "list_all (\<lambda>e. detail_wf (cre_scoring_detail e)) (rp_calls report)"
  then have "\<exists>c. entry_to_dict e = Inr c" if "e \<in> set (rp_calls report)" for e
    using that redact_detail_wf [of "cre_scoring_detail e"] by (auto simp: list_all_iff entry_to_dict_def)
  then obtain f where "\<And>e. e \<in> set (rp_calls report) \<Longrightarrow> entry_to_dict e = Inr (f e)" by metis
  then have "res_map entry_to_dict (rp_calls report) = Inr (map f (rp_calls report))" by (rule res_map_Inr)
  then show "\<exists>j. to_redacted_dict report = Inr j" by (simp add: to_redacted_dict_def)
next
  assume "to_redacted_dict report = Inr j"
  then obtain cs where cs: "res_map entry_to_dict (rp_calls report) = Inr cs" "json_get j ''calls'' = Some (JList cs)"
    by (auto simp: to_redacted_dict_def res_bind_eq_Inr)
  show "\<exists>cs. json_get j ''calls'' = Some (JList cs) \<and> length cs = length (rp_calls report)
      \<and> (\<forall>c \<in> set cs. (\<forall>k v. json_path [''params'', k] c = Some v \<longrightarrow> (\<exists>s. v = JStr s \<and> redacted s))
          \<and> (\<forall>s. json_path [''scoring_detail'', ''content_pattern'', ''reasoning''] c = Some (JStr s) \<longrightarrow>
                s \<noteq> [] \<longrightarrow> redacted s))"
    using cs(2) res_map_sound [OF cs(1)] entry_clean by (intro exI [of _ cs]) blast
qed

theorem redacted_report_clean_witness:
  "\<exists>j cs. to_redacted_dict \<lparr>rp_session_id = ''s'', rp_total_calls = 1, rp_calls =
        [\<lparr>cre_turn_index = 0, cre_tool_name = ''share_file'', cre_params = [(''recipient'', ''ann@example.com'')],
          cre_outcome = ''allowed'', cre_scoring_detail = None, cre_approval_outcome = None,
          cre_approval_decided_by_role = None\<rparr>], rp_flagged_call_count = 0, rp_outcome_breakdown = [(''allowed'', 1)]\<rparr> = Inr j
     \<and> json_get j ''calls'' = Some (JList cs)
     \<and> (\<forall>c \<in> set cs. \<forall>k v. json_path [''params'', k] c = Some v \<longrightarrow> (\<exists>s. v = JStr s \<and> redacted s))"
proof -
  let ?R = "\<lparr>rp_session_id = ''s'', rp_total_calls = 1, rp_calls =
        [\<lparr>cre_turn_index = 0, cre_tool_name = ''share_file'', cre_params = [(''recipient'', ''ann@example.com'')],
          cre_outcome = ''allowed'', cre_scoring_detail = None, cre_approval_outcome = None,
          cre_approval_decided_by_role = None\<rparr>], rp_flagged_call_count = 0, rp_outcome_breakdown = [(''allowed'', 1)]\<rparr>"
  have "list_all (\<lambda>e. detail_wf (cre_scoring_detail e)) (rp_calls ?R)" by simp
  then obtain j where j: "to_redacted_dict ?R = Inr j" using redacted_report_clean [of ?R] by blast
  with redacted_report_clean [of ?R j] obtain cs where "json_get j ''calls'' = Some (JList cs)"
    "\<forall>c \<in> set cs. \<forall>k v. json_path [''params'', k] c = Some v \<longrightarrow> (\<exists>s. v = JStr s \<and> redacted s)" by blast
  with j show ?thesis by blast
qed

end
