(* ===== verification/Api.thy ===== *)
theory Api
  imports Config Investigation
begin

section \<open>The service: application state and HTTP handlers\<close>

text \<open>
  Models \<open>api/state.py\<close> and the handlers of \<open>api/app.py\<close>. The configuration that
  \<open>AppState.__init__\<close> builds once is a record of components; what requests change is a second
  record around the world of the interception layer. An \<open>HTTPException\<close> is its status code; FastAPI's
  routing and parsing, the identifiers \<open>uuid4\<close> makes and the clock readings are arguments. Shown: a
  session belongs to one task and only its own requests touch it, the endpoint of the independent
  approver cannot be used without its key, whatever else is requested, and what the intercept
  endpoint answers agrees with what was executed and is redacted.
\<close>

subsection \<open>The state\<close>

record ('s, 'b) app_config =
  ac_guardrails :: "('s, 'b) guardrails"
  ac_embedder :: embedder
  ac_divergence_threshold :: pyfloat
  ac_explainer :: explainer
  ac_boundary_classifier :: boundary_classifier
  ac_drift_detector :: drift_detector
  ac_settings :: settings

record ('s, 'b) app =
  ap_world :: "('s, 'b) world"
  ap_task_representations :: "(string, task_representation) dict"
  ap_task_types :: "(string, task_type) dict"
  ap_drift_scheduler :: drift_scheduler

text \<open>
  What the constructor takes from outside: the Redis client of a URL (lists for the store, values
  for the breaker), the Groq client of a key, the constructor of the sentence-transformer library, and the digest of the default
  embedder.
\<close>

record ('r, 'q) deployment =
  dp_redis_lists :: "string \<Rightarrow> 'r redis_lists"
  dp_redis_values :: "string \<Rightarrow> 'q redis_kv"
  dp_groq :: "string \<Rightarrow> llm"
  dp_sentence_transformer :: "string \<Rightarrow> string option \<Rightarrow> embedder result"
  dp_sha256 :: sha256

text \<open>The breaker is the in-memory one or, with the environment variable, the shared one.\<close>

fun app_breaker_call ::
    "'q redis_breaker \<Rightarrow> pyfloat \<Rightarrow> pyfloat \<Rightarrow> ('w, 'a) wrapped \<Rightarrow> (circuit_breaker + 'q) \<times> 'w
       \<Rightarrow> 'a result \<times> (circuit_breaker + 'q) \<times> 'w" where
  "app_breaker_call B t_check t_trip fn (Inl b, w) =
     (case cb_call t_check t_trip fn (b, w) of (r, b', w') \<Rightarrow> (r, Inl b', w'))"
| "app_breaker_call B t_check t_trip fn (Inr q, w) =
     (case rb_call B t_check t_trip fn (q, w) of (r, q', w') \<Rightarrow> (r, Inr q', w'))"

definition env_is_1 :: "env \<Rightarrow> string \<Rightarrow> bool" where
  "env_is_1 environ var_name \<longleftrightarrow> environ var_name = Some ''1''"

definition app_redis_breaker :: "('r, 'q) deployment \<Rightarrow> settings \<Rightarrow> 'q redis_breaker" where
  "app_redis_breaker D settings = \<lparr>rb_redis = dp_redis_values D (st_redis_url settings),
     rb_breaker_name = ''detector-scoring'', rb_failure_threshold = 3, rb_recovery_timeout = 30\<rparr>"

definition app_embedder :: "('r, 'q) deployment \<Rightarrow> env \<Rightarrow> settings \<Rightarrow> (embedder \<times> pyfloat) result" where
  "app_embedder D environ settings =
     (if env_is_1 environ ''SIMULACRUM_USE_REAL_EMBEDDINGS''
      then res_bind (MiniLMEmbedder (dp_sentence_transformer D) MINILM_MODEL_NAME (st_hf_token settings))
        (\<lambda>embedder. Inr (embedder, MINILM_DIVERGENCE_THRESHOLD))
      else Inr (FakeSemanticEmbedder_embed (dp_sha256 D) 256, FAKE_DIVERGENCE_THRESHOLD))"

text \<open>A component with a language model when there is a key, its fallback otherwise.\<close>

definition with_groq :: "('r, 'q) deployment \<Rightarrow> settings \<Rightarrow> (llm \<Rightarrow> 'c) \<Rightarrow> 'c \<Rightarrow> 'c" where
  "with_groq D settings groq fallback =
     (if key_set (st_groq_api_key settings) then groq (dp_groq D (the (st_groq_api_key settings))) else fallback)"

definition app_store :: "('r, 'q) deployment \<Rightarrow> settings \<Rightarrow> 'r redis_store" where
  "app_store D settings = \<lparr>rs_redis = dp_redis_lists D (st_redis_url settings),
     rs_session_ttl_seconds = DEFAULT_SESSION_TTL_SECONDS\<rparr>"

definition app_init ::
    "('r, 'q) deployment \<Rightarrow> env \<Rightarrow> 'r \<Rightarrow> 'q \<Rightarrow> metrics
       \<Rightarrow> (('r, circuit_breaker + 'q) app_config \<times> ('r, circuit_breaker + 'q) app) result" where
  "app_init D environ redis0 values0 metrics =
     res_bind (settings_of environ) (\<lambda>settings.
     case build_default_registry [] of
       (Inl e, _) \<Rightarrow> Inl e
     | (Inr _, tool_registry) \<Rightarrow>
         res_bind (app_embedder D environ settings) (\<lambda>(embedder, threshold).
         let drift = with_groq D settings (\<lambda>llm. GroqDriftDetector llm NullDriftDetector) NullDriftDetector;
             boundary_fallback = EmbeddingBoundaryClassifier embedder (15 / 100)
         in Inr
           (\<lparr>ac_guardrails = \<lparr>gr_tools = tool_registry, gr_tiers = ft_tier_registry tool_registry,
               gr_schemas = build_default_schema_registry, gr_store = redis_store_ops (app_store D settings),
               gr_breaker_call = app_breaker_call (app_redis_breaker D settings),
               gr_content_detector = with_groq D settings
                 (\<lambda>llm. groq_check_content llm heuristic_check_content) heuristic_check_content\<rparr>,
             ac_embedder = embedder, ac_divergence_threshold = threshold,
             ac_explainer = with_groq D settings GroqExplainer TemplateExplainer,
             ac_boundary_classifier = with_groq D settings
               (\<lambda>llm. GroqBoundaryClassifier llm boundary_fallback) boundary_fallback,
             ac_drift_detector = drift, ac_settings = settings\<rparr>,
            \<lparr>ap_world = \<lparr>w_store = redis0,
               w_breaker = (if env_is_1 environ ''SIMULACRUM_MULTI_INSTANCE_BREAKER'' then Inr values0
                            else Inl (cb_new 3 30)),
               w_queue = aq_empty DEFAULT_TIMEOUT_SECONDS, w_metrics = metrics, w_executed = []\<rparr>,
             ap_task_representations = [], ap_task_types = [],
             ap_drift_scheduler = ds_new drift DEFAULT_DRIFT_CHECK_INTERVAL\<rparr>)))"

subsection \<open>Operations of the state\<close>

definition app_start_session ::
    "('s, 'b) app_config \<Rightarrow> string \<Rightarrow> task_type \<Rightarrow> ('s, 'b) app \<Rightarrow> unit result \<times> ('s, 'b) app" where
  "app_start_session C session_id task_type a =
     (case tp_start (ac_embedder C) (TASK_INITIAL_USER_TEXT task_type) of
        Inl e \<Rightarrow> (Inl e, a)
      | Inr tp \<Rightarrow> (Inr (), a\<lparr>ap_task_representations := dict_set (ap_task_representations a) session_id tp,
                           ap_task_types := dict_set (ap_task_types a) session_id task_type\<rparr>))"

definition app_get_task_representation :: "string \<Rightarrow> ('s, 'b) app \<Rightarrow> task_representation result" where
  "app_get_task_representation session_id a =
     (case dict_get (ap_task_representations a) session_id of
        None \<Rightarrow> Inl (UnknownSessionError session_id) | Some tp \<Rightarrow> Inr tp)"

definition app_get_task_type :: "string \<Rightarrow> ('s, 'b) app \<Rightarrow> task_type result" where
  "app_get_task_type session_id a =
     (case dict_get (ap_task_types a) session_id of
        None \<Rightarrow> Inl (UnknownSessionError session_id) | Some tt \<Rightarrow> Inr tt)"

definition call_description :: "tool_call \<Rightarrow> string" where
  "call_description c = tc_tool_name c @ ''(''
     @ str_join '', '' (map (\<lambda>(k, v). k @ ''='' @ v) (tc_params c)) @ '')''"

definition active_sessions :: "('s, 'b) app_config \<Rightarrow> ('s, 'b) app \<Rightarrow> (string \<times> string \<times> string list) list result" where
  "active_sessions C a =
     res_map (\<lambda>(session_id, task_repr).
       res_bind (so_get_calls (gr_store (ac_guardrails C)) session_id (w_store (ap_world a))) (\<lambda>calls.
       Inr (session_id, tp_current_task_text task_repr, map call_description calls)))
       (ap_task_representations a)"

text \<open>One round of the background loop.\<close>

definition scheduler_round :: "('s, 'b) app_config \<Rightarrow> ('s, 'b) app \<Rightarrow> unit result \<times> ('s, 'b) app" where
  "scheduler_round C a =
     (case active_sessions C a of
        Inl e \<Rightarrow> (Inl e, a)
      | Inr sessions \<Rightarrow>
          (case ds_scan sessions (ap_drift_scheduler a) of (r, ds) \<Rightarrow> (r, a\<lparr>ap_drift_scheduler := ds\<rparr>)))"

subsection \<open>Handlers\<close>

text \<open>\<open>try: ... except UnknownSessionError: raise HTTPException(404)\<close>.\<close>

definition session_or_404 :: "'x result \<Rightarrow> 'x result" where
  "session_or_404 r = (case r of Inl (UnknownSessionError _) \<Rightarrow> Inl (HTTPException 404) | _ \<Rightarrow> r)"

definition approval_or_http :: "'x result \<Rightarrow> 'x result" where
  "approval_or_http r =
     (case r of
        Inl (UnknownApprovalRequestError _) \<Rightarrow> Inl (HTTPException 404)
      | Inl (ApprovalAlreadyDecidedError _) \<Rightarrow> Inl (HTTPException 409)
      | _ \<Rightarrow> r)"

definition health :: "(string, string) dict" where
  "health = [(''status'', ''ok'')]"

definition task_type_of :: "string \<Rightarrow> task_type option" where
  "task_type_of v = find (\<lambda>t. task_type_value t = v)
     [INBOX_TRIAGE, FLIGHT_BOOKING, CALENDAR_SCHEDULING, FILE_SHARING, CONTACT_UPDATE]"

definition start_session ::
    "('s, 'b) app_config \<Rightarrow> string \<Rightarrow> string \<Rightarrow> ('s, 'b) app \<Rightarrow> (string \<times> string) result \<times> ('s, 'b) app" where
  "start_session C session_id body_task_type a =
     (case task_type_of body_task_type of
        None \<Rightarrow> (Inl (HTTPException 422), a)
      | Some task_type \<Rightarrow>
          st_bind (app_start_session C session_id task_type a) (\<lambda>_ a.
            (Inr (session_id, task_type_value task_type), a)))"

text \<open>The representation is an object of the dictionary: an update shows in it.\<close>

definition user_turn ::
    "('s, 'b) app_config \<Rightarrow> string \<Rightarrow> string \<Rightarrow> ('s, 'b) app \<Rightarrow> (bool \<times> nat) result \<times> ('s, 'b) app" where
  "user_turn C session_id text a =
     (case session_or_404 (app_get_task_representation session_id a) of
        Inl e \<Rightarrow> (Inl e, a)
      | Inr tp \<Rightarrow>
          let (r, tp') = tp_update_from_user_turn text (ac_boundary_classifier C) tp;
              a = a\<lparr>ap_task_representations := dict_set (ap_task_representations a) session_id tp'\<rparr>
          in (res_bind r (\<lambda>is_new. Inr (is_new, tp_sub_task_index tp')), a))"

definition redact_reasoning :: "string option \<Rightarrow> string option" where
  "redact_reasoning r = (case r of None \<Rightarrow> None | Some s \<Rightarrow> if s = [] then None else Some (redact_text s))"

definition check_drift ::
    "('s, 'b) app_config \<Rightarrow> string \<Rightarrow> ('s, 'b) app \<Rightarrow> (bool \<times> string option) result" where
  "check_drift C session_id a =
     res_bind (session_or_404 (app_get_task_representation session_id a)) (\<lambda>tp.
     res_bind (so_get_calls (gr_store (ac_guardrails C)) session_id (w_store (ap_world a))) (\<lambda>calls.
     res_bind (ac_drift_detector C (tp_current_task_text tp) (map call_description calls)) (\<lambda>result.
     Inr (dr_is_drifted result, redact_reasoning (dr_reasoning result)))))"

definition get_drift_status ::
    "string \<Rightarrow> ('s, 'b) app \<Rightarrow> (bool \<times> string option \<times> nat) option result" where
  "get_drift_status session_id a =
     res_bind (session_or_404 (app_get_task_representation session_id a)) (\<lambda>_.
     Inr (map_option (\<lambda>decision. (dr_is_drifted (sd_result decision),
            redact_reasoning (dr_reasoning (sd_result decision)), sd_checked_at_call_count decision))
       (ds_get_standing_decision session_id (ap_drift_scheduler a))))"

definition get_investigation_report ::
    "('s, 'b) app_config \<Rightarrow> (nat \<Rightarrow> pyfloat \<times> pyfloat) \<Rightarrow> string \<Rightarrow> ('s, 'b) app \<Rightarrow> json result \<times> ('s, 'b) app" where
  "get_investigation_report C clock session_id a =
     (case session_or_404 (app_get_task_representation session_id a) of
        Inl e \<Rightarrow> (Inl e, a)
      | Inr _ \<Rightarrow>
          (case generate_investigation_report (gr_store (ac_guardrails C)) clock session_id
                  (w_store (ap_world a)) (Some (w_queue (ap_world a), w_metrics (ap_world a))) of
             (r, None) \<Rightarrow> (res_bind r to_redacted_dict, a)
           | (r, Some (q, m)) \<Rightarrow>
               (res_bind r to_redacted_dict, a\<lparr>ap_world := (ap_world a)\<lparr>w_queue := q, w_metrics := m\<rparr>\<rparr>)))"

record intercept_response =
  ip_tool_name :: string
  ip_response_tier :: string
  ip_allowed :: bool
  ip_tool_result :: "params option"
  ip_approval_request_id :: "string option"
  ip_guardrail_bypassed :: bool
  ip_explanation :: "string option"

definition explanation_of :: "('s, 'b) app_config \<Rightarrow> interception_result \<Rightarrow> string option result" where
  "explanation_of C r =
     (if response_tier_value (ir_response_tier r) \<noteq> ''allow'' then
        res_bind (ac_explainer C \<lparr>ec_tool_name = ir_tool_name r,
            ec_response_tier = response_tier_value (ir_response_tier r),
            ec_flagged_reasons = collect_flagged_reasons r\<rparr>) (\<lambda>raw_explanation.
        Inr (Some (redact_text raw_explanation)))
      else Inr None)"

definition intercept_request ::
    "('s, 'b) app_config \<Rightarrow> string \<Rightarrow> string \<Rightarrow> params \<Rightarrow> int \<Rightarrow> task_representation \<Rightarrow> task_type \<Rightarrow> call_request" where
  "intercept_request C session_id tool_name params turn_index tp task_type =
     \<lparr>cr_task_representation = tp, cr_task_type = task_type, cr_session_id = session_id,
      cr_tool_name = tool_name, cr_params = params, cr_turn_index = turn_index,
      cr_divergence_threshold = ac_divergence_threshold C, cr_shadow_mode = False\<rparr>"

definition intercept ::
    "('s, 'b) app_config \<Rightarrow> call_times \<Rightarrow> string \<Rightarrow> string \<Rightarrow> params \<Rightarrow> int \<Rightarrow> ('s, 'b) app
       \<Rightarrow> intercept_response result \<times> ('s, 'b) app" where
  "intercept C T session_id tool_name params turn_index a =
     (case session_or_404 (res_bind (app_get_task_representation session_id a) (\<lambda>tp.
             res_bind (app_get_task_type session_id a) (\<lambda>tt. Inr (tp, tt)))) of
        Inl e \<Rightarrow> (Inl e, a)
      | Inr (tp, tt) \<Rightarrow>
          (case intercept_and_call (ac_guardrails C) T
                  (intercept_request C session_id tool_name params turn_index tp tt) (ap_world a) of
             (Inl e, w) \<Rightarrow>
               (Inl (case e of UnregisteredToolError _ \<Rightarrow> HTTPException 404 | _ \<Rightarrow> e), a\<lparr>ap_world := w\<rparr>)
           | (Inr r, w) \<Rightarrow>
               (res_bind (explanation_of C r) (\<lambda>explanation.
                  Inr \<lparr>ip_tool_name = ir_tool_name r, ip_response_tier = response_tier_value (ir_response_tier r),
                       ip_allowed = ir_allowed r, ip_tool_result = ir_tool_result r,
                       ip_approval_request_id = ir_approval_request_id r,
                       ip_guardrail_bypassed = ir_guardrail_bypassed r, ip_explanation = explanation\<rparr>),
                a\<lparr>ap_world := w\<rparr>)))"

text \<open>The approval endpoints answer with the request's id and outcome.\<close>

definition on_queue ::
    "(aq_state \<Rightarrow> approval_request result \<times> aq_state) \<Rightarrow> ('s, 'b) app \<Rightarrow> (string \<times> string) result \<times> ('s, 'b) app" where
  "on_queue f a =
     (case f (w_queue (ap_world a), w_metrics (ap_world a)) of
        (r, q, m) \<Rightarrow>
          (res_bind (approval_or_http r) (\<lambda>request. Inr (ar_request_id request, outcome_value (ar_outcome request))),
           a\<lparr>ap_world := (ap_world a)\<lparr>w_queue := q, w_metrics := m\<rparr>\<rparr>))"

definition get_approval ::
    "string \<Rightarrow> pyfloat \<Rightarrow> pyfloat \<Rightarrow> ('s, 'b) app \<Rightarrow> (string \<times> string) result \<times> ('s, 'b) app" where
  "get_approval request_id t1 t2 a = on_queue (aq_get request_id t1 t2) a"

definition decide_approval ::
    "string \<Rightarrow> bool \<Rightarrow> pyfloat \<Rightarrow> pyfloat \<Rightarrow> pyfloat \<Rightarrow> ('s, 'b) app \<Rightarrow> (string \<times> string) result \<times> ('s, 'b) app" where
  "decide_approval request_id approved t1 t2 t3 a =
     on_queue (aq_decide request_id approved TASK_INITIATING_USER t1 t2 t3) a"

definition ops_decide_approval ::
    "('s, 'b) app_config \<Rightarrow> string \<Rightarrow> bool \<Rightarrow> string option \<Rightarrow> pyfloat \<Rightarrow> pyfloat \<Rightarrow> pyfloat \<Rightarrow> ('s, 'b) app
       \<Rightarrow> (string \<times> string) result \<times> ('s, 'b) app" where
  "ops_decide_approval C request_id approved x_ops_approver_key t1 t2 t3 a =
     (if st_ops_approver_api_key (ac_settings C) = None then (Inl (HTTPException 503), a)
      else if x_ops_approver_key \<noteq> st_ops_approver_api_key (ac_settings C) then (Inl (HTTPException 401), a)
      else on_queue (aq_decide request_id approved OPS_SECURITY_APPROVER t1 t2 t3) a)"

subsection \<open>Requests in sequence\<close>

text \<open>The requests and the rounds of the scheduler that change the state, with what comes from outside.\<close>

datatype api_event =
    EvStart string string
  | EvTurn string string
  | EvReport "nat \<Rightarrow> pyfloat \<times> pyfloat" string
  | EvIntercept call_times string string params int
  | EvGetApproval string pyfloat pyfloat
  | EvDecide string bool pyfloat pyfloat pyfloat
  | EvOpsDecide string bool "string option" pyfloat pyfloat pyfloat
  | EvRound

fun api_step :: "('s, 'b) app_config \<Rightarrow> api_event \<Rightarrow> ('s, 'b) app \<Rightarrow> ('s, 'b) app" where
  "api_step C (EvStart session_id task_type) a = snd (start_session C session_id task_type a)"
| "api_step C (EvTurn session_id turn_text) a = snd (user_turn C session_id turn_text a)"
| "api_step C (EvReport clock session_id) a = snd (get_investigation_report C clock session_id a)"
| "api_step C (EvIntercept T session_id tool_name ps turn_index) a =
     snd (intercept C T session_id tool_name ps turn_index a)"
| "api_step C (EvGetApproval rid t1 t2) a = snd (get_approval rid t1 t2 a)"
| "api_step C (EvDecide rid approved t1 t2 t3) a = snd (decide_approval rid approved t1 t2 t3 a)"
| "api_step C (EvOpsDecide rid approved key t1 t2 t3) a = snd (ops_decide_approval C rid approved key t1 t2 t3 a)"
| "api_step C EvRound a = snd (scheduler_round C a)"

definition api_run :: "('s, 'b) app_config \<Rightarrow> api_event list \<Rightarrow> ('s, 'b) app \<Rightarrow> ('s, 'b) app" where
  "api_run C = fold (api_step C)"

lemma api_run_simps [simp]: "api_run C [] a = a" "api_run C (e # es) a = api_run C es (api_step C e a)"
  by (simp_all add: api_run_def)

subsection \<open>Who can decide\<close>

text \<open>The decisions the events make in a role, the independent one only with the key.\<close>

definition decided_with :: "('s, 'b) app_config \<Rightarrow> api_event list \<Rightarrow> approver_role \<Rightarrow> (string \<times> bool) set" where
  "decided_with C es role =
     (case role of
        TASK_INITIATING_USER \<Rightarrow> {(rid, approved). \<exists>t1 t2 t3. EvDecide rid approved t1 t2 t3 \<in> set es}
      | OPS_SECURITY_APPROVER \<Rightarrow> {(rid, approved). \<exists>key t1 t2 t3.
            EvOpsDecide rid approved (Some key) t1 t2 t3 \<in> set es \<and> st_ops_approver_api_key (ac_settings C) = Some key})"

definition role_within :: "(approver_role \<Rightarrow> (string \<times> bool) set) \<Rightarrow> approval_request \<Rightarrow> bool" where
  "role_within R r \<longleftrightarrow> (ar_outcome r = PENDING \<longrightarrow> ar_decided_by_role r = None)
     \<and> (\<forall>role. ar_decided_by_role r = Some role \<longrightarrow> (ar_request_id r, ar_outcome r = APPROVED) \<in> R role)"

definition roles_within :: "(approver_role \<Rightarrow> (string \<times> bool) set) \<Rightarrow> approval_queue \<Rightarrow> bool" where
  "roles_within R q \<longleftrightarrow>
     (\<forall>rid r. dict_get (aq_requests q) rid = Some r \<longrightarrow> ar_request_id r = rid \<and> role_within R r)"

lemma roles_within_put:
  "roles_within R q \<Longrightarrow> role_within R r \<Longrightarrow> roles_within R (aq_put r q)"
  by (auto simp: roles_within_def)

lemma roles_within_get: "roles_within R (fst st) \<Longrightarrow> roles_within R (fst (snd (aq_get rid t1 t2 st)))"
proof (cases rule: aq_get_cases [of st rid t1 t2])
  case (expired r)
  assume R: "roles_within R (fst st)"
  with expired(1,2) have "ar_decided_by_role r = None" by (auto simp: roles_within_def role_within_def)
  then have "roles_within R (aq_put (aq_expire t2 r) (fst st))"
    by (intro roles_within_put [OF R]) (simp add: aq_expire_def role_within_def)
  with expired(4) show ?thesis by simp
qed simp_all

lemma roles_within_decide:
  assumes R: "roles_within R (fst st)" and role: "(rid, ap) \<in> R role"
  shows "roles_within R (fst (snd (aq_decide rid ap role t1 t2 t3 st)))"
proof (cases rule: aq_decide_cases [of rid ap role t1 t2 t3 st])
  case (error e)
  with roles_within_get [OF R] show ?thesis by simp
next
  case (resolved r)
  with R have "ar_request_id r = rid" by (auto simp: roles_within_def)
  then have "roles_within R (aq_put (aq_resolve t3 ap role r) (fst st))"
    by (intro roles_within_put [OF R]) (use role in \<open>cases ap; simp add: aq_resolve_def role_within_def\<close>)
  with resolved(4) show ?thesis by simp
qed

lemma queue_lookup_queue:
  "snd (queue_lookup j t st) = st \<or> (\<exists>rid t1 t2. snd (queue_lookup j t st) = snd (aq_get rid t1 t2 st))"
proof (cases "(j, t, st)" rule: queue_lookup.cases)
  case (1 rid t1 t2 st')
  then have "snd (queue_lookup j t st) = snd (aq_get rid t1 t2 st)" by (auto split: prod.splits sum.splits)
  then show ?thesis by blast
qed auto

definition by_lookups :: "aq_state \<Rightarrow> aq_state option \<Rightarrow> bool" where
  "by_lookups st q \<longleftrightarrow> q = Some st \<or> (\<exists>rid t1 t2. q = Some (snd (aq_get rid t1 t2 st)))"

lemma attempt_approval_queue: "by_lookups st (snd (attempt_approval x t (Some st)))"
proof (cases "ca_outcome x = PENDING_APPROVAL \<and> ca_scoring_detail x \<noteq> None")
  case True
  then obtain d where d: "ca_outcome x = PENDING_APPROVAL" "ca_scoring_detail x = Some d" by blast
  show ?thesis
  proof (cases "\<exists>j. detail_get d ''approval_request_id'' = Inr (Some j) \<and> j \<noteq> JNull")
    case True
    then obtain j where "detail_get d ''approval_request_id'' = Inr (Some j)" "j \<noteq> JNull" by blast
    with d queue_lookup_queue [of j t st] show ?thesis
      by (auto simp: attempt_approval_def by_lookups_def case_prod_beta)
  next
    case False
    with d show ?thesis by (auto simp: attempt_approval_def by_lookups_def split: sum.splits option.splits)
  qed
next
  case False
  then show ?thesis by (auto simp: attempt_approval_def by_lookups_def split: call_outcome.splits option.splits)
qed

lemma report_attempt_queue: "by_lookups st (snd (report_attempt x t acc (Some st)))"
proof (cases "attempt_flagged (ca_scoring_detail x)")
  case (Inl e)
  then show ?thesis by (simp add: report_attempt_def by_lookups_def Let_def)
next
  case (Inr fl)
  have "snd (report_attempt x t acc (Some st)) = snd (attempt_approval x t (Some st))"
    by (simp add: report_attempt_def Inr st_bind_def Let_def split: prod.split sum.split)
  with attempt_approval_queue [of st x t] show ?thesis by simp
qed

lemma roles_within_lookups: "roles_within R (fst st) \<Longrightarrow> by_lookups st q \<Longrightarrow> \<exists>st'. q = Some st' \<and> roles_within R (fst st')"
  unfolding by_lookups_def using roles_within_get by metis

lemma roles_within_report_loop:
  "roles_within R (fst st) \<Longrightarrow> report_loop clock i xs acc (Some st) = (r, q') \<Longrightarrow> \<exists>st'. q' = Some st' \<and> roles_within R (fst st')"
proof (induction xs arbitrary: i acc st)
  case (Cons x xs)
  obtain r1 q1 where one: "report_attempt x (clock i) acc (Some st) = (r1, q1)" by fastforce
  with roles_within_lookups [OF Cons.prems(1) report_attempt_queue, of x "clock i" acc]
  obtain st1 where st1: "q1 = Some st1" "roles_within R (fst st1)" by auto
  show ?case
  proof (cases r1)
    case (Inl e)
    with one st1 Cons.prems(2) show ?thesis by (cases st1) auto
  next
    case (Inr acc1)
    with one st1 Cons.prems(2) Cons.IH [OF st1(2), of "Suc i" acc1] show ?thesis by simp
  qed
qed auto

text \<open>The interception layer only files new requests.\<close>

lemma log_attempt_frame: "w_queue (snd (log_attempt G c out d w)) = w_queue w"
  by (simp add: log_attempt_def split: prod.split)

lemma run_tool_frame: "w_queue (snd (run_tool G c w)) = w_queue w"
  by (simp add: run_tool_def split: prod.split)

lemma st_bind_queue:
  assumes "w_queue (snd x) = q" "\<And>a w. w_queue w = q \<Longrightarrow> w_queue (snd (f a w)) = q"
  shows "w_queue (snd (st_bind x f)) = q"
  using assms by (cases x; cases "fst x") (auto simp: st_bind_def)

definition files_request :: "approval_queue \<Rightarrow> approval_queue \<Rightarrow> bool" where
  "files_request q q' \<longleftrightarrow> q' = q \<or> (\<exists>rid now sid tn ps. q' = aq_put (new_request rid now sid tn ps) q)"

lemma log_run_queue:
  "w_queue (snd (st_bind (log_attempt G c out d w) (\<lambda>_ w. st_bind (run_tool G c w) (\<lambda>o' w. (Inr (h o'), k w)))))
     = w_queue w" if "\<And>w. w_queue (k w) = w_queue w"
  by (intro st_bind_queue) (simp_all add: log_attempt_frame run_tool_frame that)

lemma log_queue:
  "w_queue (snd (st_bind (log_attempt G c out d w) (\<lambda>_ w. (Inr h, k w)))) = w_queue w"
  if "\<And>w. w_queue (k w) = w_queue w"
  by (intro st_bind_queue) (simp_all add: log_attempt_frame that)

lemma intercept_open_queue: "w_queue (snd (intercept_open G c w)) = w_queue w"
  unfolding intercept_open_def Let_def
  by (simp add: log_run_queue log_queue)

lemma intercept_respond_queue: "files_request (w_queue w) (w_queue (snd (intercept_respond G rid t c b tier w)))"
proof (cases "\<not> cr_shadow_mode c \<and> tier = REQUIRE_APPROVAL")
  case True
  then have "w_queue (snd (intercept_respond G rid t c b tier w))
      = aq_put (new_request rid t (cr_session_id c) (cr_tool_name c) (cr_params c)) (w_queue w)"
    by (simp add: intercept_respond_def aq_submit_eq log_queue)
  then show ?thesis unfolding files_request_def by blast
next
  case False
  then have "w_queue (snd (intercept_respond G rid t c b tier w)) = w_queue w"
    by (auto simp: intercept_respond_def log_run_queue log_queue)
  then show ?thesis by (simp add: files_request_def)
qed

lemma intercept_respond_queue_of:
  "w_queue w = q \<Longrightarrow> files_request q (w_queue (snd (intercept_respond G rid t c b tier w)))"
  using intercept_respond_queue by blast

lemma intercept_queue: "files_request (w_queue w) (w_queue (snd (intercept_and_call G T c w)))"
proof -
  obtain r b s where call: "gr_breaker_call G (ct_check T) (ct_trip T) (wrapped_scoring G c) (w_breaker w, w_store w) = (r, b, s)"
    by (metis prod_cases3)
  let ?w = "w\<lparr>w_breaker := b, w_store := s\<rparr>"
  show ?thesis
  proof (cases r)
    case (Inl e)
    then show ?thesis
      using intercept_open_queue [of G c ?w]
      by (cases e) (simp_all add: intercept_and_call_def call files_request_def)
  next
    case (Inr scoring)
    then have eq: "intercept_and_call G T c w = intercept_scored G (ct_request_id T) (ct_submit T) c scoring ?w"
      by (simp add: intercept_and_call_def call)
    show ?thesis
    proof (cases "tier_get (cr_tool_name c) (gr_tiers G)")
      case (Inl e)
      then show ?thesis unfolding eq by (simp add: intercept_scored_def files_request_def)
    next
      case (Inr reg)
      show ?thesis unfolding eq intercept_scored_def Let_def Inr sum.case
        by (rule intercept_respond_queue_of) simp
    qed
  qed
qed

text \<open>What each request does to the queue.\<close>

abbreviation app_queue :: "('s, 'b) app \<Rightarrow> approval_queue" where
  "app_queue a \<equiv> w_queue (ap_world a)"

lemma on_queue_state:
  "app_queue (snd (on_queue f a)) = fst (snd (f (app_queue a, w_metrics (ap_world a))))"
  by (simp add: on_queue_def split: prod.split)

lemma roles_within_files: "roles_within R q \<Longrightarrow> files_request q q' \<Longrightarrow> roles_within R q'"
  by (auto simp: files_request_def new_request_def role_within_def intro!: roles_within_put)

lemma report_roles:
  assumes "roles_within R (app_queue a)"
  shows "roles_within R (app_queue (snd (get_investigation_report C clock sid a)))"
proof (cases "session_or_404 (app_get_task_representation sid a)")
  case (Inr tp)
  let ?gen = "generate_investigation_report (gr_store (ac_guardrails C)) clock sid
    (w_store (ap_world a)) (Some (app_queue a, w_metrics (ap_world a)))"
  have "\<exists>st. snd ?gen = Some st \<and> roles_within R (fst st)"
  proof (cases "so_get_attempts (gr_store (ac_guardrails C)) sid (w_store (ap_world a))")
    case (Inl e)
    then show ?thesis using assms by (simp add: generate_investigation_report_def)
  next
    case (Inr xs)
    obtain r q where loop: "report_loop clock 0 xs \<lparr>ra_entries = [], ra_outcome_counts = [], ra_flagged_count = 0\<rparr>
        (Some (app_queue a, w_metrics (ap_world a))) = (r, q)" by fastforce
    have "roles_within R (fst (app_queue a, w_metrics (ap_world a)))" using assms by simp
    from roles_within_report_loop [OF this loop] obtain st where "q = Some st" "roles_within R (fst st)" by blast
    with Inr loop show ?thesis by (cases r) (simp_all add: generate_investigation_report_def)
  qed
  then obtain r q m where "?gen = (r, Some (q, m))" "roles_within R q"
    by (metis fst_conv prod.collapse)
  with Inr show ?thesis by (simp add: get_investigation_report_def)
qed (simp add: get_investigation_report_def assms)

lemma intercept_roles:
  assumes "roles_within R (app_queue a)"
  shows "roles_within R (app_queue (snd (intercept C T sid tn ps ti a)))"
proof -
  have "files_request (app_queue a) (app_queue (snd (intercept C T sid tn ps ti a)))"
  proof (cases "session_or_404 (res_bind (app_get_task_representation sid a) (\<lambda>tp.
             res_bind (app_get_task_type sid a) (\<lambda>tt. Inr (tp, tt))))")
    case (Inl e)
    then show ?thesis by (simp add: intercept_def files_request_def)
  next
    case (Inr x)
    obtain tp tt where x: "x = (tp, tt)" by (cases x)
    let ?c = "intercept_request C sid tn ps ti tp tt"
    have "app_queue (snd (intercept C T sid tn ps ti a))
        = w_queue (snd (intercept_and_call (ac_guardrails C) T ?c (ap_world a)))"
      by (simp add: intercept_def Inr x split: prod.split sum.split)
    with intercept_queue [of "ap_world a" "ac_guardrails C" T ?c] show ?thesis by simp
  qed
  with assms show ?thesis by (rule roles_within_files)
qed

lemma session_queue:
  "app_queue (snd (start_session C sid v a)) = app_queue a"
  "app_queue (snd (user_turn C sid txt a)) = app_queue a"
  "app_queue (snd (scheduler_round C a)) = app_queue a"
  by (auto simp: start_session_def app_start_session_def user_turn_def scheduler_round_def Let_def st_bind_def
      split: sum.split option.split prod.split)

lemma api_step_roles:
  assumes R: "roles_within R (app_queue a)" and auth: "\<And>role. decided_with C [e] role \<subseteq> R role"
  shows "roles_within R (app_queue (api_step C e a))"
proof (cases e)
  case (EvReport clock sid)
  with report_roles [OF R] show ?thesis by simp
next
  case (EvIntercept T sid tn ps ti)
  with intercept_roles [OF R] show ?thesis by simp
next
  case (EvGetApproval rid t1 t2)
  have "roles_within R (fst (app_queue a, w_metrics (ap_world a)))" using R by simp
  from roles_within_get [OF this] EvGetApproval show ?thesis by (simp add: get_approval_def on_queue_state)
next
  case (EvDecide rid ap t1 t2 t3)
  with auth [of TASK_INITIATING_USER] have "(rid, ap) \<in> R TASK_INITIATING_USER" by (auto simp: decided_with_def)
  with R have "roles_within R (fst (app_queue a, w_metrics (ap_world a)))" "(rid, ap) \<in> R TASK_INITIATING_USER" by simp_all
  from roles_within_decide [OF this] EvDecide show ?thesis by (simp add: decide_approval_def on_queue_state)
next
  case (EvOpsDecide rid ap key t1 t2 t3)
  show ?thesis
  proof (cases "key = st_ops_approver_api_key (ac_settings C) \<and> key \<noteq> None")
    case True
    with auth [of OPS_SECURITY_APPROVER] EvOpsDecide have "(rid, ap) \<in> R OPS_SECURITY_APPROVER"
      by (auto simp: decided_with_def)
    with R have "roles_within R (fst (app_queue a, w_metrics (ap_world a)))" "(rid, ap) \<in> R OPS_SECURITY_APPROVER" by simp_all
    from roles_within_decide [OF this] EvOpsDecide True R show ?thesis
      by (simp add: ops_decide_approval_def on_queue_state)
  next
    case False
    with EvOpsDecide R show ?thesis by (auto simp: ops_decide_approval_def)
  qed
qed (simp_all add: session_queue R)

lemma api_run_roles:
  "roles_within R (app_queue a) \<Longrightarrow> (\<And>role. decided_with C es role \<subseteq> R role) \<Longrightarrow>
     roles_within R (app_queue (api_run C es a))"
proof (induction es arbitrary: a)
  case (Cons e es)
  have mono: "decided_with C [e] role \<subseteq> decided_with C (e # es) role"
    "decided_with C es role \<subseteq> decided_with C (e # es) role" for role
    by (cases role; force simp: decided_with_def)+
  have "roles_within R (app_queue (api_step C e a))"
    using mono(1) Cons.prems(2) by (intro api_step_roles Cons.prems(1)) blast
  then have "roles_within R (app_queue (api_run C es (api_step C e a)))"
    using mono(2) Cons.prems(2) by (intro Cons.IH) blast+
  then show ?case by simp
qed simp

lemma app_init_Inr:
  assumes "app_init D environ redis0 values0 m0 = Inr (C, a)"
  shows "settings_of environ = Inr (ac_settings C)" "app_queue a = aq_empty DEFAULT_TIMEOUT_SECONDS"
    "ap_task_representations a = []" "ap_task_types a = []"
    "w_store (ap_world a) = redis0"
    "gr_store (ac_guardrails C) = redis_store_ops (app_store D (ac_settings C))"
    "gr_breaker_call (ac_guardrails C) = app_breaker_call (app_redis_breaker D (ac_settings C))"
    "gr_tools (ac_guardrails C) = default_registry" "gr_tiers (ac_guardrails C) = default_tier_registry"
    "gr_schemas (ac_guardrails C) = build_default_schema_registry"
proof -
  from assms obtain st where st: "settings_of environ = Inr st"
    by (cases "settings_of environ") (auto simp: app_init_def)
  with assms obtain emb th where "app_embedder D environ st = Inr (emb, th)"
    by (cases "app_embedder D environ st") (auto simp: app_init_def build_default_registry_eq)
  with assms st show "settings_of environ = Inr (ac_settings C)"
    "app_queue a = aq_empty DEFAULT_TIMEOUT_SECONDS" "ap_task_representations a = []" "ap_task_types a = []"
    "w_store (ap_world a) = redis0"
    "gr_store (ac_guardrails C) = redis_store_ops (app_store D (ac_settings C))"
    "gr_breaker_call (ac_guardrails C) = app_breaker_call (app_redis_breaker D (ac_settings C))"
    "gr_tools (ac_guardrails C) = default_registry" "gr_tiers (ac_guardrails C) = default_tier_registry"
    "gr_schemas (ac_guardrails C) = build_default_schema_registry"
    by (auto simp: app_init_def build_default_registry_eq default_registry_def Let_def)
qed

lemma settings_ops_env:
  "settings_of environ = Inr s \<Longrightarrow> st_ops_approver_api_key s = Some key \<Longrightarrow>
     environ ''SIMULACRUM_OPS_APPROVER_API_KEY'' = Some key \<and> \<not> blank key"
  by (auto simp: settings_of_Inr optional_env_def strip_Nil_iff split: option.splits if_splits)

text \<open>
  C12: from the start of the service on, whatever requests it serves in whatever order, a request
  for approval that is recorded as decided by the independent approver was decided, with that
  verdict, by a request to the approver's endpoint that carried the key of the environment, which is
  set and not blank; one recorded as decided by the user was decided so through the user's
  endpoint.
\<close>

theorem approver_authenticity:
  assumes "app_init D environ redis0 values0 m0 = Inr (C, a0)"
    and "dict_get (aq_requests (w_queue (ap_world (api_run C es a0)))) rid = Some r"
    and "ar_decided_by_role r = Some role"
  shows "case role of
      OPS_SECURITY_APPROVER \<Rightarrow> \<exists>key t1 t2 t3. EvOpsDecide rid (ar_outcome r = APPROVED) (Some key) t1 t2 t3 \<in> set es
        \<and> environ ''SIMULACRUM_OPS_APPROVER_API_KEY'' = Some key \<and> \<not> blank key
    | TASK_INITIATING_USER \<Rightarrow> \<exists>t1 t2 t3. EvDecide rid (ar_outcome r = APPROVED) t1 t2 t3 \<in> set es"
proof -
  note init = app_init_Inr [OF assms(1)]
  have "roles_within (decided_with C es) (app_queue a0)"
    by (simp add: init(2) roles_within_def aq_empty_def)
  then have "roles_within (decided_with C es) (app_queue (api_run C es a0))" by (rule api_run_roles) simp
  with assms(2,3) have "(rid, ar_outcome r = APPROVED) \<in> decided_with C es role"
    by (auto simp: roles_within_def role_within_def)
  with settings_ops_env [OF init(1)] show ?thesis
    by (cases role) (auto simp: decided_with_def)
qed

subsection \<open>The service meets the contracts of the interception layer\<close>

fun app_open_at :: "'q redis_breaker \<Rightarrow> pyfloat \<Rightarrow> circuit_breaker + 'q \<Rightarrow> bool" where
  "app_open_at B now (Inl b) = cb_open_at now b"
| "app_open_at B now (Inr q) = rb_open_at B now q"

lemma app_breaker_Inl:
  "app_breaker_call B t t' fn (Inl b, w) = (r, s', w') \<longleftrightarrow> (\<exists>b'. s' = Inl b' \<and> cb_call t t' fn (b, w) = (r, b', w'))"
  by (auto split: prod.split)

lemma app_breaker_Inr:
  "app_breaker_call B t t' fn (Inr q, w) = (r, s', w') \<longleftrightarrow> (\<exists>q'. s' = Inr q' \<and> rb_call B t t' fn (q, w) = (r, q', w'))"
  by (auto split: prod.split)

lemma app_breaker_contract:
  fixes B :: "'q redis_breaker"
  assumes "redis_kv_lawful (rb_redis B)"
  shows "breaker_contract (app_open_at B) (app_breaker_call B
    :: pyfloat \<Rightarrow> pyfloat \<Rightarrow> ('w, 'a) wrapped \<Rightarrow> (circuit_breaker + 'q) \<times> 'w \<Rightarrow> 'a result \<times> (circuit_breaker + 'q) \<times> 'w)"
proof
  note rb = rb_contract [OF assms]
  fix t t' u :: pyfloat and s s' :: "circuit_breaker + 'q" and fn :: "('w, 'a) wrapped" and w w' w'' r a
  show "app_breaker_call B t t' fn (s, w) = (Inl CircuitOpenError, s, w)" if "app_open_at B t s"
  proof (cases s)
    case (Inl b)
    with that cb.refuses [of t b t' fn w] show ?thesis by (simp only: app_open_at.simps app_breaker_Inl) blast
  next
    case (Inr q)
    with that breaker_contract.refuses [OF rb, of t q t' fn w] show ?thesis
      by (simp only: app_open_at.simps app_breaker_Inr) blast
  qed
  show "\<exists>s'. app_breaker_call B t t' fn (s, w) = (r, s', w')" if "\<not> app_open_at B t s" "fn w = (r, w')"
  proof (cases s)
    case (Inl b)
    with that cb.runs [of t b fn w r w' t'] show ?thesis
      by (simp only: app_open_at.simps app_breaker_Inl) blast
  next
    case (Inr q)
    with that breaker_contract.runs [OF rb, of t q fn w r w' t'] show ?thesis
      by (simp only: app_open_at.simps app_breaker_Inr) blast
  qed
  show "\<not> app_open_at B u s'" if "\<not> app_open_at B t s" "fn w = (Inr a, w')"
    "app_breaker_call B t t' fn (s, w) = (r, s', w'')"
  proof (cases s)
    case (Inl b)
    with that(3) obtain b' where b': "s' = Inl b'" "cb_call t t' fn (b, w) = (r, b', w'')"
      by (simp only: app_breaker_Inl) blast
    with that(1,2) Inl cb.closes [of t b fn w a w' t' r b' w'' u] show ?thesis by simp
  next
    case (Inr q)
    with that(3) obtain q' where q': "s' = Inr q'" "rb_call B t t' fn (q, w) = (r, q', w'')"
      by (simp only: app_breaker_Inr) blast
    with that(1,2) Inr breaker_contract.closes [OF rb, of t q fn w a w' t' r q' w'' u] show ?thesis by simp
  qed
qed

text \<open>The server behind the URL answers as Redis documents.\<close>

definition redis_lawful :: "('r, 'q) deployment \<Rightarrow> settings \<Rightarrow> bool" where
  "redis_lawful D settings \<longleftrightarrow> redis_lists_lawful (dp_redis_lists D (st_redis_url settings))
     \<and> redis_kv_lawful (dp_redis_values D (st_redis_url settings))"

abbreviation app_good :: "('r, 'q) deployment \<Rightarrow> ('s, 'b) app_config \<Rightarrow> 'r \<Rightarrow> bool" where
  "app_good D C \<equiv> rs_good (app_store D (ac_settings C))"

abbreviation app_log :: "('r, 'q) deployment \<Rightarrow> ('s, 'b) app_config \<Rightarrow> 'r \<Rightarrow> attempt_log" where
  "app_log D C \<equiv> rs_log (app_store D (ac_settings C))"

lemma app_interception:
  assumes "app_init D environ redis0 values0 m0 = Inr (C, a)" "redis_lawful D (ac_settings C)"
  shows "interception (ac_guardrails C) (app_good D C) (app_log D C) (app_open_at (app_redis_breaker D (ac_settings C)))"
    and "guardrails_ok (ac_guardrails C)"
proof -
  note init = app_init_Inr [OF assms(1)]
  show "interception (ac_guardrails C) (app_good D C) (app_log D C) (app_open_at (app_redis_breaker D (ac_settings C)))"
    unfolding interception_def init
    using redis_store_contract [of "app_store D (ac_settings C)"] assms(2)
      app_breaker_contract [of "app_redis_breaker D (ac_settings C)"]
    by (simp add: redis_lawful_def app_store_def app_redis_breaker_def DEFAULT_SESSION_TTL_SECONDS_def)
  show "guardrails_ok (ac_guardrails C)"
    using default_guardrails_ok by (simp add: guardrails_ok_def init) (simp add: default_guardrails_def)
qed

lemma session_store_kept:
  "w_store (ap_world (snd (start_session C sid v a))) = w_store (ap_world a)"
  "w_store (ap_world (snd (user_turn C sid txt a))) = w_store (ap_world a)"
  "w_store (ap_world (snd (scheduler_round C a))) = w_store (ap_world a)"
  "w_store (ap_world (snd (get_investigation_report C clock sid a))) = w_store (ap_world a)"
  "w_store (ap_world (snd (on_queue f a))) = w_store (ap_world a)"
  by (auto simp: start_session_def app_start_session_def user_turn_def scheduler_round_def
      get_investigation_report_def on_queue_def Let_def st_bind_def split: sum.split option.split prod.split)

text \<open>The request of an intercepted call, if the session is known.\<close>

definition session_request ::
    "('s, 'b) app_config \<Rightarrow> string \<Rightarrow> string \<Rightarrow> params \<Rightarrow> int \<Rightarrow> ('s, 'b) app \<Rightarrow> call_request option" where
  "session_request C sid tn ps ti a =
     (case (dict_get (ap_task_representations a) sid, dict_get (ap_task_types a) sid) of
        (Some tp, Some tt) \<Rightarrow> Some (intercept_request C sid tn ps ti tp tt)
      | _ \<Rightarrow> None)"

lemma intercept_unknown:
  "session_request C sid tn ps ti a = None \<Longrightarrow> intercept C T sid tn ps ti a = (Inl (HTTPException 404), a)"
  by (auto simp: session_request_def intercept_def app_get_task_representation_def app_get_task_type_def
      session_or_404_def split: option.splits)

lemma intercept_known:
  assumes "session_request C sid tn ps ti a = Some c" "intercept_and_call (ac_guardrails C) T c (ap_world a) = (r, w)"
  shows "ap_world (snd (intercept C T sid tn ps ti a)) = w"
    and "cr_session_id c = sid" "cr_tool_name c = tn" "cr_params c = ps" "\<not> cr_shadow_mode c"
    and "fst (intercept C T sid tn ps ti a) = (case r of
        Inl e \<Rightarrow> Inl (case e of UnregisteredToolError _ \<Rightarrow> HTTPException 404 | _ \<Rightarrow> e)
      | Inr res \<Rightarrow> res_bind (explanation_of C res) (\<lambda>explanation.
          Inr \<lparr>ip_tool_name = ir_tool_name res, ip_response_tier = response_tier_value (ir_response_tier res),
               ip_allowed = ir_allowed res, ip_tool_result = ir_tool_result res,
               ip_approval_request_id = ir_approval_request_id res,
               ip_guardrail_bypassed = ir_guardrail_bypassed res, ip_explanation = explanation\<rparr>))"
  using assms
  by (auto simp: session_request_def intercept_def app_get_task_representation_def app_get_task_type_def
      session_or_404_def intercept_request_def split: option.splits sum.splits prod.splits)

lemma api_step_good:
  assumes I: "interception (ac_guardrails C) good lg open_at" and good: "good (w_store (ap_world a))"
  shows "good (w_store (ap_world (api_step C e a)))"
proof (cases e)
  case (EvIntercept T sid tn ps ti)
  show ?thesis
  proof (cases "session_request C sid tn ps ti a")
    case None
    with EvIntercept good show ?thesis by (simp add: intercept_unknown)
  next
    case (Some c)
    obtain r w where run: "intercept_and_call (ac_guardrails C) T c (ap_world a) = (r, w)" by fastforce
    with interception.intercept_good [OF I good, of T c] intercept_known(1) [OF Some run] EvIntercept
    show ?thesis by simp
  qed
qed (simp_all add: session_store_kept good get_approval_def decide_approval_def ops_decide_approval_def)

lemma api_run_good:
  "interception (ac_guardrails C) good lg open_at \<Longrightarrow> good (w_store (ap_world a)) \<Longrightarrow>
     good (w_store (ap_world (api_run C es a)))"
  by (induction es arbitrary: a) (simp_all add: api_step_good)

lemma explanation_redacted:
  "explanation_of C res = Inr explanation \<Longrightarrow>
     (explanation = None \<longleftrightarrow> ir_response_tier res = ALLOW) \<and> (\<forall>e. explanation = Some e \<longrightarrow> redacted e)"
  by (cases "ir_response_tier res") (auto simp: explanation_of_def res_bind_eq_Inr)

text \<open>
  C27: what the intercept endpoint answers is what happened: at any time after the start, with a
  Redis server that behaves as documented, a request for an unknown session is answered with
  404 and changes nothing; an answer says that the call was allowed exactly when its tool was
  executed, with the requested parameters, exactly when the attempt was logged as allowed,
  and exactly when it carries a tool result; it carries an explanation exactly when the response is
  not a plain allow, and the explanation is redacted.
\<close>

theorem intercept_endpoint_faithful:
  assumes "app_init D environ redis0 values0 m0 = Inr (C, a0)" "redis_lawful D (ac_settings C)" "app_good D C redis0"
    and "a = api_run C es a0" "intercept C T sid tn ps ti a = (res, a')"
  shows "(session_request C sid tn ps ti a = None \<longrightarrow> res = Inl (HTTPException 404) \<and> a' = a)
    \<and> (\<forall>resp. res = Inr resp \<longrightarrow>
        w_executed (ap_world a') = w_executed (ap_world a) @ (if ip_allowed resp then [(tn, ps)] else [])
      \<and> (\<exists>att. app_log D C (w_store (ap_world a')) sid = app_log D C (w_store (ap_world a)) sid @ [att]
            \<and> tc_tool_name (ca_call att) = tn \<and> tc_params (ca_call att) = ps \<and> (ca_outcome att = ALLOWED \<longleftrightarrow> ip_allowed resp))
      \<and> (ip_tool_result resp \<noteq> None \<longleftrightarrow> ip_allowed resp)
      \<and> (ip_explanation resp = None \<longleftrightarrow> ip_response_tier resp = ''allow'')
      \<and> (\<forall>e. ip_explanation resp = Some e \<longrightarrow> redacted e))"
proof (cases "session_request C sid tn ps ti a")
  case None
  with assms(5) show ?thesis by (auto simp: intercept_unknown)
next
  case (Some c)
  note I = app_interception [OF assms(1,2)]
  have good: "app_good D C (w_store (ap_world a))"
    unfolding assms(4) by (rule api_run_good [OF I(1)]) (simp add: app_init_Inr(5) [OF assms(1)] assms(3))
  obtain r w where run: "intercept_and_call (ac_guardrails C) T c (ap_world a) = (r, w)" by fastforce
  note known = intercept_known [OF Some run]
  have world: "ap_world a' = w" using known(1) assms(5) by simp
  have exec: "w_executed w = w_executed (ap_world a)
      @ (if permits c (call_decision (ac_guardrails C) T c (ap_world a)) then [(tn, ps)] else [])"
    using interception.intercept_executed [OF I(1) good, of c T] I(2) run known(3,4) by auto
  have "w_executed w = w_executed (ap_world a) @ (if ip_allowed resp then [(tn, ps)] else [])
      \<and> (\<exists>att. app_log D C (w_store w) sid = app_log D C (w_store (ap_world a)) sid @ [att]
            \<and> tc_tool_name (ca_call att) = tn \<and> tc_params (ca_call att) = ps \<and> (ca_outcome att = ALLOWED \<longleftrightarrow> ip_allowed resp))
      \<and> (ip_tool_result resp \<noteq> None \<longleftrightarrow> ip_allowed resp)
      \<and> (ip_explanation resp = None \<longleftrightarrow> ip_response_tier resp = ''allow'')
      \<and> (\<forall>e. ip_explanation resp = Some e \<longrightarrow> redacted e)" if resp: "res = Inr resp" for resp
  proof -
    have "fst (intercept C T sid tn ps ti a) = Inr resp" using resp assms(5) by simp
    with known(6) obtain ir explanation where r: "r = Inr ir"
      and ex: "explanation_of C ir = Inr explanation"
      and ip: "ip_allowed resp = ir_allowed ir" "ip_tool_result resp = ir_tool_result ir"
        "ip_explanation resp = explanation" "ip_response_tier resp = response_tier_value (ir_response_tier ir)"
      by (cases r; cases "explanation_of C (projr r)") auto
    from interception.intercept_outcome [OF I(1) good run [unfolded r]] obtain out detail where
      out: "app_log D C (w_store w) = log_append sid (call_attempt (call_record c) out detail) (app_log D C (w_store (ap_world a)))"
      "out = ALLOWED \<longleftrightarrow> ir_allowed ir" "ir_allowed ir \<longleftrightarrow> ir_tool_result ir \<noteq> None"
      "permits c (call_decision (ac_guardrails C) T c (ap_world a)) \<longleftrightarrow> ir_allowed ir"
      using known(2) by auto
    have tier: "response_tier_value (ir_response_tier ir) = ''allow'' \<longleftrightarrow> ir_response_tier ir = ALLOW"
      by (cases "ir_response_tier ir") simp_all
    show ?thesis
      using exec out explanation_redacted [OF ex] known(3,4) by (simp add: ip tier)
  qed
  with world Some show ?thesis by simp
qed

subsection \<open>A concrete service\<close>

definition demo_deployment :: "(redis_list_map, string \<Rightarrow> redis_value option) deployment" where
  "demo_deployment = \<lparr>dp_redis_lists = (\<lambda>_. redis_list_map), dp_redis_values = (\<lambda>_. redis_map),
     dp_groq = (\<lambda>_ _. Inl (External ''offline'')), dp_sentence_transformer = (\<lambda>_ _. Inr (\<lambda>_. Inr [1])), dp_sha256 = (\<lambda>_. [0])\<rparr>"

definition demo_env :: env where
  "demo_env = [''SIMULACRUM_REDIS_URL'' \<mapsto> ''redis'', ''SIMULACRUM_USE_REAL_EMBEDDINGS'' \<mapsto> ''1'',
     ''SIMULACRUM_OPS_APPROVER_API_KEY'' \<mapsto> ''k'']"

definition demo_settings :: settings where
  "demo_settings = \<lparr>st_redis_url = ''redis'', st_groq_api_key = None, st_hf_token = None,
     st_ops_approver_api_key = Some ''k''\<rparr>"

lemma demo_settings_of: "settings_of demo_env = Inr demo_settings"
  by (simp add: settings_of_def require_env_def optional_env_def strip_Nil_iff blank_def is_space_def
      code_point_def demo_env_def demo_settings_def)

lemma demo_starts:
  obtains C a where "app_init demo_deployment demo_env Map.empty Map.empty metrics0 = Inr (C, a)"
    "ac_settings C = demo_settings" "redis_lawful demo_deployment (ac_settings C)"
    "app_good demo_deployment C Map.empty" "ac_embedder C = (\<lambda>_. Inr [1])" "w_breaker (ap_world a) = Inl (cb_new 3 30)"
    "gr_content_detector (ac_guardrails C) = heuristic_check_content"
proof -
  have env: "env_is_1 demo_env ''SIMULACRUM_USE_REAL_EMBEDDINGS''"
    "\<not> env_is_1 demo_env ''SIMULACRUM_MULTI_INSTANCE_BREAKER''"
    by (simp_all add: env_is_1_def demo_env_def)
  have "\<exists>x. app_init demo_deployment demo_env Map.empty Map.empty metrics0 = Inr x"
    by (simp add: app_init_def demo_settings_of build_default_registry_eq app_embedder_def env Let_def
        MiniLMEmbedder_def demo_deployment_def)
  then obtain C a where i: "app_init demo_deployment demo_env Map.empty Map.empty metrics0 = Inr (C, a)"
    by (metis surj_pair)
  then have s: "ac_settings C = demo_settings" using app_init_Inr(1) demo_settings_of by fastforce
  have l: "redis_lawful demo_deployment (ac_settings C)"
    by (simp add: redis_lawful_def demo_deployment_def redis_list_map_lawful redis_map_lawful)
  have g: "app_good demo_deployment C Map.empty"
    by (simp add: rs_good_def rs_get_attempts_def app_store_def demo_deployment_def redis_list_map_def)
  from i have "ac_embedder C = (\<lambda>_. Inr [1]) \<and> w_breaker (ap_world a) = Inl (cb_new 3 30)
      \<and> gr_content_detector (ac_guardrails C) = heuristic_check_content"
    by (auto simp: app_init_def demo_settings_of build_default_registry_eq app_embedder_def env Let_def
        with_groq_def key_set_def demo_settings_def demo_deployment_def MiniLMEmbedder_def)
  with that [OF i s l g] show thesis by blast
qed

text \<open>A session that triages an inbox asks to book a flight: the call is held.\<close>

definition demo_events :: "api_event list" where
  "demo_events = [EvStart ''s'' ''inbox_triage'', EvIntercept demo_times ''s'' ''book_flight'' [] 0]"

lemma demo_held:
  assumes "app_init demo_deployment demo_env Map.empty Map.empty metrics0 = Inr (C, a0)"
    "redis_lawful demo_deployment (ac_settings C)" "app_good demo_deployment C Map.empty" "ac_embedder C = (\<lambda>_. Inr [1])"
    "w_breaker (ap_world a0) = Inl (cb_new 3 30)" "gr_content_detector (ac_guardrails C) = heuristic_check_content"
  shows "app_queue (api_run C demo_events a0)
    = aq_put (new_request ''r1'' 0 ''s'' ''book_flight'' []) (aq_empty DEFAULT_TIMEOUT_SECONDS)"
proof -
  note I = app_interception(1) [OF assms(1,2)] and init = app_init_Inr [OF assms(1)]
  define a1 where "a1 = api_step C (EvStart ''s'' ''inbox_triage'') a0"
  have tt: "task_type_of ''inbox_triage'' = Some INBOX_TRIAGE" by (simp add: task_type_of_def)
  then have a1: "a1 = a0\<lparr>ap_task_representations := [(''s'', \<lparr>tp_embedder = (\<lambda>_. Inr [1]), tp_current_vector = [1],
        tp_current_task_text = TASK_INITIAL_USER_TEXT INBOX_TRIAGE, tp_sub_task_index = 0, tp_history = [[1]]\<rparr>)],
      ap_task_types := [(''s'', INBOX_TRIAGE)]\<rparr>"
    by (simp add: a1_def start_session_def app_start_session_def tp_start_def assms(4) init)
  then obtain c where c: "session_request C ''s'' ''book_flight'' [] 0 a1 = Some c" "cr_task_type c = INBOX_TRIAGE"
    "tp_embedder (cr_task_representation c) = (\<lambda>_. Inr [1])" "cr_tool_name c = ''book_flight''"
    by (simp add: session_request_def intercept_request_def)
  let ?G = "ac_guardrails C" and ?w = "ap_world a1"
  have w: "w_store ?w = Map.empty" "w_breaker ?w = Inl (cb_new 3 30)" by (simp_all add: a1 init assms(5))
  then have good: "app_good demo_deployment C (w_store ?w)" by (simp add: assms(3))
  obtain b where b: "run_scoring ?G c (w_store ?w) = Inr b"
    using interception.scoring_answers [OF I, of "w_store ?w" c] good c(3) assms(6) by (auto simp: heuristic_check_content_def Let_def)
  have "is_escalated (sb_escalation b)"
    by (subst interception.scoring_parts(1) [OF I good b], subst is_escalated_iff) (simp add: c baseline_simps)
  then have flag: "0 < flagged_detector_count b" by (metis flagged_count_zero_iff neq0_conv)
  have reg: "tier_get (cr_tool_name c) (gr_tiers ?G) = Inr \<lparr>tr_tool_name = ''book_flight'', tr_tier = IRREVERSIBLE_LOW_VALUE\<rparr>"
    by (simp add: init c(4) default_tier_get default_tier_def map_of_default default_tool_lookup)
  have closed: "\<not> app_open_at (app_redis_breaker demo_deployment (ac_settings C)) (ct_check demo_times) (w_breaker ?w)"
    by (simp add: w cb_open_at_def cb_state_at_def cb_new_def)
  from interception.scored_decision [OF I closed b reg] flag
  have d: "call_decision ?G demo_times c ?w = Respond b REQUIRE_APPROVAL" by (simp add: decide_response_tier_def)
  obtain r w' where run: "intercept_and_call ?G demo_times c ?w = (r, w')" by fastforce
  note known = intercept_known [OF c(1) run]
  have "w_queue w' = aq_put (new_request ''r1'' 0 ''s'' ''book_flight'' []) (w_queue ?w)"
    using interception.intercept_refines [OF I good run] d known(2-5)
    by (simp add: decision_effects_def demo_times_def)
  moreover have "app_queue (api_run C demo_events a0) = w_queue w'"
    using known(1) by (simp add: demo_events_def a1_def)
  ultimately show ?thesis by (simp add: a1 init)
qed

theorem approver_authenticity_witness:
  "\<exists>C a0 r. app_init demo_deployment demo_env Map.empty Map.empty metrics0 = Inr (C, a0)
    \<and> dict_get (aq_requests (w_queue (ap_world (api_run C (demo_events @ [EvOpsDecide ''r1'' True (Some ''k'') 1 1 1]) a0)))) ''r1'' = Some r
    \<and> ar_outcome r = APPROVED
    \<and> (\<exists>key t1 t2 t3. EvOpsDecide ''r1'' True (Some key) t1 t2 t3
          \<in> set (demo_events @ [EvOpsDecide ''r1'' True (Some ''k'') 1 1 1]) \<and> \<not> blank key)"
proof -
  let ?es = "demo_events @ [EvOpsDecide ''r1'' True (Some ''k'') 1 1 1]"
  obtain C a0 where i: "app_init demo_deployment demo_env Map.empty Map.empty metrics0 = Inr (C, a0)"
    "ac_settings C = demo_settings" "redis_lawful demo_deployment (ac_settings C)"
    "app_good demo_deployment C Map.empty" "ac_embedder C = (\<lambda>_. Inr [1])" "w_breaker (ap_world a0) = Inl (cb_new 3 30)"
    "gr_content_detector (ac_guardrails C) = heuristic_check_content"
    by (rule demo_starts)
  have held: "app_queue (api_run C demo_events a0)
      = aq_put (new_request ''r1'' 0 ''s'' ''book_flight'' []) (aq_empty DEFAULT_TIMEOUT_SECONDS)"
    by (rule demo_held [OF i(1,3-7)])
  have "api_run C ?es a0 = snd (ops_decide_approval C ''r1'' True (Some ''k'') 1 1 1 (api_run C demo_events a0))"
    by (simp add: api_run_def)
  then have r: "dict_get (aq_requests (app_queue (api_run C ?es a0))) ''r1''
      = Some (aq_resolve 1 True OPS_SECURITY_APPROVER (new_request ''r1'' 0 ''s'' ''book_flight'' []))"
    by (simp add: ops_decide_approval_def i(2) demo_settings_def on_queue_state held aq_decide_def aq_get_def
        DEFAULT_TIMEOUT_SECONDS_def aq_empty_def Let_def)
  from approver_authenticity [OF i(1) r, of OPS_SECURITY_APPROVER]
  obtain key t1 t2 t3 where "EvOpsDecide ''r1'' True (Some key) t1 t2 t3 \<in> set ?es" "\<not> blank key"
    by (auto simp: aq_resolve_def)
  with i(1) r show ?thesis by (intro exI [of _ C] exI [of _ a0]) auto
qed

theorem intercept_endpoint_faithful_witness:
  "\<exists>C a0. app_init demo_deployment demo_env Map.empty Map.empty metrics0 = Inr (C, a0)
    \<and> intercept C demo_times ''unknown'' ''book_flight'' [] 0 a0 = (Inl (HTTPException 404), a0)"
proof -
  obtain C a0 where i: "app_init demo_deployment demo_env Map.empty Map.empty metrics0 = Inr (C, a0)"
    "redis_lawful demo_deployment (ac_settings C)" "app_good demo_deployment C Map.empty"
    by (rule demo_starts)
  have "session_request C ''unknown'' ''book_flight'' [] 0 a0 = None"
    by (simp add: session_request_def app_init_Inr [OF i(1)])
  with intercept_endpoint_faithful [OF i, where es = "[]" and a = a0 and T = demo_times and sid = "''unknown''"
      and tn = "''book_flight''" and ps = "[]" and ti = 0
      and res = "fst (intercept C demo_times ''unknown'' ''book_flight'' [] 0 a0)"
      and a' = "snd (intercept C demo_times ''unknown'' ''book_flight'' [] 0 a0)"] i(1)
  show ?thesis by (auto simp: prod_eq_iff)
qed

subsection \<open>An explanation that leaves out its reason\<close>

text \<open>
  A call that is flagged, held or blocked only because of the content-pattern detector is
  explained to the approver, by the explainer that is used without a language model, as having
  no detector finding: the reasons handed to the explainer leave that detector out.
\<close>

theorem content_block_unexplained:
  assumes "ir_scoring r = Some b" "cp_is_suspicious (sb_content_pattern b)" "flagged_detector_count b = 1"
    and "ir_response_tier r \<noteq> ALLOW" "ac_explainer C = TemplateExplainer"
  shows "explanation_of C r = Inr (Some (redact_text
    (''The call to '' @ quoted (ir_tool_name r) @ '' was '' @ response_tier_value (ir_response_tier r)
      @ '' with no specific detector findings recorded.'')))"
proof -
  have "collect_scoring_reasons b = []" using collect_reasons_length [of b] assms(2,3) by simp
  then have "collect_flagged_reasons r = []" by (simp add: collect_flagged_reasons_def assms(1))
  with assms(4,5) show ?thesis
    by (cases "ir_response_tier r") (simp_all add: explanation_of_def TemplateExplainer_def template_explain_def)
qed

definition demo_bundle :: scoring_bundle where
  "demo_bundle = \<lparr>sb_schema_violation = None,
     sb_divergence = \<lparr>pd_tool_name = ''reply_to_email'', pd_similarity = 1, pd_is_divergent = False\<rparr>,
     sb_escalation = check_permission_escalation INBOX_TRIAGE {},
     sb_loop_rate = loop_rate_of [] ''reply_to_email'' [] DEFAULT_RATE_THRESHOLD,
     sb_exfiltration = \<lparr>ex_tool_name = ''reply_to_email'', ex_outbound_call_count = 1,
       ex_is_frequency_exceeded = False, ex_is_content_anomalous = False, ex_anomalous_params = {}\<rparr>,
     sb_content_pattern = \<lparr>cp_tool_name = ''reply_to_email'', cp_is_suspicious = True, cp_reasoning = None, cp_matched_patterns = [''ssn''],
       cp_confidence = None\<rparr>\<rparr>"

theorem content_block_unexplained_witness:
  "\<exists>C :: (redis_list_map, circuit_breaker + (string \<Rightarrow> redis_value option)) app_config.
     explanation_of C (scored_result (demo_request ''reply_to_email'' []) demo_bundle REQUIRE_APPROVAL None (Some ''r1''))
       = Inr (Some (redact_text (''The call to '' @ quoted ''reply_to_email'' @ '' was '' @ ''require_approval''
           @ '' with no specific detector findings recorded.'')))"
proof -
  obtain C :: "(redis_list_map, circuit_breaker + (string \<Rightarrow> redis_value option)) app_config" and a
    where "app_init demo_deployment demo_env Map.empty Map.empty metrics0 = Inr (C, a)"
    by (rule demo_starts)
  then have "ac_explainer C = TemplateExplainer"
    by (cases "app_embedder demo_deployment demo_env demo_settings")
      (auto simp: app_init_def demo_settings_of build_default_registry_eq Let_def with_groq_def key_set_def demo_settings_def)
  moreover have "flagged_detector_count demo_bundle = 1" "cp_is_suspicious (sb_content_pattern demo_bundle)"
    by (simp_all add: demo_bundle_def flagged_detector_count_def schema_flagged_def lr_is_flagged_def ex_is_flagged_def
        is_escalated_def check_permission_escalation_def loop_rate_of_def DEFAULT_RATE_THRESHOLD_def Let_def)
  ultimately show ?thesis
    using content_block_unexplained [of "scored_result (demo_request ''reply_to_email'' []) demo_bundle REQUIRE_APPROVAL None (Some ''r1'')"
        demo_bundle C]
    by (intro exI [of _ C]) (simp add: scored_result_def demo_request_def)
qed

end
