(* ===== verification/Background.thy ===== *)
theory Background
  imports Api
begin

section \<open>The background drift task\<close>

text \<open>
  Models \<open>start\<close> and \<open>stop\<close> of \<open>attribution/drift_scheduler.py\<close> and the \<open>lifespan\<close> of
  \<open>api/app.py\<close> that calls them: the loop as a task that runs rounds until it is cancelled or an
  exception of a round ends it. A round never yields, so it is one step, between any two steps of
  the service; the sleep between rounds is the choice of when the next one happens. Shown: the
  deployed loop never ends by itself, while a loop whose detector or store raises is over for good,
  its standing decisions never change again and the shutdown raises.
\<close>

datatype loop_task = Running | Died exn | Cancelled

text \<open>
  The tasks created so far and the one \<open>_task\<close> refers to; starting twice leaves the first running.
\<close>

record ('s, 'b) service =
  sv_app :: "('s, 'b) app"
  sv_tasks :: "loop_task list"
  sv_task :: "nat option"

definition service_of :: "('s, 'b) app \<Rightarrow> ('s, 'b) service" where
  "service_of a = \<lparr>sv_app = a, sv_tasks = [], sv_task = None\<rparr>"

definition loop_start :: "('s, 'b) service \<Rightarrow> ('s, 'b) service" where
  "loop_start sv = sv\<lparr>sv_tasks := sv_tasks sv @ [Running], sv_task := Some (length (sv_tasks sv))\<rparr>"

text \<open>The next iteration of the loop of task \<open>i\<close>.\<close>

definition loop_round :: "('s, 'b) app_config \<Rightarrow> nat \<Rightarrow> ('s, 'b) service \<Rightarrow> ('s, 'b) service" where
  "loop_round C i sv =
     (case scheduler_round C (sv_app sv) of
        (Inl e, a) \<Rightarrow> sv\<lparr>sv_app := a, sv_tasks := (sv_tasks sv)[i := Died e]\<rparr>
      | (Inr _, a) \<Rightarrow> sv\<lparr>sv_app := a\<rparr>)"

text \<open>
  Cancelling a task that is over has no effect, and awaiting it raises what ended it; only
  \<open>CancelledError\<close> is caught.
\<close>

definition loop_stop :: "('s, 'b) service \<Rightarrow> unit result \<times> ('s, 'b) service" where
  "loop_stop sv =
     (case sv_task sv of
        None \<Rightarrow> (Inr (), sv)
      | Some i \<Rightarrow>
          (case sv_tasks sv ! i of
             Died e \<Rightarrow> (Inl e, sv)
           | _ \<Rightarrow> (Inr (), sv\<lparr>sv_tasks := (sv_tasks sv)[i := Cancelled], sv_task := None\<rparr>)))"

inductive service_step :: "('s, 'b) app_config \<Rightarrow> ('s, 'b) service \<Rightarrow> ('s, 'b) service \<Rightarrow> bool" for C where
  request: "e \<noteq> EvRound \<Longrightarrow> service_step C sv (sv\<lparr>sv_app := api_step C e (sv_app sv)\<rparr>)"
| start: "service_step C sv (loop_start sv)"
| round: "i < length (sv_tasks sv) \<Longrightarrow> sv_tasks sv ! i = Running \<Longrightarrow> service_step C sv (loop_round C i sv)"
| stop: "service_step C sv (snd (loop_stop sv))"

inductive service_reach :: "('s, 'b) app_config \<Rightarrow> ('s, 'b) service \<Rightarrow> ('s, 'b) service \<Rightarrow> bool" for C where
  here: "service_reach C sv sv"
| there: "service_reach C sv sv' \<Longrightarrow> service_step C sv' sv'' \<Longrightarrow> service_reach C sv sv''"

inductive_cases service_stepE: "service_step C sv sv'"

subsection \<open>The deployed loop does not die\<close>

lemma scheduler_kept:
  "e \<noteq> EvRound \<Longrightarrow> ap_drift_scheduler (api_step C e a) = ap_drift_scheduler a"
  by (cases e)
    (auto simp: start_session_def app_start_session_def user_turn_def get_investigation_report_def on_queue_def
      get_approval_def decide_approval_def ops_decide_approval_def intercept_def Let_def st_bind_def
      split: sum.split option.split prod.split)

lemma groq_drift_answers: "\<exists>r. GroqDriftDetector llm NullDriftDetector td hist = Inr r"
  by (auto simp: GroqDriftDetector_def NullDriftDetector_def Let_def split: sum.split option.split)

definition detector_answers :: "drift_detector \<Rightarrow> bool" where
  "detector_answers D \<longleftrightarrow> (\<forall>td hist. \<exists>r. D td hist = Inr r)"

lemma app_init_scheduler:
  assumes "app_init D environ redis0 values0 m0 = Inr (C, a)"
  shows "\<exists>drift. ap_drift_scheduler a = ds_new drift DEFAULT_DRIFT_CHECK_INTERVAL \<and> detector_answers drift"
proof -
  obtain st where st: "settings_of environ = Inr st" using app_init_Inr(1) [OF assms] by blast
  with assms obtain emb th where "app_embedder D environ st = Inr (emb, th)"
    by (cases "app_embedder D environ st") (auto simp: app_init_def build_default_registry_eq)
  with assms st have "ap_drift_scheduler a
      = ds_new (with_groq D st (\<lambda>llm. GroqDriftDetector llm NullDriftDetector) NullDriftDetector) DEFAULT_DRIFT_CHECK_INTERVAL"
    by (auto simp: app_init_def build_default_registry_eq Let_def)
  moreover have "detector_answers (with_groq D st (\<lambda>llm. GroqDriftDetector llm NullDriftDetector) NullDriftDetector)"
    using groq_drift_answers by (auto simp: detector_answers_def with_groq_def NullDriftDetector_def split: option.split)
  ultimately show ?thesis by blast
qed

text \<open>A session with a call history is covered when no check is due for it.\<close>

definition scheduler_ok :: "drift_scheduler \<Rightarrow> bool" where
  "scheduler_ok ds \<longleftrightarrow> detector_answers (ds_drift_detector ds) \<and> 0 < ds_check_interval_calls ds"

lemma ds_run_once_ok:
  assumes "scheduler_ok ds" "ds_run_once sid td hist ds = (r, ds')"
  shows "\<exists>v. r = Inr v" "scheduler_ok ds'" "\<not> ds_due sid hist ds'" "sid' \<noteq> sid \<Longrightarrow> ds_due sid' h ds' = ds_due sid' h ds"
proof -
  obtain res where d: "ds_drift_detector ds td hist = Inr res" using assms(1) by (auto simp: scheduler_ok_def detector_answers_def)
  with assms(2) show "\<exists>v. r = Inr v" by (auto simp: ds_run_once_def Let_def split: if_splits)
  show "scheduler_ok ds'"
    using assms ds_run_once_frame(1,2) [of sid td hist ds] by (simp add: scheduler_ok_def)
  show "\<not> ds_due sid hist ds'" "sid' \<noteq> sid \<Longrightarrow> ds_due sid' h ds' = ds_due sid' h ds"
    using assms d by (auto simp: scheduler_ok_def ds_run_once_def ds_due_def should_check_drift_def dict_get_or_def Let_def
        split: if_splits)
qed

lemma ds_scan_ok:
  "scheduler_ok ds \<Longrightarrow> distinct (map fst sessions) \<Longrightarrow>
     \<exists>ds'. ds_scan sessions ds = (Inr (), ds') \<and> scheduler_ok ds' \<and> (\<forall>(sid, td, hist) \<in> set sessions. \<not> ds_due sid hist ds')
       \<and> (\<forall>sid h. sid \<notin> set (map fst sessions) \<longrightarrow> ds_due sid h ds' = ds_due sid h ds)"
proof (induction sessions arbitrary: ds)
  case (Cons x sessions)
  obtain sid td hist where x: "x = (sid, td, hist)" by (cases x)
  obtain r ds1 where run: "ds_run_once sid td hist ds = (r, ds1)" by fastforce
  note one = ds_run_once_ok [OF Cons.prems(1) run]
  obtain ds' where rest: "ds_scan sessions ds1 = (Inr (), ds')" "scheduler_ok ds'"
    "\<forall>(sid, td, hist) \<in> set sessions. \<not> ds_due sid hist ds'"
    "\<forall>sid h. sid \<notin> set (map fst sessions) \<longrightarrow> ds_due sid h ds' = ds_due sid h ds1"
    using Cons.IH [OF one(2)] Cons.prems(2) by auto
  have "sid \<notin> set (map fst sessions)" using Cons.prems(2) by (simp add: x)
  with rest(4) one(3) have "\<not> ds_due sid hist ds'" by blast
  moreover have "ds_scan (x # sessions) ds = (Inr (), ds')" using one(1) run rest(1) by (auto simp: x)
  moreover have "\<forall>sid' h. sid' \<notin> set (map fst (x # sessions)) \<longrightarrow> ds_due sid' h ds' = ds_due sid' h ds"
    using rest(4) one(4) by (simp add: x)
  ultimately show ?case using rest(2,3) by (auto simp: x)
qed simp

definition service_ok :: "('s \<Rightarrow> bool) \<Rightarrow> ('s, 'b) service \<Rightarrow> bool" where
  "service_ok good sv \<longleftrightarrow> good (w_store (ap_world (sv_app sv))) \<and> scheduler_ok (ap_drift_scheduler (sv_app sv))
     \<and> dict_ok (ap_task_representations (sv_app sv))
     \<and> list_all (\<lambda>t. t = Running \<or> t = Cancelled) (sv_tasks sv)
     \<and> pred_option (\<lambda>i. i < length (sv_tasks sv)) (sv_task sv)"

lemma representations_ok:
  "dict_ok (ap_task_representations a) \<Longrightarrow> dict_ok (ap_task_representations (api_step C e a))"
  by (cases e)
    (auto simp: start_session_def app_start_session_def user_turn_def get_investigation_report_def on_queue_def
      get_approval_def decide_approval_def ops_decide_approval_def intercept_def scheduler_round_def dict_ok_def
      distinct_update Let_def st_bind_def split: sum.split option.split prod.split)

lemma round_covers:
  assumes "session_store (gr_store (ac_guardrails C)) good lg" "good (w_store (ap_world a))"
    and "scheduler_ok (ap_drift_scheduler a)" "dict_ok (ap_task_representations a)"
  shows "\<exists>a' sessions. scheduler_round C a = (Inr (), a') \<and> scheduler_ok (ap_drift_scheduler a')
    \<and> active_sessions C a = Inr sessions \<and> map fst sessions = map fst (ap_task_representations a)
    \<and> (\<forall>(sid, td, hist) \<in> set sessions. \<not> ds_due sid hist (ap_drift_scheduler a'))"
proof -
  let ?f = "\<lambda>(sid, tp). (sid, tp_current_task_text tp, map call_description (map ca_call (lg (w_store (ap_world a)) sid)))"
  have s: "active_sessions C a = Inr (map ?f (ap_task_representations a))"
    unfolding active_sessions_def
    by (rule res_map_Inr) (auto simp: session_store.calls [OF assms(1,2)])
  have k: "map fst (map ?f (ap_task_representations a)) = map fst (ap_task_representations a)"
    by (simp add: case_prod_beta comp_def)
  have "distinct (map fst (map ?f (ap_task_representations a)))"
    unfolding k using assms(4) by (simp only: dict_ok_def)
  from ds_scan_ok [OF assms(3) this] obtain ds' where
    "ds_scan (map ?f (ap_task_representations a)) (ap_drift_scheduler a) = (Inr (), ds')" "scheduler_ok ds'"
    "\<forall>(sid, td, hist) \<in> set (map ?f (ap_task_representations a)). \<not> ds_due sid hist ds'"
    by (elim exE conjE)
  with s k show ?thesis by (simp add: scheduler_round_def)
qed

lemma service_ok_step:
  assumes "interception (ac_guardrails C) good lg open_at" "service_ok good sv" "service_step C sv sv'"
  shows "service_ok good sv'"
  using assms(3)
proof (cases rule: service_step.cases)
  case (request e)
  with assms(2) api_step_good [OF assms(1), of "sv_app sv" e] scheduler_kept [of e C "sv_app sv"]
    representations_ok [of "sv_app sv" C e]
  show ?thesis by (simp add: service_ok_def)
next
  case start
  with assms(2) show ?thesis by (simp add: service_ok_def loop_start_def)
next
  case (round i)
  have S: "session_store (gr_store (ac_guardrails C)) good lg" using assms(1) by (simp add: interception_def)
  from assms(2) have ok: "good (w_store (ap_world (sv_app sv)))" "scheduler_ok (ap_drift_scheduler (sv_app sv))"
    "dict_ok (ap_task_representations (sv_app sv))" by (simp_all add: service_ok_def)
  obtain a' where a': "scheduler_round C (sv_app sv) = (Inr (), a')" "scheduler_ok (ap_drift_scheduler a')"
    using round_covers [OF S ok] by blast
  have "good (w_store (ap_world a'))" "dict_ok (ap_task_representations a')"
    using api_step_good [OF assms(1), of "sv_app sv" EvRound] representations_ok [of "sv_app sv" C EvRound] ok a'(1)
    by simp_all
  with a' round(1) assms(2) show ?thesis by (simp add: service_ok_def loop_round_def)
next
  case stop
  with assms(2) show ?thesis
    by (auto simp: service_ok_def loop_stop_def list_all_iff dest!: set_update_subset_insert [THEN subsetD]
        split: option.split loop_task.split)
qed


lemma service_ok_reach:
  assumes "interception (ac_guardrails C) good lg open_at"
  shows "service_reach C sv sv' \<Longrightarrow> service_ok good sv \<Longrightarrow> service_ok good sv'"
  by (induction rule: service_reach.induct) (auto intro: service_ok_step [OF assms])



subsection \<open>A loop that died stays dead\<close>

lemma reach_length: "service_reach C sv sv' \<Longrightarrow> length (sv_tasks sv) \<le> length (sv_tasks sv')"
proof (induction rule: service_reach.induct)
  case (there sv sv' sv'')
  from there.hyps(2) have "length (sv_tasks sv') \<le> length (sv_tasks sv'')"
    by (cases rule: service_step.cases)
      (auto simp: loop_start_def loop_round_def loop_stop_def split: prod.split sum.split option.split loop_task.split)
  with there.IH show ?case by simp
qed simp

definition loop_dead :: "exn \<Rightarrow> ('s, 'b) service \<Rightarrow> bool" where
  "loop_dead e sv \<longleftrightarrow> list_all (\<lambda>t. t \<noteq> Running) (sv_tasks sv)
     \<and> (\<exists>i. sv_task sv = Some i \<and> i < length (sv_tasks sv) \<and> sv_tasks sv ! i = Died e)"

lemma dead_step:
  assumes "loop_dead e sv" "service_step C sv sv'" "length (sv_tasks sv') = length (sv_tasks sv)"
  shows "loop_dead e sv' \<and> ap_drift_scheduler (sv_app sv') = ap_drift_scheduler (sv_app sv)"
  using assms(2)
proof (cases rule: service_step.cases)
  case (request ev)
  with assms(1) scheduler_kept [of ev C "sv_app sv"] show ?thesis by (simp add: loop_dead_def)
next
  case (round i)
  with assms(1) show ?thesis by (auto simp: loop_dead_def list_all_length)
qed (use assms in \<open>auto simp: loop_dead_def loop_start_def loop_stop_def\<close>)

text \<open>
  C33: a background loop whose round raised an exception is over: unless the scheduler is started
  again, whatever requests follow, no standing decision is ever made or changed, and stopping the
  scheduler raises that exception.
\<close>

theorem dead_loop_final:
  assumes "loop_dead e sv" "service_reach C sv sv'" "length (sv_tasks sv') = length (sv_tasks sv)"
  shows "ap_drift_scheduler (sv_app sv') = ap_drift_scheduler (sv_app sv) \<and> fst (loop_stop sv') = Inl e"
proof -
  from assms(2) have "length (sv_tasks sv') = length (sv_tasks sv) \<Longrightarrow> loop_dead e sv \<Longrightarrow>
      loop_dead e sv' \<and> ap_drift_scheduler (sv_app sv') = ap_drift_scheduler (sv_app sv)"
  proof (induction rule: service_reach.induct)
    case (there sv sv' sv'')
    from reach_length [OF there.hyps(1)] reach_length [OF service_reach.there [OF service_reach.here there.hyps(2)]]
      there.prems(1) have "length (sv_tasks sv') = length (sv_tasks sv)" "length (sv_tasks sv'') = length (sv_tasks sv')"
      by simp_all
    with there dead_step [OF _ there.hyps(2)] show ?case by metis
  qed simp
  with assms(1,3) show ?thesis by (auto simp: loop_dead_def loop_stop_def)
qed

text \<open>A service whose detector raises.\<close>

definition demo_config :: "(memory_store, circuit_breaker) app_config" where
  "demo_config = \<lparr>ac_guardrails = default_guardrails, ac_embedder = (\<lambda>_. Inr [1]), ac_divergence_threshold = 0,
     ac_explainer = TemplateExplainer, ac_boundary_classifier = (\<lambda>_ _. Inr True), ac_drift_detector = (\<lambda>_ _. Inl ValueError),
     ac_settings = demo_settings\<rparr>"

definition demo_failing :: "(memory_store, circuit_breaker) service" where
  "demo_failing = loop_round demo_config 0 (loop_start (service_of
     \<lparr>ap_world = demo_world, ap_task_representations = [(''s'', demo_task)], ap_task_types = [],
      ap_drift_scheduler = ds_new (\<lambda>_ _. Inl ValueError) 0\<rparr>))"

theorem dead_loop_final_witness:
  "fst (loop_stop (demo_failing\<lparr>sv_app := api_step demo_config (EvTurn ''s'' ''more'') (sv_app demo_failing)\<rparr>)) = Inl ValueError"
proof -
  have "scheduler_round demo_config \<lparr>ap_world = demo_world, ap_task_representations = [(''s'', demo_task)],
      ap_task_types = [], ap_drift_scheduler = ds_new (\<lambda>_ _. Inl ValueError) 0\<rparr>
    = (Inl ValueError, \<lparr>ap_world = demo_world, ap_task_representations = [(''s'', demo_task)],
      ap_task_types = [], ap_drift_scheduler = ds_new (\<lambda>_ _. Inl ValueError) 0\<rparr>)"
    by (simp add: scheduler_round_def active_sessions_def demo_config_def default_guardrails_def memory_ops_def
        mem_get_calls_def ds_run_once_def ds_due_def should_check_drift_def ds_new_def dict_get_or_def)
  then have "loop_dead ValueError demo_failing"
    by (simp add: loop_dead_def demo_failing_def loop_round_def loop_start_def service_of_def)
  moreover have "service_reach demo_config demo_failing
      (demo_failing\<lparr>sv_app := api_step demo_config (EvTurn ''s'' ''more'') (sv_app demo_failing)\<rparr>)"
    by (intro service_reach.there [OF service_reach.here] service_step.request) simp
  ultimately show ?thesis using dead_loop_final by fastforce
qed

end
