(* ===== verification/Endpoints.thy ===== *)
theory Endpoints
  imports Background
begin

section \<open>What the endpoints answer\<close>

text \<open>
  Progress of the service: in the deployed wiring every handler of \<open>api/app.py\<close> answers, at any
  time and whatever happened before, with a result or with one of the HTTP errors it documents.
  The proof goes over the components of the wiring: each of the model-backed ones has a fallback
  that answers, the default tools answer, and what the interception layer logs can be reported and
  exported.
\<close>

subsection \<open>The parts answer\<close>

definition parts_answer :: "('s, 'b) app_config \<Rightarrow> bool" where
  "parts_answer C \<longleftrightarrow> (\<forall>t. \<exists>v. ac_embedder C t = Inr v) \<and> (\<forall>t ps. \<exists>r. gr_content_detector (ac_guardrails C) t ps = Inr r)
     \<and> (\<forall>c. \<exists>s. ac_explainer C c = Inr s) \<and> (\<forall>t u. \<exists>b. ac_boundary_classifier C t u = Inr b)
     \<and> detector_answers (ac_drift_detector C)
     \<and> gr_tools (ac_guardrails C) = default_registry \<and> gr_tiers (ac_guardrails C) = default_tier_registry"

lemma heuristic_answers: "\<exists>r. heuristic_check_content t ps = Inr r"
  by (simp add: heuristic_check_content_def Let_def)

lemma groq_content_answers: "\<exists>r. groq_check_content llm heuristic_check_content t ps = Inr r"
  using heuristic_answers [of t ps] by (auto simp: groq_check_content_def Let_def split: sum.split option.split)

lemma boundary_answers:
  assumes "\<And>t. \<exists>v. embed_fn t = Inr v"
  shows "\<exists>b. EmbeddingBoundaryClassifier embed_fn threshold t u = Inr b"
    and "\<exists>b. GroqBoundaryClassifier llm (EmbeddingBoundaryClassifier embed_fn threshold) t u = Inr b"
proof -
  show e: "\<exists>b. EmbeddingBoundaryClassifier embed_fn threshold t u = Inr b"
    using assms [of t] assms [of u] by (auto simp: EmbeddingBoundaryClassifier_def)
  then show "\<exists>b. GroqBoundaryClassifier llm (EmbeddingBoundaryClassifier embed_fn threshold) t u = Inr b"
    by (auto simp: GroqBoundaryClassifier_def Let_def split: sum.split)
qed

lemma app_init_answers:
  assumes "app_init D environ redis0 values0 m0 = Inr (C, a)" "\<And>t. \<exists>v. ac_embedder C t = Inr v"
  shows "parts_answer C"
proof -
  obtain st where st: "settings_of environ = Inr st" using app_init_Inr(1) [OF assms(1)] by blast
  with assms(1) obtain emb th where emb: "app_embedder D environ st = Inr (emb, th)"
    by (cases "app_embedder D environ st") (auto simp: app_init_def build_default_registry_eq)
  have C: "ac_embedder C = emb"
    "gr_content_detector (ac_guardrails C)
       = with_groq D st (\<lambda>llm. groq_check_content llm heuristic_check_content) heuristic_check_content"
    "ac_explainer C = with_groq D st GroqExplainer TemplateExplainer"
    "ac_boundary_classifier C = with_groq D st
       (\<lambda>llm. GroqBoundaryClassifier llm (EmbeddingBoundaryClassifier emb (15 / 100))) (EmbeddingBoundaryClassifier emb (15 / 100))"
    "ac_drift_detector C = with_groq D st (\<lambda>llm. GroqDriftDetector llm NullDriftDetector) NullDriftDetector"
    using assms(1) st emb by (auto simp: app_init_def build_default_registry_eq Let_def)
  note parts = heuristic_answers groq_content_answers explainers_answer
    boundary_answers [OF assms(2) [unfolded C(1)]] groq_drift_answers
  show ?thesis
    unfolding parts_answer_def C using app_init_Inr(7,8) [OF assms(1)] assms(2) parts
    by (simp add: with_groq_def detector_answers_def NullDriftDetector_def C(1) app_init_Inr [OF assms(1)])
qed

lemma default_tool_answers:
  assumes "tier_get n default_tier_registry = Inr tr"
  shows "\<exists>out. ft_call default_registry n ps ex = (Inr out, ex @ [(n, ps)])"
proof -
  from assms obtain t f where tf: "map_of default_tools n = Some (t, f)"
    by (auto simp: default_tier_get default_tier_def map_of_default split: option.splits)
  then have "(n, t, f) \<in> set default_tools" by (rule map_of_SomeD)
  then have "\<exists>out. f ps = Inr out"
    by (auto simp: default_tools_def default_tool_outputs send_payment_def set_forwarding_rule_def delete_data_def
        modify_permissions_def)
  with default_ft_call [OF tf, of ps ex] show ?thesis by auto
qed


subsection \<open>The state the handlers find\<close>

definition logs_wf :: "('s \<Rightarrow> attempt_log) \<Rightarrow> ('s, 'b) app \<Rightarrow> bool" where
  "logs_wf lg a \<longleftrightarrow> (\<forall>sid. list_all attempt_wf (lg (w_store (ap_world a)) sid))"

definition same_embedder :: "('s, 'b) app_config \<Rightarrow> ('s, 'b) app \<Rightarrow> bool" where
  "same_embedder C a \<longleftrightarrow> (\<forall>sid tp. dict_get (ap_task_representations a) sid = Some tp \<longrightarrow> tp_embedder tp = ac_embedder C)"

lemma tp_start_embedder: "tp_start embed_fn t = Inr tp \<Longrightarrow> tp_embedder tp = embed_fn"
  by (auto simp: tp_start_def res_bind_eq_Inr)

lemma tp_update_embedder: "tp_update_from_user_turn t cl tp = (r, tp') \<Longrightarrow> tp_embedder tp' = tp_embedder tp"
  by (auto simp: tp_update_from_user_turn_def Let_def split: sum.splits if_splits)

lemma same_embedder_step:
  assumes "same_embedder C a"
  shows "same_embedder C (api_step C e a)"
proof (cases e)
  case (EvStart sid tt)
  then show ?thesis using assms
    by (auto simp: same_embedder_def start_session_def app_start_session_def update_conv' dest: tp_start_embedder
        split: option.splits sum.splits if_splits)
next
  case (EvTurn sid t)
  then show ?thesis using assms
    by (auto simp: same_embedder_def user_turn_def app_get_task_representation_def session_or_404_def update_conv' Let_def
        dest: tp_update_embedder split: option.splits sum.splits if_splits prod.splits exn.splits)
qed (use assms in \<open>auto simp: same_embedder_def get_investigation_report_def on_queue_def
      get_approval_def decide_approval_def ops_decide_approval_def intercept_def scheduler_round_def Let_def st_bind_def
      split: sum.split option.split prod.split\<close>)

lemma logs_wf_step:
  assumes I: "interception (ac_guardrails C) good lg open_at" and "good (w_store (ap_world a))" "logs_wf lg a"
  shows "logs_wf lg (api_step C e a)"
proof (cases e)
  case (EvIntercept T sid tn ps ti)
  show ?thesis
  proof (cases "session_request C sid tn ps ti a")
    case None
    with EvIntercept assms(3) show ?thesis by (simp add: intercept_unknown)
  next
    case (Some c)
    obtain r w where run: "intercept_and_call (ac_guardrails C) T c (ap_world a) = (r, w)" by fastforce
    have "list_all attempt_wf (lg (w_store (snd (intercept_and_call (ac_guardrails C) T c (ap_world a)))) s)" for s
      using interception_log_wf [OF I assms(2), of s "[(T, c)]"] assms(3) by (simp add: logs_wf_def)
    with EvIntercept intercept_known(1) [OF Some run] run show ?thesis by (simp add: logs_wf_def)
  qed
qed (use assms(3) in \<open>simp_all add: logs_wf_def session_store_kept get_approval_def decide_approval_def ops_decide_approval_def\<close>)

definition app_ready :: "('s, 'b) app_config \<Rightarrow> ('s \<Rightarrow> bool) \<Rightarrow> ('s \<Rightarrow> attempt_log) \<Rightarrow> ('s, 'b) app \<Rightarrow> bool" where
  "app_ready C good lg a \<longleftrightarrow> good (w_store (ap_world a)) \<and> logs_wf lg a \<and> same_embedder C a"

lemma app_ready_run:
  assumes "interception (ac_guardrails C) good lg open_at"
  shows "app_ready C good lg a \<Longrightarrow> app_ready C good lg (api_run C es a)"
  by (induction es arbitrary: a)
    (auto simp: app_ready_def api_step_good [OF assms] logs_wf_step [OF assms] same_embedder_step)

subsection \<open>The handlers answer\<close>

definition http_only :: "'a result \<Rightarrow> bool" where
  "http_only r \<longleftrightarrow> (\<exists>v. r = Inr v) \<or> (\<exists>n \<in> {401, 404, 409, 422, 503}. r = Inl (HTTPException n))"

lemma http_only_Inr [simp]: "http_only (Inr v)"
  by (simp add: http_only_def)

lemma http_only_bind [intro]: "http_only r \<Longrightarrow> (\<And>v. r = Inr v \<Longrightarrow> http_only (f v)) \<Longrightarrow> http_only (res_bind r f)"
  by (cases r) (auto simp: http_only_def)

lemma representation_http: "http_only (session_or_404 (app_get_task_representation sid a))"
  by (auto simp: http_only_def app_get_task_representation_def session_or_404_def split: option.split)

lemma interception_answers:
  assumes I: "interception G good lg open_at" and good: "good (w_store w)"
    and "gr_tools G = default_registry" "gr_tiers G = default_tier_registry"
    and "\<And>t. \<exists>v. tp_embedder (cr_task_representation c) t = Inr v" "\<And>t ps. \<exists>r. gr_content_detector G t ps = Inr r"
    and "intercept_and_call G T c w = (r, w')"
  shows "(\<exists>res. r = Inr res) \<or> r = Inl (UnregisteredToolError (cr_tool_name c))"
proof -
  have eff: "decision_effects lg G T c (call_decision G T c w) w r w'"
    using interception.intercept_refines [OF I good assms(7)] by blast
  obtain b where b: "run_scoring G c (w_store w) = Inr b"
    using interception.scoring_answers [OF I good assms(5,6)] by blast
  show ?thesis
  proof (cases "call_decision G T c w")
    case (Raise e)
    have "e = UnregisteredToolError (cr_tool_name c)"
    proof (cases "open_at (ct_check T) (w_breaker w)")
      case True
      with Raise interception.open_bypasses [OF I] show ?thesis by simp
    next
      case False
      from breaker_contract.runs [OF interception.axioms(2) [OF I] False, of "wrapped_scoring G c" "w_store w" "Inr b"]
      obtain s' where "gr_breaker_call G (ct_check T) (ct_trip T) (wrapped_scoring G c) (w_breaker w, w_store w)
          = (Inr b, s', w_store w)" by (auto simp: wrapped_scoring_def b)
      with Raise show ?thesis
        by (auto simp: call_decision_def decision_of_def assms(4) default_tier_get split: sum.splits option.splits)
    qed
    with eff Raise show ?thesis by (simp add: decision_effects_def)
  next
    case (Bypass p)
    with eff show ?thesis
      using interception.permits_registered [OF I, of c T w] default_tool_answers [of "cr_tool_name c" _ "cr_params c" "w_executed w"]
      by (auto simp: decision_effects_def tool_run_def assms(3,4) split: if_splits)
  next
    case (Respond b tier)
    with eff show ?thesis
      using interception.permits_registered [OF I, of c T w] default_tool_answers [of "cr_tool_name c" _ "cr_params c" "w_executed w"]
      by (auto simp: decision_effects_def tool_run_def assms(3,4) split: if_splits)
  qed
qed


definition entries_wf :: "report_acc \<Rightarrow> bool" where
  "entries_wf acc \<longleftrightarrow> list_all (\<lambda>e. detail_wf (cre_scoring_detail e)) (ra_entries acc)"

lemma report_attempt_answers:
  assumes "attempt_wf a" "entries_wf acc"
  shows "\<exists>acc' q'. report_attempt a t acc queue = (Inr acc', q') \<and> entries_wf acc'"
proof -
  have "\<exists>shown q'. attempt_approval a t queue = (Inr shown, q')"
  proof (cases "ca_scoring_detail a" rule: detail_wf.cases)
    case (2 d)
    have "queue_lookup (JStr rid) t st = (r, q') \<Longrightarrow> \<exists>x y. r = Inr (x, y)" for rid st r q'
      by (cases t) (auto split: prod.splits sum.splits)
    with 2 assms(1) show ?thesis
      by (cases "ca_outcome a"; cases queue)
        (auto simp: attempt_approval_def attempt_wf_def Let_def split: option.splits json.splits prod.split)
  qed (use assms(1) in \<open>auto simp: attempt_approval_def attempt_wf_def split: call_outcome.split\<close>)
  then obtain x y q' where "attempt_approval a t queue = (Inr (x, y), q')" by auto
  moreover have "attempt_flagged (ca_scoring_detail a) = Inr (0 < detail_count (ca_scoring_detail a))"
    using assms(1) by (simp add: attempt_flagged_wf attempt_wf_def)
  ultimately show ?thesis using assms by (simp add: report_attempt_def entries_wf_def attempt_wf_def Let_def)
qed

lemma report_loop_answers:
  "list_all attempt_wf as \<Longrightarrow> entries_wf acc \<Longrightarrow>
     \<exists>acc' q'. report_loop clock i as acc queue = (Inr acc', q') \<and> entries_wf acc'"
proof (induction as arbitrary: i acc queue)
  case (Cons a as)
  then obtain acc1 q1 where "report_attempt a (clock i) acc queue = (Inr acc1, q1)" "entries_wf acc1"
    using report_attempt_answers [of a acc "clock i" queue] by auto
  with Cons show ?case by simp
qed simp

lemma export_answers:
  assumes "list_all (\<lambda>e. detail_wf (cre_scoring_detail e)) (rp_calls report)"
  shows "\<exists>j. to_redacted_dict report = Inr j"
proof -
  have "\<exists>c. entry_to_dict e = Inr c" if "e \<in> set (rp_calls report)" for e
    using that assms redact_detail_wf [of "cre_scoring_detail e"] by (auto simp: list_all_iff entry_to_dict_def)
  then obtain f where "\<And>e. e \<in> set (rp_calls report) \<Longrightarrow> entry_to_dict e = Inr (f e)" by metis
  then have "res_map entry_to_dict (rp_calls report) = Inr (map f (rp_calls report))" by (rule res_map_Inr)
  then show ?thesis by (simp add: to_redacted_dict_def)
qed

lemma report_http:
  assumes "session_store (gr_store (ac_guardrails C)) good lg" "good (w_store (ap_world a))" "logs_wf lg a"
  shows "http_only (fst (get_investigation_report C clock sid a))"
proof (cases "session_or_404 (app_get_task_representation sid a)")
  case (Inl e)
  with representation_http [of sid a] show ?thesis by (simp add: get_investigation_report_def http_only_def)
next
  case (Inr tp)
  let ?acc = "\<lparr>ra_entries = [], ra_outcome_counts = [], ra_flagged_count = 0\<rparr>"
  obtain acc q where loop: "report_loop clock 0 (lg (w_store (ap_world a)) sid) ?acc
      (Some (w_queue (ap_world a), w_metrics (ap_world a))) = (Inr acc, q)" "entries_wf acc"
    using report_loop_answers [of "lg (w_store (ap_world a)) sid" ?acc clock 0
        "Some (w_queue (ap_world a), w_metrics (ap_world a))"] assms(3)
    unfolding logs_wf_def by (fastforce simp: entries_wf_def)
  obtain rep where rep: "generate_investigation_report (gr_store (ac_guardrails C)) clock sid (w_store (ap_world a))
      (Some (w_queue (ap_world a), w_metrics (ap_world a))) = (Inr rep, q)" "rp_calls rep = ra_entries acc"
    using loop(1) session_store.attempts [OF assms(1,2)] by (auto simp: generate_investigation_report_def)
  obtain j where "to_redacted_dict rep = Inr j"
    using export_answers [of rep] loop(2) by (auto simp: rep(2) entries_wf_def)
  with Inr rep show ?thesis by (simp add: get_investigation_report_def split: option.split)
qed

lemma queue_http:
  assumes "\<And>e st'. f st = (Inl e, st') \<Longrightarrow> (\<exists>r. e = UnknownApprovalRequestError r) \<or> (\<exists>r. e = ApprovalAlreadyDecidedError r)"
    and "st = (w_queue (ap_world a), w_metrics (ap_world a))"
  shows "http_only (fst (on_queue f a))"
proof -
  obtain r q m where f: "f st = (r, q, m)" by (metis surj_pair)
  with assms show ?thesis
    by (cases r) (auto simp: on_queue_def approval_or_http_def http_only_def)
qed

lemma aq_get_errors: "aq_get rid t1 t2 st = (Inl e, st') \<Longrightarrow> e = UnknownApprovalRequestError rid"
  by (auto simp: aq_get_def Let_def split: option.splits if_splits)

lemma aq_decide_errors:
  "aq_decide rid ap role t1 t2 t3 st = (Inl e, st') \<Longrightarrow>
     e = UnknownApprovalRequestError rid \<or> e = ApprovalAlreadyDecidedError rid"
  by (auto simp: aq_decide_def Let_def dest: aq_get_errors split: prod.splits sum.splits if_splits)

lemma queue_endpoints_http:
  "http_only (fst (get_approval rid t1 t2 a))" "http_only (fst (decide_approval rid ap t1 t2 t3 a))"
  "http_only (fst (ops_decide_approval C rid ap key t1 t2 t3 a))"
proof -
  show "http_only (fst (get_approval rid t1 t2 a))" "http_only (fst (decide_approval rid ap t1 t2 t3 a))"
    unfolding get_approval_def decide_approval_def
    by (rule queue_http [OF _ refl]; use aq_get_errors aq_decide_errors in blast)+
  have "http_only (fst (on_queue (aq_decide rid ap OPS_SECURITY_APPROVER t1 t2 t3) a))"
    by (rule queue_http [OF _ refl]) (use aq_decide_errors in blast)
  then show "http_only (fst (ops_decide_approval C rid ap key t1 t2 t3 a))"
    by (auto simp: ops_decide_approval_def) (auto simp: http_only_def)
qed


lemma intercept_http:
  assumes I: "interception (ac_guardrails C) good lg open_at" and ready: "app_ready C good lg a" and parts: "parts_answer C"
  shows "http_only (fst (intercept C T sid tn ps ti a))"
proof (cases "session_request C sid tn ps ti a")
  case None
  then show ?thesis by (simp add: intercept_unknown http_only_def)
next
  case (Some c)
  obtain r w where run: "intercept_and_call (ac_guardrails C) T c (ap_world a) = (r, w)" by fastforce
  have "tp_embedder (cr_task_representation c) = ac_embedder C"
    using Some ready
    by (auto simp: session_request_def intercept_request_def app_ready_def same_embedder_def split: option.splits)
  then have "(\<exists>res. r = Inr res) \<or> r = Inl (UnregisteredToolError (cr_tool_name c))"
    using parts ready by (intro interception_answers [OF I _ _ _ _ _ run]) (auto simp: parts_answer_def app_ready_def)
  moreover have "\<exists>x. explanation_of C res = Inr x" for res
  proof -
    have "\<exists>s. ac_explainer C x = Inr s" for x using parts by (simp add: parts_answer_def)
    then obtain f where "\<And>x. ac_explainer C x = Inr (f x)" by metis
    then show ?thesis by (simp add: explanation_of_def)
  qed
  ultimately have "http_only (case r of
        Inl e \<Rightarrow> Inl (case e of UnregisteredToolError _ \<Rightarrow> HTTPException 404 | _ \<Rightarrow> e)
      | Inr res \<Rightarrow> res_bind (explanation_of C res) (\<lambda>x. Inr (f res x)))" for f :: "interception_result \<Rightarrow> string option \<Rightarrow> intercept_response"
    by (cases r) (auto simp: http_only_def, metis res_bind_simps(2))
  then show ?thesis unfolding intercept_known(6) [OF Some run] .
qed

lemma session_http:
  assumes parts: "parts_answer C" and ready: "app_ready C good lg a" and S: "session_store (gr_store (ac_guardrails C)) good lg"
  shows "http_only (fst (start_session C sid v a))" "http_only (fst (user_turn C sid t a))"
    "http_only (check_drift C sid a)" "http_only (get_drift_status sid a)"
proof -
  have "\<forall>t. \<exists>v. ac_embedder C t = Inr v" using parts by (simp add: parts_answer_def)
  from choice [OF this] obtain vec where e: "\<And>t. ac_embedder C t = Inr (vec t)" by blast
  then show "http_only (fst (start_session C sid v a))"
    by (auto simp: start_session_def app_start_session_def tp_start_def http_only_def split: option.split)
  have "\<forall>u. \<exists>b. ac_boundary_classifier C u t = Inr b" using parts by (simp add: parts_answer_def)
  from choice [OF this] obtain b where b: "\<And>u. ac_boundary_classifier C u t = Inr (b u)" by blast
  show "http_only (fst (user_turn C sid t a))"
  proof (cases "session_or_404 (app_get_task_representation sid a)")
    case (Inl e)
    with representation_http [of sid a] show ?thesis by (simp add: user_turn_def http_only_def)
  next
    case (Inr tp)
    then have "dict_get (ap_task_representations a) sid = Some tp"
      by (auto simp: session_or_404_def app_get_task_representation_def split: option.splits)
    with ready have "tp_embedder tp = ac_embedder C" by (simp add: app_ready_def same_embedder_def)
    with Inr e b show ?thesis by (simp add: user_turn_def tp_update_from_user_turn_def Let_def)
  qed
  have "http_only (ac_drift_detector C td hist)" for td hist
    using parts by (simp add: parts_answer_def detector_answers_def http_only_def)
  then show "http_only (check_drift C sid a)"
    using session_store.calls [OF S, of "w_store (ap_world a)"] ready
    by (auto simp: check_drift_def app_ready_def intro!: http_only_bind representation_http)
  show "http_only (get_drift_status sid a)"
    by (auto simp: get_drift_status_def intro!: http_only_bind representation_http)
qed

text \<open>
  C5: in the deployed service, with a Redis server that behaves as documented and an embedder that
  answers, no endpoint ever fails with an internal error: after any sequence of requests and
  rounds of the scheduler, each of them answers every request with a result or with one of the
  HTTP errors 401, 404, 409, 422 and 503, even when no language model answers.
\<close>

theorem no_internal_error:
  assumes "app_init D environ redis0 values0 m0 = Inr (C, a0)" "redis_lawful D (ac_settings C)" "app_good D C redis0"
    and "\<And>sid. app_log D C redis0 sid = []" "\<And>t. \<exists>v. ac_embedder C t = Inr v" "a = api_run C es a0"
  shows "http_only (fst (start_session C sid v a)) \<and> http_only (fst (user_turn C sid t a))
    \<and> http_only (fst (intercept C T sid tn ps ti a)) \<and> http_only (check_drift C sid a) \<and> http_only (get_drift_status sid a)
    \<and> http_only (fst (get_investigation_report C clock sid a)) \<and> http_only (fst (get_approval rid t1 t2 a))
    \<and> http_only (fst (decide_approval rid ap t1 t2 t3 a)) \<and> http_only (fst (ops_decide_approval C rid ap key t1 t2 t3 a))"
proof -
  note I = app_interception(1) [OF assms(1,2)] and init = app_init_Inr [OF assms(1)]
  have S: "session_store (gr_store (ac_guardrails C)) (app_good D C) (app_log D C)"
    using I by (simp add: interception_def)
  have "app_ready C (app_good D C) (app_log D C) a0"
    using assms(3,4) by (simp add: app_ready_def init logs_wf_def same_embedder_def)
  from app_ready_run [OF I this, of es] have ready: "app_ready C (app_good D C) (app_log D C) a" by (simp add: assms(6))
  have parts: "parts_answer C" by (rule app_init_answers [OF assms(1,5)])
  show ?thesis
    using ready by (intro conjI intercept_http [OF I ready parts] session_http [OF parts ready S] queue_endpoints_http
      report_http [OF S]) (simp_all add: app_ready_def)
qed

theorem no_internal_error_witness:
  "\<exists>C a. app_init demo_deployment demo_env Map.empty Map.empty metrics0 = Inr (C, a)
     \<and> http_only (fst (intercept C demo_times ''s'' ''book_flight'' [] 0 (api_run C demo_events a)))"
proof (rule demo_starts)
  fix C and a
  assume d: "app_init demo_deployment demo_env Map.empty Map.empty metrics0 = Inr (C, a)"
    "redis_lawful demo_deployment (ac_settings C)" "app_good demo_deployment C Map.empty" "ac_embedder C = (\<lambda>_. Inr [1])"
  have "app_log demo_deployment C Map.empty sid = []" for sid
    by (simp add: rs_log_def rs_get_attempts_def app_store_def demo_deployment_def redis_list_map_def)
  from no_internal_error [OF d(1,2,3) this _ refl] d(1,4) show ?thesis by fastforce
qed

end
