(* ===== verification/ReportTypes.thy ===== *)
theory ReportTypes
  imports Investigation
begin

section \<open>The type of an exported report\<close>

text \<open>
  What \<open>to_redacted_dict\<close> of \<open>investigation/report.py\<close> promises the reader of its JSON: types of
  JSON values, with the fields of an object in order, the type of a scoring detail as
  \<open>_scoring_to_dict\<close> of \<open>interception/interceptor.py\<close> writes it, and that of a report. Shown: the
  details the interception layer logs have their type, redaction keeps it, and so every report of
  an intercepted session exports, and its export has the type of a report.
\<close>

datatype json_type =
    NullT
  | BoolT
  | IntT
  | FloatT
  | StrT
  | ListT json_type
  | MapT json_type
  | ObjT "(string \<times> json_type) list"
  | OrT json_type json_type

fun has_type :: "json_type \<Rightarrow> json \<Rightarrow> bool"
  and has_fields :: "(string \<times> json_type) list \<Rightarrow> (string, json) dict \<Rightarrow> bool" where
  "has_type NullT j \<longleftrightarrow> j = JNull"
| "has_type BoolT j \<longleftrightarrow> (case j of JBool _ \<Rightarrow> True | _ \<Rightarrow> False)"
| "has_type IntT j \<longleftrightarrow> (case j of JInt _ \<Rightarrow> True | _ \<Rightarrow> False)"
| "has_type FloatT j \<longleftrightarrow> (case j of JFloat _ \<Rightarrow> True | _ \<Rightarrow> False)"
| "has_type StrT j \<longleftrightarrow> (case j of JStr _ \<Rightarrow> True | _ \<Rightarrow> False)"
| "has_type (ListT t) j \<longleftrightarrow> (case j of JList xs \<Rightarrow> list_all (has_type t) xs | _ \<Rightarrow> False)"
| "has_type (MapT t) j \<longleftrightarrow> (case j of JDict d \<Rightarrow> list_all (\<lambda>x. has_type t (snd x)) d | _ \<Rightarrow> False)"
| "has_type (ObjT fs) j \<longleftrightarrow> (case j of JDict d \<Rightarrow> has_fields fs d | _ \<Rightarrow> False)"
| "has_type (OrT t u) j \<longleftrightarrow> has_type t j \<or> has_type u j"
| "has_fields [] d \<longleftrightarrow> d = []"
| "has_fields ((k, t) # fs) d \<longleftrightarrow>
     (case d of [] \<Rightarrow> False | (k', v) # d' \<Rightarrow> k' = k \<and> has_type t v \<and> has_fields fs d')"

definition pattern_fields :: "(string \<times> json_type) list" where
  "pattern_fields = [(''is_suspicious'', BoolT), (''reasoning'', OrT StrT NullT), (''matched_patterns'', ListT StrT),
     (''confidence'', OrT FloatT NullT)]"

definition scoring_fields :: "(string \<times> json_type) list" where
  "scoring_fields =
    [(''schema_violation'', OrT (ObjT [(''missing_params'', ListT StrT), (''unexpected_params'', ListT StrT),
        (''is_violation'', BoolT)]) NullT),
     (''divergence'', ObjT [(''similarity'', FloatT), (''is_divergent'', BoolT)]),
     (''escalation'', ObjT [(''escalated_tools'', ListT StrT), (''is_escalated'', BoolT)]),
     (''loop_rate'', ObjT [(''same_tool_attempt_count'', IntT), (''is_rate_exceeded'', BoolT),
        (''is_evasion_retry'', BoolT), (''is_benign_retry'', BoolT)]),
     (''exfiltration'', ObjT [(''outbound_call_count'', IntT), (''is_frequency_exceeded'', BoolT),
        (''is_content_anomalous'', BoolT), (''anomalous_params'', ListT StrT)]),
     (''content_pattern'', ObjT pattern_fields),
     (''flagged_detector_count'', IntT)]"

text \<open>A call that is held has one field more.\<close>

definition detail_type :: json_type where
  "detail_type = OrT (ObjT scoring_fields) (ObjT (scoring_fields @ [(''approval_request_id'', StrT)]))"

definition entry_type :: json_type where
  "entry_type = ObjT
    [(''turn_index'', IntT), (''tool_name'', StrT), (''params'', MapT StrT), (''outcome'', StrT),
     (''scoring_detail'', OrT detail_type NullT), (''approval_outcome'', OrT StrT NullT),
     (''approval_decided_by_role'', OrT StrT NullT)]"

definition report_type :: json_type where
  "report_type = ObjT
    [(''session_id'', StrT), (''total_calls'', IntT), (''flagged_call_count'', IntT),
     (''outcome_breakdown'', MapT IntT), (''calls'', ListT entry_type)]"

subsection \<open>Typing\<close>

lemma has_type_strs [simp]: "has_type (ListT StrT) (json_strs xs)"
  by (simp add: json_strs_def list_all_iff)

lemma has_type_opt [simp]:
  "has_type (OrT t NullT) (json_opt f x) \<longleftrightarrow> (case x of None \<Rightarrow> True | Some y \<Rightarrow> has_type t (f y) \<or> f y = JNull)"
  by (cases x) simp_all

lemma has_fields_append:
  "has_fields fs d \<Longrightarrow> has_fields gs e \<Longrightarrow> has_fields (fs @ gs) (d @ e)"
  by (induction fs arbitrary: d) (auto split: list.splits)

lemma has_fields_keys: "has_fields fs d \<Longrightarrow> map fst d = map fst fs"
  by (induction fs arbitrary: d) (auto split: list.splits)

text \<open>Setting a field to a value of its type keeps the type of the object.\<close>

lemma has_fields_set:
  "has_fields fs d \<Longrightarrow> map_of fs k = Some t \<Longrightarrow> has_type t v \<Longrightarrow> has_fields fs (dict_set d k v)"
  by (induction fs arbitrary: d) (auto split: list.splits if_splits)

lemma has_fields_get:
  "has_fields fs d \<Longrightarrow> map_of fs k = Some t \<Longrightarrow> \<exists>v. dict_get d k = Some v \<and> has_type t v"
  by (induction fs arbitrary: d) (auto split: list.splits if_splits)

subsection \<open>What the interception layer logs\<close>

definition detail_typed :: "json option \<Rightarrow> bool" where
  "detail_typed d \<longleftrightarrow> (case d of None \<Rightarrow> True | Some j \<Rightarrow> has_type detail_type j)"

lemma scoring_dict_typed: "has_fields scoring_fields (scoring_to_dict b)"
  by (cases "sb_schema_violation b"; cases "cp_reasoning (sb_content_pattern b)";
      cases "cp_confidence (sb_content_pattern b)")
    (simp_all add: scoring_fields_def pattern_fields_def scoring_to_dict_def json_strs_def list_all_iff)

lemma held_detail_typed:
  "has_fields (scoring_fields @ [(''approval_request_id'', StrT)])
     (dict_set (scoring_to_dict b) ''approval_request_id'' (JStr rid))"
proof -
  have "''approval_request_id'' \<notin> dict_keys (scoring_to_dict b)"
    using scoring_dict_gets(2) by (simp flip: dict_get_None_keys)
  then show ?thesis
    by (simp add: dict_set_fresh has_fields_append [OF scoring_dict_typed])
qed

lemma logged_detail_typed: "detail_typed (logged_detail c rid d)"
  by (cases d) (simp_all add: detail_typed_def detail_type_def scoring_dict_typed held_detail_typed)

subsection \<open>What is exported\<close>

lemma redact_pattern_typed:
  assumes "has_type (ObjT pattern_fields) cp"
  obtains cp' where "redact_content_pattern cp = Inr cp'" "has_type (ObjT pattern_fields) cp'"
proof -
  from assms obtain d where d: "cp = JDict d" "has_fields pattern_fields d" by (auto split: json.splits)
  have r: "map_of pattern_fields ''reasoning'' = Some (OrT StrT NullT)" by (simp add: pattern_fields_def)
  from has_fields_get [OF d(2) r] obtain v where v: "dict_get d ''reasoning'' = Some v" "has_type (OrT StrT NullT) v"
    by blast
  have "has_fields pattern_fields (dict_set d ''reasoning'' (JStr s))" for s
    by (rule has_fields_set [OF d(2) r]) simp
  with that v d show thesis
    by (cases v) (fastforce simp: redact_content_pattern_def split: if_splits)+
qed

lemma redact_detail_typed:
  assumes "detail_typed d"
  obtains d' where "redact_scoring_detail d = Inr d'" "detail_typed d'"
proof (cases d)
  case None
  then show thesis using that by (simp add: detail_typed_def)
next
  case (Some j)
  with assms obtain fs dd where j: "j = JDict dd" "has_fields fs dd"
    "fs \<in> {scoring_fields, scoring_fields @ [(''approval_request_id'', StrT)]}"
    by (auto simp: detail_typed_def detail_type_def split: json.splits)
  have k: "map_of fs ''content_pattern'' = Some (ObjT pattern_fields)"
    using j(3) by (auto simp: scoring_fields_def)
  from has_fields_get [OF j(2) k] obtain cp where cp: "dict_get dd ''content_pattern'' = Some cp"
    "has_type (ObjT pattern_fields) cp" by blast
  obtain cp' where cp': "redact_content_pattern cp = Inr cp'" "has_type (ObjT pattern_fields) cp'"
    by (rule redact_pattern_typed [OF cp(2)])
  have "cp \<noteq> JNull" using cp(2) by auto
  with cp cp'(1) j(1) Some have "redact_scoring_detail d = Inr (Some (JDict (dict_set dd ''content_pattern'' cp')))"
    by simp
  moreover have "detail_typed (Some (JDict (dict_set dd ''content_pattern'' cp')))"
    using has_fields_set [OF j(2) k cp'(2)] j(3) by (auto simp: detail_typed_def detail_type_def)
  ultimately show thesis by (rule that)
qed

lemma entry_typed:
  assumes "detail_typed (cre_scoring_detail e)"
  shows "\<exists>j. entry_to_dict e = Inr j \<and> has_type entry_type j"
proof -
  obtain d where d: "redact_scoring_detail (cre_scoring_detail e) = Inr d" "detail_typed d"
    by (rule redact_detail_typed [OF assms])
  have "has_type (OrT detail_type NullT) (json_opt id d)"
    using d(2) by (cases d) (simp_all add: detail_typed_def)
  moreover have "has_type (OrT StrT NullT) (json_opt JStr x)" for x by (cases x) simp_all
  ultimately show ?thesis
    using d(1) by (simp add: entry_to_dict_def entry_type_def list_all_iff split_beta)
qed

lemma export_typed:
  assumes "list_all (\<lambda>e. detail_typed (cre_scoring_detail e)) (rp_calls rep)"
  shows "\<exists>j. to_redacted_dict rep = Inr j \<and> has_type report_type j"
proof -
  have "\<forall>e \<in> set (rp_calls rep). \<exists>j. entry_to_dict e = Inr j \<and> has_type entry_type j"
    using assms entry_typed by (simp add: list_all_iff)
  from bchoice [OF this] obtain f where
    f: "\<And>e. e \<in> set (rp_calls rep) \<Longrightarrow> entry_to_dict e = Inr (f e) \<and> has_type entry_type (f e)" by blast
  then have "res_map entry_to_dict (rp_calls rep) = Inr (map f (rp_calls rep))" by (intro res_map_Inr) simp
  with f show ?thesis
    by (simp add: to_redacted_dict_def report_type_def list_all_iff split_beta)
qed

text \<open>
  C25: after any calls through the interception layer the report of a session can be exported, and
  what is exported has the type of a report: the documented fields of every object, in order, with
  values of their types, and details with the seven fields of a scoring, or eight for a held call.
\<close>

theorem report_export_typed:
  assumes "interception G good lg open_at" "good (w_store w0)" "lg (w_store w0) sid = []" "aq_ok st"
    and "w = intercept_calls G calls w0"
    and "generate_investigation_report (gr_store G) clock sid (w_store w) (Some st) = (r, queue)"
  shows "\<exists>rep j. r = Inr rep \<and> to_redacted_dict rep = Inr j \<and> has_type report_type j"
proof -
  obtain rep and st' :: aq_state where rep: "r = Inr rep" "list_all2 (entry_ok (fst st')) (lg (w_store w) sid) (rp_calls rep)"
    using report_of_log [OF assms] by blast
  have "list_all (\<lambda>a. detail_typed (ca_scoring_detail a)) (lg (w_store w) sid)"
    unfolding assms(5) by (rule interception_log_all [OF assms(1) _ assms(2)]) (simp_all add: logged_detail_typed assms(3))
  with rep(2) have "list_all (\<lambda>e. detail_typed (cre_scoring_detail e)) (rp_calls rep)"
    by (induction rule: list_all2_induct) (simp_all add: entry_ok_def)
  with export_typed rep(1) show ?thesis by blast
qed

theorem report_export_typed_witness:
  "\<exists>rep j. fst (generate_investigation_report (gr_store default_guardrails) (\<lambda>_. (9, 9)) ''s''
        (w_store (intercept_calls default_guardrails [(demo_times, demo_request ''send_payment'' [])] demo_open_world))
        (Some (aq_empty 1800, metrics0))) = Inr rep
    \<and> to_redacted_dict rep = Inr j \<and> has_type report_type j"
proof -
  have "mem_log (w_store demo_open_world) ''s'' = []"
    by (simp add: demo_open_world_def demo_world_def mem_log_def dict_get_or_def)
  from report_export_typed [OF default_interception TrueI this aq_ok_init [of 1800] refl surjective_pairing]
  show ?thesis .
qed

end
