(* ===== verification/Replicas.thy ===== *)
theory Replicas
  imports CircuitBreaker
begin

section \<open>Replicas that share one circuit breaker\<close>

text \<open>
  \<open>RedisCircuitBreaker.call\<close> of \<open>interception/redis_circuit_breaker.py\<close> once more, one Redis command
  at a time: several replicas, or several threads of one, are each in the middle of a call, and
  only a single command is atomic. A schedule lists which replica moves next, what its clock
  shows, and how its wrapped function ends. Shown: a call that nobody interrupts is \<open>rb_call\<close>; no
  failure is lost, whatever the schedule; failures alone always trip the breaker, however they
  interleave; and two schedules in which a success and a trip cross, so that the breaker is left
  closed after a streak of failures, or open after a success.
\<close>

subsection \<open>The commands of a call\<close>

text \<open>
  Where a replica is: between two calls; in the wrapped function; about to send the \<open>INCR\<close> after a
  failure; about to set \<open>opened_at\<close>; about to send the two \<open>DEL\<close> after a success.
\<close>

datatype call_phase = Idle | Scoring | Counting | Tripping | Clearing | Closing

fun replica_step :: "'r redis_breaker \<Rightarrow> pyfloat \<Rightarrow> bool \<Rightarrow> call_phase \<Rightarrow> 'r \<Rightarrow> call_phase \<times> 'r" where
  "replica_step B now ok Idle r = (if rb_state_at B now r = OPEN then Idle else Scoring, r)"
| "replica_step B now ok Scoring r = (if ok then Clearing else Counting, r)"
| "replica_step B now ok Counting r =
     (let (new_count, r') = kv_incr (rb_redis B) (failure_count_key (rb_breaker_name B)) r
      in (if new_count \<ge> int (rb_failure_threshold B) then Tripping else Idle, r'))"
| "replica_step B now ok Tripping r =
     (Idle, kv_set (rb_redis B) (opened_at_key (rb_breaker_name B)) (RNum now) r)"
| "replica_step B now ok Clearing r =
     (Closing, kv_delete (rb_redis B) (failure_count_key (rb_breaker_name B)) r)"
| "replica_step B now ok Closing r =
     (Idle, kv_delete (rb_redis B) (opened_at_key (rb_breaker_name B)) r)"

text \<open>
  The server, where every replica is, and, which the code does not keep, the history of recorded
  outcomes, the newest first: a failure is recorded by its \<open>INCR\<close>, a success by its first \<open>DEL\<close>.
\<close>

record 'r cluster =
  cl_server :: 'r
  cl_phase :: "nat \<Rightarrow> call_phase"
  cl_history :: "(pyfloat \<times> bool) list"

type_synonym schedule = "(nat \<times> pyfloat \<times> bool) list"

fun cluster_step :: "'r redis_breaker \<Rightarrow> nat \<times> pyfloat \<times> bool \<Rightarrow> 'r cluster \<Rightarrow> 'r cluster" where
  "cluster_step B (i, now, ok) S =
     (let (p, r) = replica_step B now ok (cl_phase S i) (cl_server S)
      in \<lparr>cl_server = r, cl_phase = (cl_phase S)(i := p),
          cl_history = (if cl_phase S i = Counting then [(now, False)]
            else if cl_phase S i = Clearing then [(now, True)] else []) @ cl_history S\<rparr>)"

definition cluster_run :: "'r redis_breaker \<Rightarrow> schedule \<Rightarrow> 'r cluster \<Rightarrow> 'r cluster" where
  "cluster_run B = fold (cluster_step B)"

definition cluster_start :: "'r \<Rightarrow> 'r cluster" where
  "cluster_start r = \<lparr>cl_server = r, cl_phase = (\<lambda>_. Idle), cl_history = []\<rparr>"

lemma cluster_run_simps [simp]:
  "cluster_run B [] S = S"
  "cluster_run B (s # steps) S = cluster_run B steps (cluster_step B s S)"
  by (simp_all add: cluster_run_def)

text \<open>A property every step keeps holds after any schedule.\<close>

lemma cluster_invariant:
  assumes "P S" "\<And>s S. s \<in> set steps \<Longrightarrow> P S \<Longrightarrow> P (cluster_step B s S)"
  shows "P (cluster_run B steps S)"
  using assms by (induction steps arbitrary: S) auto

text \<open>What a step does to the server, by the phase of the replica that moves.\<close>

lemma cluster_step_cases:
  obtains
    (idle) "cl_phase S i = Idle" "cluster_step B (i, now, ok) S
      = S\<lparr>cl_phase := (cl_phase S)(i := if rb_state_at B now (cl_server S) = OPEN then Idle else Scoring)\<rparr>"
  | (scoring) "cl_phase S i = Scoring" "cluster_step B (i, now, ok) S
      = S\<lparr>cl_phase := (cl_phase S)(i := if ok then Clearing else Counting)\<rparr>"
  | (counting) n r where "cl_phase S i = Counting"
      "kv_incr (rb_redis B) (failure_count_key (rb_breaker_name B)) (cl_server S) = (n, r)"
      "cluster_step B (i, now, ok) S = \<lparr>cl_server = r,
         cl_phase = (cl_phase S)(i := if n \<ge> int (rb_failure_threshold B) then Tripping else Idle),
         cl_history = (now, False) # cl_history S\<rparr>"
  | (tripping) "cl_phase S i = Tripping" "cluster_step B (i, now, ok) S
      = S\<lparr>cl_server := kv_set (rb_redis B) (opened_at_key (rb_breaker_name B)) (RNum now) (cl_server S),
          cl_phase := (cl_phase S)(i := Idle)\<rparr>"
  | (clearing) "cl_phase S i = Clearing" "cluster_step B (i, now, ok) S = \<lparr>
         cl_server = kv_delete (rb_redis B) (failure_count_key (rb_breaker_name B)) (cl_server S),
         cl_phase = (cl_phase S)(i := Closing), cl_history = (now, True) # cl_history S\<rparr>"
  | (closing) "cl_phase S i = Closing" "cluster_step B (i, now, ok) S
      = S\<lparr>cl_server := kv_delete (rb_redis B) (opened_at_key (rb_breaker_name B)) (cl_server S),
          cl_phase := (cl_phase S)(i := Idle)\<rparr>"
proof (cases "cl_phase S i")
  case Counting
  then show thesis
    by (cases "kv_incr (rb_redis B) (failure_count_key (rb_breaker_name B)) (cl_server S)")
      (intro counting; simp)
qed (auto intro: idle scoring tripping clearing closing)

subsection \<open>Alone, a replica makes the calls of \<open>rb_call\<close>\<close>

definition call_steps :: "nat \<Rightarrow> pyfloat \<Rightarrow> pyfloat \<Rightarrow> bool \<Rightarrow> schedule" where
  "call_steps i t_check t_trip ok = (i, t_check, ok) # replicate 3 (i, t_trip, ok)"

text \<open>The wrapped function with a count of how often it runs.\<close>

definition counted_outcome :: "bool \<Rightarrow> (nat, unit) wrapped" where
  "counted_outcome ok n = (if ok then Inr () else Inl (External ''scoring''), Suc n)"



subsection \<open>No failure is lost\<close>

abbreviation failures_of :: "'r redis_breaker \<Rightarrow> 'r \<Rightarrow> redis_value option" where
  "failures_of B r \<equiv> kv_get (rb_redis B) (failure_count_key (rb_breaker_name B)) r"

abbreviation opened_of :: "'r redis_breaker \<Rightarrow> 'r \<Rightarrow> redis_value option" where
  "opened_of B r \<equiv> kv_get (rb_redis B) (opened_at_key (rb_breaker_name B)) r"

definition counts_streak :: "'r redis_breaker \<Rightarrow> 'r cluster \<Rightarrow> bool" where
  "counts_streak B S \<longleftrightarrow> failures_of B (cl_server S) =
     (case failure_streak (cl_history S) of 0 \<Rightarrow> None | Suc n \<Rightarrow> Some (RInt (int (Suc n))))"

lemma incr_streak:
  assumes "redis_kv_lawful (rb_redis B)" "counts_streak B S"
    and "kv_incr (rb_redis B) (failure_count_key (rb_breaker_name B)) (cl_server S) = (n, r)"
  shows "n = int (Suc (failure_streak (cl_history S)))" "failures_of B r = Some (RInt n)"
    "opened_of B r = opened_of B (cl_server S)"
  using redis_kvD(3,4) [OF assms(1), of "failure_count_key (rb_breaker_name B)" "cl_server S"]
    redis_kvD(5) [OF assms(1), of _ "failure_count_key (rb_breaker_name B)" "cl_server S"] assms(2,3)
  by (auto simp: counts_streak_def split: nat.splits)

lemma counts_streak_step:
  assumes "redis_kv_lawful (rb_redis B)" "counts_streak B S"
  shows "counts_streak B (cluster_step B s S)"
proof -
  obtain i now ok where s: "s = (i, now, ok)" by (cases s)
  show ?thesis
  proof (cases rule: cluster_step_cases [of S i B now ok])
    case (counting n r)
    with incr_streak [OF assms counting(2)] show ?thesis by (simp add: s counts_streak_def)
  qed (use assms in \<open>simp_all add: s counts_streak_def redis_kvD(1,2) [OF assms(1)]\<close>)
qed

text \<open>
  On a server that implements the four commands, whatever replicas move in whatever order, the
  failure count is the number of failures recorded since the last success: no increment of one
  replica is lost to another.
\<close>

theorem no_failure_lost:
  assumes "redis_kv_lawful (rb_redis B)" "failures_of B r = None"
    and "S = cluster_run B steps (cluster_start r)"
  shows "failures_of B (cl_server S) = (if failure_streak (cl_history S) = 0 then None
    else Some (RInt (int (failure_streak (cl_history S)))))"
proof -
  have "counts_streak B S"
    unfolding assms(3)
  proof (rule cluster_invariant)
    show "counts_streak B (cluster_start r)"
      using assms(2) by (simp add: counts_streak_def cluster_start_def)
  qed (rule counts_streak_step [OF assms(1)])
  then show ?thesis by (auto simp: counts_streak_def split: nat.splits)
qed

theorem no_failure_lost_witness:
  "failures_of redis_demo (cl_server (cluster_run redis_demo [(0, 0, False), (1, 0, False), (0, 0, False), (1, 0, False),
     (1, 0, False), (0, 0, False)] (cluster_start Map.empty))) = Some (RInt 2)"
proof -
  have "redis_kv_lawful (rb_redis redis_demo)" "failures_of redis_demo Map.empty = None"
    by (simp_all add: redis_demo_def redis_map_lawful) (simp add: redis_map_def)
  from no_failure_lost [OF this refl, of "[(0, 0, False), (1, 0, False), (0, 0, False), (1, 0, False),
      (1, 0, False), (0, 0, False)]"]
  show ?thesis
    by (simp add: cluster_start_def redis_demo_def redis_map_def rb_state_at_def Let_def)
qed

subsection \<open>Failures alone trip the breaker\<close>

text \<open>The times that the schedule writes to \<open>opened_at\<close>, the oldest first.\<close>

fun trip_times :: "'r redis_breaker \<Rightarrow> schedule \<Rightarrow> 'r cluster \<Rightarrow> pyfloat list" where
  "trip_times B [] S = []"
| "trip_times B ((i, now, ok) # steps) S =
     (if cl_phase S i = Tripping then [now] else []) @ trip_times B steps (cluster_step B (i, now, ok) S)"

definition tripping :: "'r cluster \<Rightarrow> nat set" where
  "tripping S = {i. cl_phase S i = Tripping}"

lemma tripping_step:
  "tripping (S\<lparr>cl_phase := (cl_phase S)(i := p)\<rparr>) = (if p = Tripping then insert i (tripping S) else tripping S - {i})"
  "tripping \<lparr>cl_server = r, cl_phase = (cl_phase S)(i := p), cl_history = h\<rparr>
     = (if p = Tripping then insert i (tripping S) else tripping S - {i})"
  "tripping (S\<lparr>cl_server := r, cl_phase := (cl_phase S)(i := p)\<rparr>)
     = (if p = Tripping then insert i (tripping S) else tripping S - {i})"
  by (auto simp: tripping_def)

text \<open>
  When every call fails: each failure from the threshold on has written its time or is about to,
  and what is written last is what the server holds.
\<close>

definition trips_follow :: "'r redis_breaker \<Rightarrow> 'r cluster \<Rightarrow> pyfloat list \<Rightarrow> bool" where
  "trips_follow B S ts \<longleftrightarrow> (\<forall>i. cl_phase S i \<notin> {Clearing, Closing})
     \<and> counts_streak B S \<and> failure_streak (cl_history S) = length (cl_history S)
     \<and> opened_of B (cl_server S) = (if ts = [] then None else Some (RNum (last ts)))
     \<and> finite (tripping S)
     \<and> length ts + card (tripping S) = length (cl_history S) + 1 - max 1 (rb_failure_threshold B)"

lemma trips_follow_step:
  assumes R: "redis_kv_lawful (rb_redis B)" and I: "trips_follow B S ts"
  shows "trips_follow B (cluster_step B (i, now, False) S) (ts @ (if cl_phase S i = Tripping then [now] else []))"
proof (cases rule: cluster_step_cases [of S i B now False])
  case (counting n r)
  have c: "counts_streak B S" using I by (simp add: trips_follow_def)
  have "i \<notin> tripping S" using counting(1) by (simp add: tripping_def)
  moreover note incr_streak [OF R c counting(2)]
  ultimately show ?thesis
    using I counting counts_streak_step [OF R c, of "(i, now, False)"]
    by (auto simp: trips_follow_def tripping_step)
next
  case idle
  then have "i \<notin> tripping S" by (simp add: tripping_def)
  with idle I show ?thesis by (auto simp: trips_follow_def counts_streak_def tripping_step)
next
  case scoring
  then have "i \<notin> tripping S" by (simp add: tripping_def)
  with scoring I show ?thesis by (auto simp: trips_follow_def counts_streak_def tripping_step)
next
  case tripping
  then have "i \<in> tripping S" by (simp add: tripping_def)
  moreover from this I have "card (tripping S) = Suc (card (tripping S - {i}))"
    unfolding trips_follow_def by (intro card.remove) blast+
  ultimately show ?thesis
    using tripping I counts_streak_step [OF R, of S "(i, now, False)"]
    by (auto simp: trips_follow_def redis_kvD(1) [OF R] tripping_step)
qed (use I in \<open>auto simp: trips_follow_def\<close>)

lemma trips_follow_run:
  assumes "redis_kv_lawful (rb_redis B)"
  shows "trips_follow B S ts \<Longrightarrow> \<forall>(i, now, ok) \<in> set steps. \<not> ok \<Longrightarrow>
    trips_follow B (cluster_run B steps S) (ts @ trip_times B steps S)"
proof (induction steps arbitrary: S ts)
  case (Cons s steps)
  obtain i now ok where s: "s = (i, now, ok)" by (cases s)
  with Cons.prems have "\<not> ok" by simp
  with s Cons.IH [OF trips_follow_step [OF assms Cons.prems(1), of i now]] Cons.prems(2) show ?case by simp
qed simp

text \<open>
  C20: when every call fails, in any interleaving of the replicas and with any clocks, every failure
  from the threshold on writes the time: once no replica is between its \<open>INCR\<close> and its \<open>SET\<close>, as
  many times are written as failures were recorded from the threshold on, the server holds the
  latest, and the breaker is open for all replicas exactly until the recovery timeout after it; below
  the threshold nothing is written and the breaker is closed.
\<close>

theorem failures_trip_breaker:
  assumes "redis_kv_lawful (rb_redis B)" "failures_of B r = None" "opened_of B r = None"
    and "\<forall>(i, now, ok) \<in> set steps. \<not> ok"
    and "S = cluster_run B steps (cluster_start r)" "ts = trip_times B steps (cluster_start r)"
    and "\<forall>i. cl_phase S i \<noteq> Tripping"
  shows "length ts = length (cl_history S) + 1 - max 1 (rb_failure_threshold B)
    \<and> opened_of B (cl_server S) = (if ts = [] then None else Some (RNum (last ts)))
    \<and> (rb_open_at B now (cl_server S) \<longleftrightarrow>
         max 1 (rb_failure_threshold B) \<le> length (cl_history S) \<and> now < last ts + rb_recovery_timeout B)"
proof -
  have "trips_follow B (cluster_start r) []"
    using assms(2,3) by (auto simp: trips_follow_def counts_streak_def cluster_start_def tripping_def)
  from trips_follow_run [OF assms(1) this assms(4)] have "trips_follow B S ts" by (simp add: assms(5,6))
  moreover have "tripping S = {}" using assms(7) by (simp add: tripping_def)
  ultimately have f: "length ts = length (cl_history S) + 1 - max 1 (rb_failure_threshold B)"
    "opened_of B (cl_server S) = (if ts = [] then None else Some (RNum (last ts)))"
    by (simp_all add: trips_follow_def)
  moreover from f(1) have "ts = [] \<longleftrightarrow> \<not> max 1 (rb_failure_threshold B) \<le> length (cl_history S)"
    by (cases ts) auto
  ultimately show ?thesis
    by (auto simp: rb_open_at_def rb_state_at_def Let_def)
qed

text \<open>Two replicas whose first calls fail at the same time, with a threshold of two.\<close>

definition two_fail :: schedule where
  "two_fail = [(0, 5, False), (1, 5, False), (0, 5, False), (1, 5, False), (1, 5, False), (0, 5, False), (0, 6, False)]"

theorem failures_trip_breaker_witness:
  "let B = redis_demo\<lparr>rb_failure_threshold := 2\<rparr>; S = cluster_run B two_fail (cluster_start Map.empty)
   in rb_open_at B 34 (cl_server S) \<and> \<not> rb_open_at B 36 (cl_server S)"
proof -
  let ?B = "redis_demo\<lparr>rb_failure_threshold := 2\<rparr>"
  let ?S = "cluster_run ?B two_fail (cluster_start Map.empty)"
  have "redis_kv_lawful (rb_redis ?B)" "failures_of ?B Map.empty = None" "opened_of ?B Map.empty = None"
    by (simp_all add: redis_demo_def redis_map_lawful) (simp_all add: redis_map_def)
  moreover have "\<forall>(i, now, ok) \<in> set two_fail. \<not> ok" by (simp add: two_fail_def)
  moreover have "\<forall>i. cl_phase ?S i \<noteq> Tripping" "length (cl_history ?S) = 2" "trip_times ?B two_fail (cluster_start Map.empty) = [6]"
    by (simp_all add: two_fail_def cluster_start_def redis_demo_def redis_map_def rb_state_at_def Let_def)
  ultimately have "rb_open_at ?B now (cl_server ?S) \<longleftrightarrow> now < 6 + rb_recovery_timeout ?B" for now
    using failures_trip_breaker [of ?B Map.empty two_fail ?S "[6]" now] by (simp add: redis_demo_def)
  then show ?thesis by (simp add: Let_def redis_demo_def)
qed

subsection \<open>Where a success and a trip cross\<close>

definition three_failures :: schedule where
  "three_failures = concat (replicate 3 (replicate 3 (1, 0, False)))"

definition late_clear :: schedule where
  "late_clear = replicate 3 (0, 0, True) @ three_failures @ [(1, 0, False), (0, 0, True)]"

definition late_trip :: schedule where
  "late_trip = (0, 0, True) # three_failures @ replicate 3 (0, 0, True) @ [(1, 0, False)]"

lemma demo_three:
  "redis_kv_lawful (rb_redis (redis_demo\<lparr>rb_failure_threshold := 3\<rparr>))"
  "rb_failure_threshold (redis_demo\<lparr>rb_failure_threshold := 3\<rparr>) = 3"
  "failures_of (redis_demo\<lparr>rb_failure_threshold := 3\<rparr>) Map.empty = None"
  "opened_of (redis_demo\<lparr>rb_failure_threshold := 3\<rparr>) Map.empty = None"
  by (simp_all add: redis_demo_def redis_map_lawful) (simp_all add: redis_map_def)

text \<open>
  C22: the two \<open>DEL\<close> of a success are not one command. With the deployed threshold of three, one
  schedule ends with all replicas between calls, the three latest recorded outcomes failures and
  the count at three, and the breaker closed at any time; another ends with the latest recorded
  outcome a success and no failure counted, and the breaker open for the recovery timeout.
\<close>

theorem success_and_trip_cross:
  assumes "redis_kv_lawful (rb_redis B)" "rb_failure_threshold B = 3"
    and "failures_of B r = None" "opened_of B r = None"
  shows "(let S = cluster_run B late_clear (cluster_start r) in
      (\<forall>i. cl_phase S i = Idle) \<and> failure_streak (cl_history S) = 3
      \<and> failures_of B (cl_server S) = Some (RInt 3) \<and> (\<forall>now. \<not> rb_open_at B now (cl_server S)))
    \<and> (let S = cluster_run B late_trip (cluster_start r) in
      (\<forall>i. cl_phase S i = Idle) \<and> snd (hd (cl_history S)) \<and> failures_of B (cl_server S) = None
      \<and> (\<forall>now < rb_recovery_timeout B. rb_open_at B now (cl_server S)))"
proof (rule conjI)
  note comp = redis_kvD [OF assms(1)] assms(2-4) three_failures_def cluster_start_def rb_state_at_def rb_open_at_def
  show "let S = cluster_run B late_clear (cluster_start r) in
      (\<forall>i. cl_phase S i = Idle) \<and> failure_streak (cl_history S) = 3
      \<and> failures_of B (cl_server S) = Some (RInt 3) \<and> (\<forall>now. \<not> rb_open_at B now (cl_server S))"
    by (simp add: late_clear_def comp eval_nat_numeral Let_def split_beta)
  show "let S = cluster_run B late_trip (cluster_start r) in
      (\<forall>i. cl_phase S i = Idle) \<and> snd (hd (cl_history S)) \<and> failures_of B (cl_server S) = None
      \<and> (\<forall>now < rb_recovery_timeout B. rb_open_at B now (cl_server S))"
    by (simp add: late_trip_def comp eval_nat_numeral Let_def split_beta)
qed

theorem success_and_trip_cross_witness:
  "let S = cluster_run (redis_demo\<lparr>rb_failure_threshold := 3\<rparr>) late_clear (cluster_start Map.empty) in
     failure_streak (cl_history S) = 3 \<and> \<not> rb_open_at (redis_demo\<lparr>rb_failure_threshold := 3\<rparr>) 1 (cl_server S)"
  using success_and_trip_cross [OF demo_three]
  by (simp add: Let_def)

end
