(* ===== verification/SharedSessions.thy ===== *)
theory SharedSessions
  imports SessionStore
begin

section \<open>Replicas that share one session store\<close>

text \<open>
  \<open>RedisSessionStore.append_attempt\<close> of \<open>session/redis_store.py\<close> once more, one Redis command at a
  time: replicas of the service, or threads of one, share a server, an append is an \<open>RPUSH\<close> and
  then an \<open>EXPIRE\<close>, and between the two other replicas move, time passes, or the replica ends.
  Shown: an append that nobody interrupts is \<open>rs_append_attempt\<close>; whatever the interleaving, no
  attempt is lost and none is reordered while no session goes its time to live without an
  \<open>EXPIRE\<close>; and what goes wrong between the two commands, a session that never expires after a
  replica ended, and an append that succeeds and leaves an empty log.
\<close>

subsection \<open>The server's clock\<close>

text \<open>
  What the server documents of the remaining time beyond \<open>redis_lists_lawful\<close>: \<open>-2\<close> for a missing
  key and \<open>-1\<close> for one without an expiry; \<open>RPUSH\<close> creates a key without an expiry and keeps the
  expiry of one that exists; time takes from it, and the key goes when none is left.
\<close>

definition redis_ttl_lawful :: "'r redis_lists \<Rightarrow> bool" where
  "redis_ttl_lawful R \<longleftrightarrow>
     (\<forall>k v r. rl_ttl R k (rl_rpush R k v r) = (if rl_ttl R k r = - 2 then - 1 else rl_ttl R k r))
   \<and> (\<forall>k d r. 0 \<le> d \<longrightarrow> rl_ttl R k (rl_elapse R d r) =
        (if rl_ttl R k r < 0 then rl_ttl R k r else if rl_ttl R k r \<le> d then - 2 else rl_ttl R k r - d))"

lemma redis_ttlD:
  assumes "redis_ttl_lawful R"
  shows "rl_ttl R k (rl_rpush R k v r) = (if rl_ttl R k r = - 2 then - 1 else rl_ttl R k r)"
    and "0 \<le> d \<Longrightarrow> rl_ttl R k (rl_elapse R d r) =
        (if rl_ttl R k r < 0 then rl_ttl R k r else if rl_ttl R k r \<le> d then - 2 else rl_ttl R k r - d)"
  using assms unfolding redis_ttl_lawful_def by blast+

lemma redis_list_map_ttl_lawful: "redis_ttl_lawful redis_list_map"
  by (auto simp: redis_ttl_lawful_def redis_list_map_def split: option.splits if_splits)

subsection \<open>The commands of an append\<close>

text \<open>
  A replica begins an append with its \<open>RPUSH\<close>, finishes it with its \<open>EXPIRE\<close>, or ends in between;
  seconds pass.
\<close>

datatype store_event =
    Begin nat string tool_call call_outcome "json option"
  | Finish nat
  | Crash nat
  | Pass int

text \<open>
  The server, for which session each replica has yet to send its \<open>EXPIRE\<close>, and, which the code does
  not keep, the attempts that were appended and the seconds since the last \<open>EXPIRE\<close> of a session.
\<close>

record 'r shared_store =
  sh_server :: 'r
  sh_waiting :: "nat \<Rightarrow> string option"
  sh_appended :: attempt_log
  sh_age :: "string \<Rightarrow> int option"

fun shared_step :: "'r redis_store \<Rightarrow> store_event \<Rightarrow> 'r shared_store \<Rightarrow> 'r shared_store" where
  "shared_step T (Begin i sid c out detail) S =
     (if sh_waiting S i \<noteq> None then S
      else S\<lparr>sh_server := rl_rpush (rs_redis T) (session_key sid)
               (serialize_attempt (call_attempt c out detail)) (sh_server S),
             sh_waiting := (sh_waiting S)(i := Some sid),
             sh_appended := log_append sid (call_attempt c out detail) (sh_appended S)\<rparr>)"
| "shared_step T (Finish i) S =
     (case sh_waiting S i of
        None \<Rightarrow> S
      | Some sid \<Rightarrow>
          S\<lparr>sh_server := rl_expire (rs_redis T) (session_key sid) (rs_session_ttl_seconds T) (sh_server S),
            sh_waiting := (sh_waiting S)(i := None), sh_age := (sh_age S)(sid \<mapsto> 0)\<rparr>)"
| "shared_step T (Crash i) S = S\<lparr>sh_waiting := (sh_waiting S)(i := None)\<rparr>"
| "shared_step T (Pass d) S =
     S\<lparr>sh_server := rl_elapse (rs_redis T) d (sh_server S), sh_age := map_option (\<lambda>a. a + d) \<circ> sh_age S\<rparr>"

definition shared_run :: "'r redis_store \<Rightarrow> store_event list \<Rightarrow> 'r shared_store \<Rightarrow> 'r shared_store" where
  "shared_run T = fold (shared_step T)"

definition shared_start :: "'r \<Rightarrow> 'r shared_store" where
  "shared_start r = \<lparr>sh_server = r, sh_waiting = (\<lambda>_. None), sh_appended = (\<lambda>_. []), sh_age = (\<lambda>_. None)\<rparr>"

lemma shared_run_simps [simp]:
  "shared_run T [] S = S"
  "shared_run T (e # es) S = shared_run T es (shared_step T e S)"
  by (simp_all add: shared_run_def)

lemma uninterrupted_append:
  assumes "sh_waiting S i = None"
  shows "sh_server (shared_run T [Begin i sid c out detail, Finish i] S)
    = snd (rs_append_attempt T sid c out detail (sh_server S))"
  using assms by (simp add: rs_append_attempt_def Let_def)

subsection \<open>No attempt is lost\<close>

text \<open>A server without a key of any session.\<close>

definition no_sessions :: "'r redis_store \<Rightarrow> 'r \<Rightarrow> bool" where
  "no_sessions T r \<longleftrightarrow> (\<forall>sid. rl_lrange (rs_redis T) (session_key sid) r = []
     \<and> rl_ttl (rs_redis T) (session_key sid) r = - 2)"

text \<open>
  A schedule is timely when no time that passes brings a session to its time to live after its last
  \<open>EXPIRE\<close>.
\<close>

fun timely_step :: "'r redis_store \<Rightarrow> store_event \<Rightarrow> 'r shared_store \<Rightarrow> bool" where
  "timely_step T (Begin i sid c out detail) S \<longleftrightarrow> detail_ok detail"
| "timely_step T (Pass d) S \<longleftrightarrow> 0 \<le> d \<and> (\<forall>sid a. sh_age S sid = Some a \<longrightarrow> a + d < rs_session_ttl_seconds T)"
| "timely_step T _ S \<longleftrightarrow> True"

fun timely :: "'r redis_store \<Rightarrow> store_event list \<Rightarrow> 'r shared_store \<Rightarrow> bool" where
  "timely T [] S \<longleftrightarrow> True"
| "timely T (e # es) S \<longleftrightarrow> timely_step T e S \<and> timely T es (shared_step T e S)"

definition session_kept :: "'r redis_store \<Rightarrow> 'r shared_store \<Rightarrow> string \<Rightarrow> bool" where
  "session_kept T S sid \<longleftrightarrow>
     rl_lrange (rs_redis T) (session_key sid) (sh_server S) = map serialize_attempt (sh_appended S sid)
   \<and> (\<forall>a \<in> set (sh_appended S sid). detail_ok (ca_scoring_detail a))
   \<and> rl_ttl (rs_redis T) (session_key sid) (sh_server S) =
       (if sh_appended S sid = [] then - 2 else case sh_age S sid of None \<Rightarrow> - 1 | Some a \<Rightarrow> rs_session_ttl_seconds T - a)
   \<and> (\<forall>a. sh_age S sid = Some a \<longrightarrow> 0 \<le> a \<and> a < rs_session_ttl_seconds T \<and> sh_appended S sid \<noteq> [])
   \<and> (\<forall>i. sh_waiting S i = Some sid \<longrightarrow> sh_appended S sid \<noteq> [])"

definition all_kept :: "'r redis_store \<Rightarrow> 'r shared_store \<Rightarrow> bool" where
  "all_kept T S \<longleftrightarrow> (\<forall>sid. session_kept T S sid)"

lemma kept_begin:
  assumes R: "redis_lists_lawful (rs_redis T)" "redis_ttl_lawful (rs_redis T)"
    and "all_kept T S" "detail_ok detail"
  shows "all_kept T (shared_step T (Begin i sid c out detail) S)"
  unfolding all_kept_def
proof
  fix sid'
  have k: "session_kept T S sid'" using assms(3) by (simp add: all_kept_def)
  show "session_kept T (shared_step T (Begin i sid c out detail) S) sid'"
    using k assms(4)
    by (cases "sh_age S sid'")
      (auto simp: session_kept_def redis_listsD(1,2) [OF R(1)] redis_ttlD(1) [OF R(2)])
qed

lemma kept_finish:
  assumes R: "redis_lists_lawful (rs_redis T)" "0 < rs_session_ttl_seconds T" and "all_kept T S"
  shows "all_kept T (shared_step T (Finish i) S)"
  unfolding all_kept_def
proof
  fix sid'
  have k: "session_kept T S sid'" using assms(3) by (simp add: all_kept_def)
  show "session_kept T (shared_step T (Finish i) S) sid'"
  proof (cases "sh_waiting S i")
    case (Some sid)
    have "session_kept T S sid" using assms(3) by (simp add: all_kept_def)
    with Some have "sh_appended S sid \<noteq> []" "rl_lrange (rs_redis T) (session_key sid) (sh_server S) \<noteq> []"
      by (auto simp: session_kept_def)
    with k Some R(2) show ?thesis
      by (auto simp: session_kept_def redis_listsD(3,4) [OF R])
  qed (use k in simp)
qed

lemma kept_pass:
  assumes R: "redis_lists_lawful (rs_redis T)" "redis_ttl_lawful (rs_redis T)"
    and "all_kept T S" "timely_step T (Pass d) S"
  shows "all_kept T (shared_step T (Pass d) S)"
  unfolding all_kept_def
proof
  fix sid'
  have k: "session_kept T S sid'" using assms(3) by (simp add: all_kept_def)
  have d: "0 \<le> d" "sh_age S sid' = Some a \<Longrightarrow> a + d < rs_session_ttl_seconds T" for a using assms(4) by auto
  show "session_kept T (shared_step T (Pass d) S) sid'"
    using k d
    by (cases "sh_age S sid'")
      (auto simp: session_kept_def redis_listsD(5) [OF R(1)] redis_ttlD(2) [OF R(2)])
qed

lemma kept_step:
  assumes "redis_lists_lawful (rs_redis T)" "redis_ttl_lawful (rs_redis T)" "0 < rs_session_ttl_seconds T"
    and "all_kept T S" "timely_step T e S"
  shows "all_kept T (shared_step T e S)"
proof (cases e)
  case (Crash i)
  with assms(4) show ?thesis by (auto simp: all_kept_def session_kept_def)
next
  case (Begin i sid c out detail)
  with assms kept_begin show ?thesis by (metis timely_step.simps(1))
qed (use assms kept_finish kept_pass in blast)+

lemma kept_run:
  assumes "redis_lists_lawful (rs_redis T)" "redis_ttl_lawful (rs_redis T)" "0 < rs_session_ttl_seconds T"
  shows "all_kept T S \<Longrightarrow> timely T es S \<Longrightarrow> all_kept T (shared_run T es S)"
  using kept_step [OF assms] by (induction es arbitrary: S) auto

lemma kept_start: "no_sessions T r \<Longrightarrow> all_kept T (shared_start r)"
  by (simp add: all_kept_def session_kept_def shared_start_def no_sessions_def)

lemma kept_reads:
  assumes "all_kept T S"
  shows "rs_get_attempts T sid (sh_server S) = Inr (sh_appended S sid)"
proof -
  have "session_kept T S sid" using assms by (simp add: all_kept_def)
  moreover have "res_map (deserialize_attempt \<circ> serialize_attempt) as = Inr as"
    if "\<forall>a \<in> set as. detail_ok (ca_scoring_detail a)" for as
    using that by (induction as) (simp_all add: attempt_roundtrip)
  moreover have "res_map f (map g as) = res_map (f \<circ> g) as" for f :: "json \<Rightarrow> call_attempt result" and g :: "call_attempt \<Rightarrow> json" and as
    by (induction as) simp_all
  ultimately show ?thesis by (simp add: rs_get_attempts_def session_kept_def)
qed

lemma kept_ttl:
  assumes "all_kept T S"
  shows "rs_get_ttl_seconds T sid (sh_server S) = map_option (\<lambda>a. rs_session_ttl_seconds T - a) (sh_age S sid)"
proof -
  have "session_kept T S sid" using assms by (simp add: all_kept_def)
  then show ?thesis
    by (cases "sh_age S sid") (auto simp: session_kept_def rs_get_ttl_seconds_def Let_def)
qed

text \<open>
  C30: replicas append to the sessions of one server in any interleaving of their commands, and some
  end between the two of an append. As long as no session goes its time to live after its last
  \<open>EXPIRE\<close>, every session reads back exactly the attempts pushed to it, in the order of the
  \<open>RPUSH\<close> commands, and its remaining time is counted from that \<open>EXPIRE\<close>.
\<close>

theorem shared_appends_kept:
  assumes "redis_lists_lawful (rs_redis T)" "redis_ttl_lawful (rs_redis T)" "0 < rs_session_ttl_seconds T"
    and "no_sessions T r" "timely T es (shared_start r)" "S = shared_run T es (shared_start r)"
  shows "rs_get_attempts T sid (sh_server S) = Inr (sh_appended S sid)
    \<and> rs_get_ttl_seconds T sid (sh_server S) = map_option (\<lambda>a. rs_session_ttl_seconds T - a) (sh_age S sid)"
  using kept_run [OF assms(1-3) kept_start [OF assms(4)] assms(5)] kept_reads kept_ttl
  unfolding assms(6) by blast

text \<open>Two replicas in the middle of an append to the same session.\<close>

definition demo_tool_call :: tool_call where
  "demo_tool_call = \<lparr>tc_tool_name = ''read_inbox'', tc_params = [], tc_turn_index = 0\<rparr>"

definition crossing_appends :: "store_event list" where
  "crossing_appends =
     [Begin 0 ''s'' demo_tool_call ALLOWED None, Begin 1 ''s'' demo_tool_call BLOCKED None, Finish 1, Pass 5, Finish 0, Pass 7]"

lemma demo_no_sessions: "no_sessions redis_store_demo Map.empty"
  by (simp add: no_sessions_def redis_store_demo_def redis_list_map_def)

lemma demo_store_lawful:
  "redis_lists_lawful (rs_redis redis_store_demo)" "redis_ttl_lawful (rs_redis redis_store_demo)"
  "rs_session_ttl_seconds redis_store_demo = 86400"
  by (simp_all add: redis_store_demo_def redis_list_map_lawful redis_list_map_ttl_lawful DEFAULT_SESSION_TTL_SECONDS_def)

theorem shared_appends_kept_witness:
  "rs_get_attempts redis_store_demo ''s'' (sh_server (shared_run redis_store_demo crossing_appends (shared_start Map.empty)))
     = Inr [call_attempt demo_tool_call ALLOWED None, call_attempt demo_tool_call BLOCKED None]"
proof -
  have "timely redis_store_demo crossing_appends (shared_start Map.empty)"
    by (simp add: crossing_appends_def shared_start_def demo_store_lawful(3) detail_ok_def)
  with shared_appends_kept [OF demo_store_lawful(1,2) _ demo_no_sessions _ refl, of crossing_appends "''s''"]
  show ?thesis by (simp add: demo_store_lawful(3)) (simp add: crossing_appends_def shared_start_def)
qed

subsection \<open>Between the two commands\<close>

text \<open>
  C31: an append is not one step for the server. When the replica ends after the \<open>RPUSH\<close> of a new
  session, the session has no expiry, and however long it idles its log stays. And when a session
  reaches its time to live between the \<open>RPUSH\<close> and the \<open>EXPIRE\<close> of an append, the append succeeds
  and the session reads as empty: the attempt just logged is lost with the others.
\<close>

theorem append_not_atomic:
  assumes R: "redis_lists_lawful (rs_redis T)" "redis_ttl_lawful (rs_redis T)" "1 < rs_session_ttl_seconds T"
    and r: "no_sessions T r" and detail: "detail_ok detail" "0 \<le> idle"
  shows "(let S = shared_run T [Begin 0 sid c out detail, Crash 0, Pass idle] (shared_start r)
      in rs_get_attempts T sid (sh_server S) = Inr [call_attempt c out detail]
        \<and> rs_get_ttl_seconds T sid (sh_server S) = None)
    \<and> (let S = shared_run T [Begin 0 sid c out detail, Finish 0, Pass (rs_session_ttl_seconds T - 1),
          Begin 1 sid c out detail, Pass 1, Finish 1] (shared_start r)
      in sh_waiting S = (\<lambda>_. None) \<and> length (sh_appended S sid) = 2
        \<and> rs_get_attempts T sid (sh_server S) = Inr [])"
proof
  let ?S = "shared_run T [Begin 0 sid c out detail, Crash 0, Pass idle] (shared_start r)"
  have pos: "0 < rs_session_ttl_seconds T" using R(3) by simp
  have "timely T [Begin 0 sid c out detail, Crash 0, Pass idle] (shared_start r)"
    using detail by (simp add: shared_start_def)
  then have "all_kept T ?S" by (rule kept_run [OF R(1,2) pos kept_start [OF r]])
  moreover have "sh_appended ?S sid = [call_attempt c out detail]" "sh_age ?S sid = None"
    by (simp_all add: shared_start_def)
  ultimately show "let S = ?S in rs_get_attempts T sid (sh_server S) = Inr [call_attempt c out detail]
      \<and> rs_get_ttl_seconds T sid (sh_server S) = None"
    by (simp only: Let_def kept_reads kept_ttl) simp
next
  let ?es = "[Begin 0 sid c out detail, Finish 0, Pass (rs_session_ttl_seconds T - 1), Begin 1 sid c out detail]"
  let ?S = "shared_run T ?es (shared_start r)"
  have "timely T ?es (shared_start r)" using detail R(3) by (simp add: shared_start_def)
  then have "all_kept T ?S" using kept_run [OF R(1,2) _ kept_start [OF r]] R(3) by fastforce
  moreover have "sh_age ?S sid = Some (rs_session_ttl_seconds T - 1)" "sh_appended ?S sid \<noteq> []"
    by (simp_all add: shared_start_def)
  ultimately have "rl_ttl (rs_redis T) (session_key sid) (sh_server ?S) = 1"
    by (auto simp: all_kept_def session_kept_def)
  then have "rl_lrange (rs_redis T) (session_key sid) (rl_elapse (rs_redis T) 1 (sh_server ?S)) = []"
    by (simp add: redis_listsD(5) [OF R(1)])
  then show "let S = shared_run T [Begin 0 sid c out detail, Finish 0, Pass (rs_session_ttl_seconds T - 1),
          Begin 1 sid c out detail, Pass 1, Finish 1] (shared_start r)
      in sh_waiting S = (\<lambda>_. None) \<and> length (sh_appended S sid) = 2 \<and> rs_get_attempts T sid (sh_server S) = Inr []"
    using R(3) by (simp add: shared_start_def rs_get_attempts_def redis_listsD(3) [OF R(1)] fun_eq_iff Let_def)
qed

theorem append_not_atomic_witness:
  "rs_get_ttl_seconds redis_store_demo ''s'' (sh_server (shared_run redis_store_demo
     [Begin 0 ''s'' demo_tool_call ALLOWED None, Crash 0, Pass 1000000] (shared_start Map.empty))) = None"
  using append_not_atomic [OF demo_store_lawful(1,2) _ demo_no_sessions, of None 1000000 "''s''" demo_tool_call ALLOWED]
  by (simp add: demo_store_lawful(3) detail_ok_def Let_def)

end
