(* ===== verification/Decisions.thy ===== *)
theory Decisions
  imports TierEngine
begin

section \<open>Decisions that cross\<close>

text \<open>
  \<open>ApprovalQueue.decide\<close> of \<open>tier_engine/approval_queue.py\<close> once more, one write at a time. The two
  handlers that call it are plain functions, which FastAPI runs in a pool of threads, and the queue
  has no lock: between the check that a request is pending and the last of the writes another
  thread can run. \<open>get\<close> and \<open>submit\<close> of other threads come in between as one step each. Shown: a
  decision that nobody interrupts is \<open>aq_decide\<close>; whatever the interleaving, a request is recorded
  as approved only if somebody approved it, and a decision is final once no other thread is past
  its check; but two decisions that cross can leave a record that neither of them made.
\<close>

subsection \<open>The writes of a decision\<close>

record approver_decision =
  dc_request_id :: string
  dc_approved :: bool
  dc_role :: approver_role

text \<open>
  A thread has not looked yet, has seen the request pending, has written the outcome, the time, or
  the role, or has returned.
\<close>

datatype decide_phase =
    Arrived | Checked | OutcomeWritten | TimeWritten | RoleWritten
  | Returned "approval_request result"

text \<open>The request object is shared: a write changes the field of what is in the queue now.\<close>

definition write_request ::
    "string \<Rightarrow> (approval_request \<Rightarrow> approval_request) \<Rightarrow> aq_state \<Rightarrow> aq_state" where
  "write_request rid f st =
     (case dict_get (aq_requests (fst st)) rid of None \<Rightarrow> st | Some r \<Rightarrow> (aq_put (f r) (fst st), snd st))"

fun decide_step ::
    "approver_decision \<Rightarrow> pyfloat \<Rightarrow> pyfloat \<Rightarrow> decide_phase \<Rightarrow> aq_state \<Rightarrow> decide_phase \<times> aq_state" where
  "decide_step d t t' Arrived st =
     (case aq_get (dc_request_id d) t t' st of
        (Inl e, st') \<Rightarrow> (Returned (Inl e), st')
      | (Inr r, st') \<Rightarrow>
          (if ar_outcome r \<noteq> PENDING then Returned (Inl (ApprovalAlreadyDecidedError (dc_request_id d)))
           else Checked, st'))"
| "decide_step d t t' Checked st =
     (OutcomeWritten, write_request (dc_request_id d)
        (\<lambda>r. r\<lparr>ar_outcome := (if dc_approved d then APPROVED else DENIED)\<rparr>) st)"
| "decide_step d t t' OutcomeWritten st =
     (TimeWritten, write_request (dc_request_id d) (\<lambda>r. r\<lparr>ar_decided_at := Some t\<rparr>) st)"
| "decide_step d t t' TimeWritten st =
     (RoleWritten, write_request (dc_request_id d) (\<lambda>r. r\<lparr>ar_decided_by_role := Some (dc_role d)\<rparr>) st)"
| "decide_step d t t' RoleWritten st =
     (case dict_get (aq_requests (fst st)) (dc_request_id d) of
        None \<Rightarrow> (Returned (Inl (UnknownApprovalRequestError (dc_request_id d))), st)
      | Some r \<Rightarrow> (Returned (Inr r), fst st, set_approval_queue_depth (aq_pending_count (fst st))
          (record_approval_outcome (outcome_value (ar_outcome r)) (snd st))))"
| "decide_step d t t' (Returned x) st = (Returned x, st)"

record pool =
  pl_state :: aq_state
  pl_phase :: "nat \<Rightarrow> decide_phase"

datatype pool_event =
    Move nat pyfloat pyfloat
  | Poll string pyfloat pyfloat
  | Submit string pyfloat string string params

fun pool_step :: "(nat \<Rightarrow> approver_decision) \<Rightarrow> pool_event \<Rightarrow> pool \<Rightarrow> pool" where
  "pool_step D (Move i t t') P =
     (let (p, st) = decide_step (D i) t t' (pl_phase P i) (pl_state P)
      in \<lparr>pl_state = st, pl_phase = (pl_phase P)(i := p)\<rparr>)"
| "pool_step D (Poll rid t t') P = P\<lparr>pl_state := snd (aq_get rid t t' (pl_state P))\<rparr>"
| "pool_step D (Submit rid t sid tn ps) P = P\<lparr>pl_state := snd (aq_submit rid t sid tn ps (pl_state P))\<rparr>"

definition pool_run :: "(nat \<Rightarrow> approver_decision) \<Rightarrow> pool_event list \<Rightarrow> pool \<Rightarrow> pool" where
  "pool_run D = fold (pool_step D)"

definition pool_start :: "aq_state \<Rightarrow> pool" where
  "pool_start st = \<lparr>pl_state = st, pl_phase = (\<lambda>_. Arrived)\<rparr>"

lemma pool_run_simps [simp]:
  "pool_run D [] P = P"
  "pool_run D (e # es) P = pool_run D es (pool_step D e P)"
  by (simp_all add: pool_run_def)

lemma pool_invariant:
  assumes "I P" "\<And>e P. e \<in> set es \<Longrightarrow> I P \<Longrightarrow> I (pool_step D e P)"
  shows "I (pool_run D es P)"
  using assms by (induction es arbitrary: P) auto

abbreviation request_at :: "pool \<Rightarrow> string \<Rightarrow> approval_request option" where
  "request_at P rid \<equiv> dict_get (aq_requests (fst (pl_state P))) rid"

subsection \<open>Alone, a thread makes the decision of \<open>aq_decide\<close>\<close>

lemma dict_set_twice: "dict_set (dict_set d k v) k w = dict_set d k w"
  by (induction d) auto

lemma aq_put_twice: "ar_request_id s = ar_request_id r \<Longrightarrow> aq_put s (aq_put r q) = aq_put s q"
  by (simp add: aq_put_def dict_set_twice)

definition filed :: "approval_queue \<Rightarrow> bool" where
  "filed q \<longleftrightarrow> (\<forall>rid r. dict_get (aq_requests q) rid = Some r \<longrightarrow> ar_request_id r = rid)"

text \<open>A decision that no other thread interrupts leaves what the atomic \<open>aq_decide\<close> leaves.\<close>

theorem uninterrupted_decision:
  assumes "filed (fst (pl_state P))" "pl_phase P i = Arrived"
    and "P' = pool_run D (Move i t_check t_expire # replicate 4 (Move i t_decide t_decide)) P"
  shows "\<exists>res. aq_decide (dc_request_id (D i)) (dc_approved (D i)) (dc_role (D i)) t_check t_expire t_decide (pl_state P)
      = (res, pl_state P') \<and> pl_phase P' i = Returned res"
proof (cases rule: aq_get_cases [of "pl_state P" "dc_request_id (D i)" t_check t_expire])
  case (found r)
  with assms(1) have "ar_request_id r = dc_request_id (D i)" by (simp add: filed_def)
  with found assms show ?thesis
    by (cases "ar_outcome r = PENDING")
      (simp_all add: aq_decide_def eval_nat_numeral write_request_def Let_def aq_put_twice aq_resolve_def)
qed (use assms in \<open>simp_all add: aq_decide_def eval_nat_numeral\<close>)

definition pool_request :: approval_request where
  "pool_request = new_request ''r'' 0 ''s'' ''send_payment'' []"

definition pool_queue :: approval_queue where
  "pool_queue = aq_put pool_request (aq_empty DEFAULT_TIMEOUT_SECONDS)"

definition pool_decisions :: "nat \<Rightarrow> approver_decision" where
  "pool_decisions i = \<lparr>dc_request_id = ''r'', dc_approved = (i = 1),
     dc_role = (if i = 0 then OPS_SECURITY_APPROVER else TASK_INITIATING_USER)\<rparr>"

lemma pool_queue_request:
  "filed pool_queue" "dict_get (aq_requests pool_queue) ''r'' = Some pool_request"
  "ar_request_id pool_request = ''r''" "ar_outcome pool_request = PENDING" "ar_submitted_at pool_request = 0"
  "ar_decided_by_role pool_request = None" "aq_timeout_seconds pool_queue = 1800"
  by (auto simp: filed_def pool_queue_def pool_request_def aq_empty_def new_request_def DEFAULT_TIMEOUT_SECONDS_def
      split: if_splits)

theorem uninterrupted_decision_witness:
  "\<exists>res. aq_decide ''r'' False OPS_SECURITY_APPROVER 1 1 2 (pool_queue, metrics0)
     = (res, pl_state (pool_run pool_decisions (Move 0 1 1 # replicate 4 (Move 0 2 2)) (pool_start (pool_queue, metrics0))))"
  using uninterrupted_decision [of "pool_start (pool_queue, metrics0)" 0, OF _ _ refl, of pool_decisions 1 1 2]
  by (auto simp: pool_start_def pool_queue_request(1) pool_decisions_def)

subsection \<open>What every interleaving keeps\<close>

text \<open>What one step of a thread can make of the requests in the queue.\<close>

lemma write_request_at:
  assumes "filed (fst st)" "\<And>r. ar_request_id (f r) = ar_request_id r"
  shows "filed (fst (write_request rid f st))"
    and "dict_get (aq_requests (fst (write_request rid f st))) rid'
      = (if rid' = rid then map_option f (dict_get (aq_requests (fst st)) rid) else dict_get (aq_requests (fst st)) rid')"
  using assms by (auto simp: write_request_def filed_def split: option.splits)

lemma aq_get_at:
  assumes "filed (fst st)" "dict_get (aq_requests (fst (snd (aq_get rid t t' st)))) rid' = Some r"
  obtains r0 where "dict_get (aq_requests (fst st)) rid' = Some r0"
    "r = r0 \<or> ar_outcome r0 = PENDING \<and> r = aq_expire t' r0"
proof (cases rule: aq_get_cases [of st rid t t'])
  case (expired r1)
  with assms that show thesis by (auto simp: filed_def split: if_splits)
qed (use assms that in auto)

lemma aq_get_filed: "filed (fst st) \<Longrightarrow> filed (fst (snd (aq_get rid t t' st)))"
  by (cases rule: aq_get_cases [of st rid t t']) (auto simp: filed_def)

lemma aq_get_same: "aq_get rid t t' st = (Inr r, st') \<Longrightarrow> dict_get (aq_requests (fst st')) rid = Some r \<or> \<not> filed (fst st)"
  by (cases rule: aq_get_cases [of st rid t t']) (auto simp: filed_def)

lemma decide_step_state:
  obtains (looks) "ph = Arrived" "snd (decide_step d t t' ph st) = snd (aq_get (dc_request_id d) t t' st)"
  | (writes) f where "ph \<in> {Checked, OutcomeWritten, TimeWritten}"
      "f \<in> {ar_outcome_update (\<lambda>_. if dc_approved d then APPROVED else DENIED),
            ar_decided_at_update (\<lambda>_. Some t), ar_decided_by_role_update (\<lambda>_. Some (dc_role d))}"
      "snd (decide_step d t t' ph st) = write_request (dc_request_id d) f st"
  | (keeps) "fst (snd (decide_step d t t' ph st)) = fst st"
proof (cases ph)
  case Arrived
  then show thesis by (intro looks) (auto split: prod.splits sum.splits)
next
  case RoleWritten
  then show thesis by (intro keeps) (auto split: option.splits)
qed (auto intro: writes keeps)

text \<open>Who a record says has approved or decided is among the threads \<open>E\<close>, or was so at first.\<close>

definition owned ::
    "(nat \<Rightarrow> approver_decision) \<Rightarrow> nat set \<Rightarrow> approval_queue \<Rightarrow> string \<Rightarrow> approval_request \<Rightarrow> bool" where
  "owned D E q0 rid r \<longleftrightarrow>
     (ar_outcome r = APPROVED \<longrightarrow> (\<exists>r0. dict_get (aq_requests q0) rid = Some r0 \<and> ar_outcome r0 = APPROVED)
        \<or> (\<exists>i \<in> E. dc_request_id (D i) = rid \<and> dc_approved (D i)))
   \<and> (\<forall>role. ar_decided_by_role r = Some role \<longrightarrow>
        (\<exists>r0. dict_get (aq_requests q0) rid = Some r0 \<and> ar_decided_by_role r0 = Some role)
        \<or> (\<exists>i \<in> E. dc_request_id (D i) = rid \<and> dc_role (D i) = role))"

lemma owned_simps [intro]:
  "owned D E q0 rid r \<Longrightarrow> owned D E q0 rid (aq_expire t r)"
  "owned D E q0 rid r \<Longrightarrow> owned D E q0 rid (r\<lparr>ar_decided_at := x\<rparr>)"
  "owned D E q0 rid (new_request rid t sid tn ps)"
  unfolding owned_def aq_expire_def new_request_def by simp_all

lemma owned_writes:
  assumes "owned D E q0 (dc_request_id (D i)) r" "i \<in> E"
  shows "owned D E q0 (dc_request_id (D i)) (r\<lparr>ar_outcome := (if dc_approved (D i) then APPROVED else DENIED)\<rparr>)"
    and "owned D E q0 (dc_request_id (D i)) (r\<lparr>ar_decided_by_role := Some (dc_role (D i))\<rparr>)"
  using assms unfolding owned_def by auto

definition all_owned ::
    "(nat \<Rightarrow> approver_decision) \<Rightarrow> nat set \<Rightarrow> approval_queue \<Rightarrow> approval_queue \<Rightarrow> bool" where
  "all_owned D E q0 q \<longleftrightarrow> filed q
     \<and> (\<forall>rid r. dict_get (aq_requests q) rid = Some r \<longrightarrow> owned D E q0 rid r)"

lemma all_owned_get:
  assumes "all_owned D E q0 (fst st)"
  shows "all_owned D E q0 (fst (snd (aq_get rid t t' st)))"
proof -
  have f: "filed (fst st)" using assms by (simp add: all_owned_def)
  have "owned D E q0 rid' r" if "dict_get (aq_requests (fst (snd (aq_get rid t t' st)))) rid' = Some r" for rid' r
    using f that
  proof (rule aq_get_at)
    fix r0 assume "dict_get (aq_requests (fst st)) rid' = Some r0" "r = r0 \<or> ar_outcome r0 = PENDING \<and> r = aq_expire t' r0"
    with assms show ?thesis by (auto simp: all_owned_def)
  qed
  with aq_get_filed [OF f] show ?thesis by (simp add: all_owned_def)
qed

lemma all_owned_write:
  assumes "all_owned D E q0 (fst st)" "i \<in> E"
    and "f \<in> {ar_outcome_update (\<lambda>_. if dc_approved (D i) then APPROVED else DENIED),
            ar_decided_at_update (\<lambda>_. Some t), ar_decided_by_role_update (\<lambda>_. Some (dc_role (D i)))}"
  shows "all_owned D E q0 (fst (write_request (dc_request_id (D i)) f st))"
proof -
  have id: "ar_request_id (f r) = ar_request_id r" for r using assms(3) by auto
  have "owned D E q0 (dc_request_id (D i)) (f r)" if "owned D E q0 (dc_request_id (D i)) r" for r
    using assms(3) owned_writes [OF that assms(2)] that by auto
  with assms(1) write_request_at [of st f, OF _ id] show ?thesis
    by (auto simp: all_owned_def split: if_splits)
qed

lemma all_owned_step:
  assumes "all_owned D E q0 (fst (pl_state P))" "case e of Move i t t' \<Rightarrow> i \<in> E | _ \<Rightarrow> True"
  shows "all_owned D E q0 (fst (pl_state (pool_step D e P)))"
proof (cases e)
  case (Move i t t')
  have st: "pl_state (pool_step D e P) = snd (decide_step (D i) t t' (pl_phase P i) (pl_state P))"
    by (simp add: Move split_beta Let_def)
  show ?thesis
    unfolding st
    by (cases rule: decide_step_state [of "pl_phase P i" "D i" t t' "pl_state P"])
      (use assms all_owned_get all_owned_write in \<open>auto simp: Move\<close>)
next
  case (Poll rid t t')
  with all_owned_get [OF assms(1)] show ?thesis by simp
next
  case (Submit rid t sid tn ps)
  with assms(1) show ?thesis
    by (auto simp: all_owned_def filed_def aq_submit_def Let_def intro: owned_simps)
qed

text \<open>
  C16: whatever threads decide, poll and submit in whatever interleaving, a request that was not
  approved before is recorded as approved only if a thread was there to approve it, and a role is
  recorded only if a thread decided the request in that role.
\<close>

theorem decisions_owned:
  assumes "filed q" "P = pool_run D es (pool_start (q, m))" "request_at P rid = Some r"
    and "\<forall>r0. dict_get (aq_requests q) rid = Some r0 \<longrightarrow> ar_outcome r0 \<noteq> APPROVED \<and> ar_decided_by_role r0 = None"
  shows "(ar_outcome r = APPROVED \<longrightarrow>
      (\<exists>i t t'. Move i t t' \<in> set es \<and> dc_request_id (D i) = rid \<and> dc_approved (D i)))
    \<and> (\<forall>role. ar_decided_by_role r = Some role \<longrightarrow>
      (\<exists>i t t'. Move i t t' \<in> set es \<and> dc_request_id (D i) = rid \<and> dc_role (D i) = role))"
proof -
  let ?E = "{i. \<exists>t t'. Move i t t' \<in> set es}"
  have "all_owned D ?E q (fst (pl_state P))"
    unfolding assms(2)
  proof (rule pool_invariant)
    show "all_owned D ?E q (fst (pl_state (pool_start (q, m))))"
      using assms(1) by (auto simp: all_owned_def pool_start_def owned_def)
  qed (rule all_owned_step; auto split: pool_event.splits)
  then have "owned D ?E q rid r" using assms(3) by (simp add: all_owned_def)
  with assms(4) show ?thesis unfolding owned_def by fastforce
qed

theorem decisions_owned_witness:
  "\<exists>r. request_at (pool_run pool_decisions [Move 0 1 1, Move 0 2 2, Move 0 2 2, Move 0 2 2] (pool_start (pool_queue, metrics0))) ''r''
       = Some r \<and> ar_outcome r \<noteq> APPROVED"
proof -
  let ?es = "[Move 0 1 1, Move 0 2 2, Move 0 2 2, Move 0 2 2]"
  have "request_at (pool_run pool_decisions ?es (pool_start (pool_queue, metrics0))) ''r''
      = Some (aq_resolve 2 False OPS_SECURITY_APPROVER pool_request)"
    by (simp add: pool_start_def aq_get_def write_request_def Let_def pool_queue_request pool_decisions_def aq_put_twice
        aq_resolve_def)
  with decisions_owned [OF pool_queue_request(1) refl, of pool_decisions ?es metrics0 "''r''"]
  show ?thesis by (auto simp: pool_queue_request pool_decisions_def)
qed

lemma aq_get_resolved:
  assumes "dict_get (aq_requests (fst st)) rid = Some r" "ar_outcome r \<noteq> PENDING"
  shows "aq_get rid t t' st = (Inr r, st)"
    and "filed (fst st) \<Longrightarrow> dict_get (aq_requests (fst (snd (aq_get rid' t t' st)))) rid = Some r"
proof -
  show "aq_get rid t t' st = (Inr r, st)" using assms by (simp add: aq_get_def)
  assume "filed (fst st)"
  with assms show "dict_get (aq_requests (fst (snd (aq_get rid' t t' st)))) rid = Some r"
    by (cases rule: aq_get_cases [of st rid' t t']) (auto simp: filed_def)
qed

definition settled :: "(nat \<Rightarrow> approver_decision) \<Rightarrow> string \<Rightarrow> approval_request \<Rightarrow> pool \<Rightarrow> bool" where
  "settled D rid r P \<longleftrightarrow> filed (fst (pl_state P)) \<and> request_at P rid = Some r
     \<and> (\<forall>i. dc_request_id (D i) = rid \<longrightarrow> pl_phase P i \<notin> {Checked, OutcomeWritten, TimeWritten})"

lemma settled_decide:
  assumes r: "ar_outcome r \<noteq> PENDING" and f: "filed (fst st)" "dict_get (aq_requests (fst st)) rid = Some r"
    and ph: "dc_request_id d = rid \<Longrightarrow> ph \<notin> {Checked, OutcomeWritten, TimeWritten}"
  shows "filed (fst (snd (decide_step d t t' ph st)))"
    and "dict_get (aq_requests (fst (snd (decide_step d t t' ph st)))) rid = Some r"
    and "dc_request_id d = rid \<Longrightarrow> fst (decide_step d t t' ph st) \<notin> {Checked, OutcomeWritten, TimeWritten}"
proof -
  show "dc_request_id d = rid \<Longrightarrow> fst (decide_step d t t' ph st) \<notin> {Checked, OutcomeWritten, TimeWritten}"
    using ph aq_get_resolved(1) [OF f(2) r] r by (cases ph) (auto split: option.splits)
  show "filed (fst (snd (decide_step d t t' ph st)))"
    by (cases rule: decide_step_state [of ph d t t' st])
      (use f in \<open>auto intro: aq_get_filed write_request_at\<close>)
  show "dict_get (aq_requests (fst (snd (decide_step d t t' ph st)))) rid = Some r"
  proof (cases rule: decide_step_state [of ph d t t' st])
    case (writes g)
    then have "dc_request_id d \<noteq> rid" "\<And>r. ar_request_id (g r) = ar_request_id r" using ph by auto
    with writes(3) write_request_at(2) [OF f(1), of g "dc_request_id d" rid] f(2) show ?thesis by simp
  qed (use aq_get_resolved(2) [OF f(2) r f(1)] f(2) in simp_all)
qed

lemma settled_step:
  assumes "settled D rid r P" "ar_outcome r \<noteq> PENDING" "\<And>t sid tn ps. e \<noteq> Submit rid t sid tn ps"
  shows "settled D rid r (pool_step D e P)"
proof (cases e)
  case (Move i t t')
  have "pool_step D e P = \<lparr>pl_state = snd (decide_step (D i) t t' (pl_phase P i) (pl_state P)),
      pl_phase = (pl_phase P)(i := fst (decide_step (D i) t t' (pl_phase P i) (pl_state P)))\<rparr>"
    by (simp add: Move split_beta Let_def)
  with settled_decide [OF assms(2), of "pl_state P" rid "D i" "pl_phase P i" t t'] assms(1)
  show ?thesis by (auto simp: settled_def)
next
  case (Poll rid' t t')
  with assms aq_get_filed aq_get_resolved(2) show ?thesis by (auto simp: settled_def)
next
  case (Submit rid' t sid tn ps)
  with assms show ?thesis by (auto simp: settled_def filed_def aq_submit_def Let_def)
qed

text \<open>
  C15: a decision is final once it is made and no thread that saw the request pending has still to
  write: whatever other threads do then, the record of the request does not change.
\<close>

theorem settled_request_final:
  assumes "filed (fst (pl_state P))" "request_at P rid = Some r" "ar_outcome r \<noteq> PENDING"
    and "\<forall>i. dc_request_id (D i) = rid \<longrightarrow> pl_phase P i \<notin> {Checked, OutcomeWritten, TimeWritten}"
    and "\<forall>t sid tn ps. Submit rid t sid tn ps \<notin> set es"
  shows "request_at (pool_run D es P) rid = Some r"
proof -
  have "settled D rid r (pool_run D es P)"
  proof (rule pool_invariant)
    show "settled D rid r P" using assms(1,2,4) by (simp add: settled_def)
    fix e Q assume "e \<in> set es" "settled D rid r Q"
    with assms(3,5) show "settled D rid r (pool_step D e Q)" by (intro settled_step) auto
  qed
  then show ?thesis by (simp add: settled_def)
qed

theorem settled_request_final_witness:
  "let st = snd (aq_decide ''r'' False OPS_SECURITY_APPROVER 1 1 2 (pool_queue, metrics0));
       es = replicate 5 (Move 1 3 3) @ [Poll ''r'' 9 9] in
   request_at (pool_run pool_decisions es (pool_start st)) ''r'' = Some (aq_resolve 2 False OPS_SECURITY_APPROVER pool_request)"
proof -
  let ?st = "snd (aq_decide ''r'' False OPS_SECURITY_APPROVER 1 1 2 (pool_queue, metrics0))"
  have st: "fst ?st = aq_put (aq_resolve 2 False OPS_SECURITY_APPROVER pool_request) pool_queue"
    by (simp add: aq_decide_def aq_get_def pool_queue_request Let_def)
  have "filed (fst ?st)" "dict_get (aq_requests (fst ?st)) ''r'' = Some (aq_resolve 2 False OPS_SECURITY_APPROVER pool_request)"
    unfolding st using pool_queue_request by (auto simp: filed_def)
  then show ?thesis
    unfolding Let_def by (intro settled_request_final) (auto simp: pool_start_def)
qed

subsection \<open>Two decisions that cross\<close>

text \<open>Thread 0 and thread 1 both see the request pending; then 1 makes its writes between those of 0.\<close>

definition crossing :: "pyfloat \<Rightarrow> pool_event list" where
  "crossing t = map (\<lambda>i. Move i t t) [0, 1, 0, 1, 1, 1, 1, 0, 0, 0]"

text \<open>
  C17: nothing keeps two decisions apart. When the independent approver denies a pending request
  while the user approves it, one interleaving ends with the request recorded as approved by the
  independent approver, the record an approval by that role would have left; the approver's own
  request is answered with it, and two approvals are counted and no denial.
\<close>

theorem decisions_cross:
  assumes "dict_get (aq_requests q) rid = Some r" "ar_request_id r = rid" "ar_outcome r = PENDING"
    and "t - ar_submitted_at r < aq_timeout_seconds q"
    and "D 0 = \<lparr>dc_request_id = rid, dc_approved = False, dc_role = OPS_SECURITY_APPROVER\<rparr>"
    and "D 1 = \<lparr>dc_request_id = rid, dc_approved = True, dc_role = TASK_INITIATING_USER\<rparr>"
    and "P = pool_run D (crossing t) (pool_start (q, m))"
  shows "request_at P rid = Some (aq_resolve t True OPS_SECURITY_APPROVER r)
    \<and> pl_phase P 0 = Returned (Inr (aq_resolve t True OPS_SECURITY_APPROVER r))
    \<and> m_outcomes (snd (pl_state P)) ''approved'' = m_outcomes m ''approved'' + 2
    \<and> m_outcomes (snd (pl_state P)) ''denied'' = m_outcomes m ''denied''"
  using assms(1-6) unfolding assms(7)
  by (simp add: crossing_def pool_start_def aq_get_def write_request_def Let_def aq_put_twice aq_resolve_def)

theorem decisions_cross_witness:
  "request_at (pool_run pool_decisions (crossing 5) (pool_start (pool_queue, metrics0))) ''r''
     = Some (aq_resolve 5 True OPS_SECURITY_APPROVER pool_request)"
  using decisions_cross [OF pool_queue_request(2-4) _ _ _ refl, of 5 pool_decisions metrics0]
  by (simp add: pool_queue_request pool_decisions_def)

end
