(* ===== verification/Bursts.thy ===== *)
theory Bursts
  imports NormalTraffic Mediation
begin

section \<open>Calls that overlap\<close>

text \<open>
  \<open>intercept_and_call\<close> of \<open>interception/interceptor.py\<close> in three steps: the scoring, which reads the
  session's log; the decision and the logging of the attempt; and the run of the tool, for a call
  that is let through. The intercept endpoint is a plain function, which FastAPI runs in a pool of
  threads, and no lock is held over a call or between its steps, so the steps of the calls of a
  session can come in any order. Shown: in every interleaving nothing runs that was not logged as
  allowed before, and when no call is between its log entry and its run, what ran is what the log
  says; the order of the two can differ; and a burst of calls that are all scored first is let
  through whatever its length, where the same calls one after the other exceed the rate limit. The
  request that a held call submits to the approval queue is filed in the step that logs it.
\<close>

subsection \<open>A call in three steps\<close>

definition intercept_begin ::
    "('s, 'b) guardrails \<Rightarrow> call_times \<Rightarrow> call_request \<Rightarrow> ('s, 'b) world
       \<Rightarrow> scoring_bundle result \<times> ('s, 'b) world" where
  "intercept_begin G T c w =
     (let (r, b, s) = gr_breaker_call G (ct_check T) (ct_trip T) (wrapped_scoring G c) (w_breaker w, w_store w)
      in (r, w\<lparr>w_breaker := b, w_store := s\<rparr>))"

text \<open>
  What the second step leaves: the answer of a call that does not run, or what is needed to run
  the tool, without a scoring or with one.
\<close>

datatype to_run = RunUnscored | RunScored scoring_bundle response_tier

datatype progress = Answer interception_result | ToRun to_run

definition log_open ::
    "('s, 'b) guardrails \<Rightarrow> call_request \<Rightarrow> ('s, 'b) world \<Rightarrow> progress result \<times> ('s, 'b) world" where
  "log_open G c w0 =
     (let w = on_metrics (record_circuit_breaker_state BREAKER_NAME True) w0 in
      if fail_policy_for (gr_tiers G) (cr_tool_name c) = FAIL_OPEN then
        st_bind (log_attempt G c ALLOWED None w) (\<lambda>_ w. (Inr (ToRun RunUnscored), w))
      else
        st_bind (log_attempt G c BLOCKED None w) (\<lambda>_ w.
        (Inr (Answer (bypass_result c BLOCK None ''circuit_open_fail_closed'')),
         on_metrics (record_action (response_tier_value BLOCK)) w)))"

definition log_respond ::
    "('s, 'b) guardrails \<Rightarrow> string \<Rightarrow> pyfloat \<Rightarrow> call_request \<Rightarrow> scoring_bundle \<Rightarrow> response_tier \<Rightarrow> ('s, 'b) world
       \<Rightarrow> progress result \<times> ('s, 'b) world" where
  "log_respond G rid t_submit c b tier w =
     (if cr_shadow_mode c then
        st_bind (log_attempt G c ALLOWED (Some (JDict (scoring_to_dict b))) w) (\<lambda>_ w.
        (Inr (ToRun (RunScored b tier)), w))
      else if tier = BLOCK then
        st_bind (log_attempt G c BLOCKED (Some (JDict (scoring_to_dict b))) w) (\<lambda>_ w.
        (Inr (Answer (scored_result c b tier None None)), w))
      else if tier = REQUIRE_APPROVAL then
        (let (request, q, m) = aq_submit rid t_submit (cr_session_id c) (cr_tool_name c) (cr_params c)
               (w_queue w, w_metrics w);
             detail = dict_set (scoring_to_dict b) ''approval_request_id'' (JStr (ar_request_id request))
         in st_bind (log_attempt G c PENDING_APPROVAL (Some (JDict detail)) (w\<lparr>w_queue := q, w_metrics := m\<rparr>)) (\<lambda>_ w.
            (Inr (Answer (scored_result c b tier None (Some (ar_request_id request)))), w)))
      else
        st_bind (log_attempt G c ALLOWED (Some (JDict (scoring_to_dict b))) w) (\<lambda>_ w.
        (Inr (ToRun (RunScored b tier)), w)))"

definition log_scored ::
    "('s, 'b) guardrails \<Rightarrow> string \<Rightarrow> pyfloat \<Rightarrow> call_request \<Rightarrow> scoring_bundle \<Rightarrow> ('s, 'b) world
       \<Rightarrow> progress result \<times> ('s, 'b) world" where
  "log_scored G rid t_submit c b w0 =
     (let w = on_metrics (record_flag_metrics b) (on_metrics (record_circuit_breaker_state BREAKER_NAME False) w0) in
      case tier_get (cr_tool_name c) (gr_tiers G) of
        Inl e \<Rightarrow> (Inl e, w)
      | Inr reg \<Rightarrow>
          let tier = decide_response_tier (flagged_detector_count b) (tr_tier reg)
          in log_respond G rid t_submit c b tier (on_metrics (record_action (response_tier_value tier)) w))"

definition intercept_log ::
    "('s, 'b) guardrails \<Rightarrow> call_times \<Rightarrow> call_request \<Rightarrow> scoring_bundle result \<Rightarrow> ('s, 'b) world
       \<Rightarrow> progress result \<times> ('s, 'b) world" where
  "intercept_log G T c r w =
     (case r of
        Inl e \<Rightarrow> if e = CircuitOpenError then log_open G c w else (Inl e, w)
      | Inr scoring \<Rightarrow> log_scored G (ct_request_id T) (ct_submit T) c scoring w)"

definition intercept_run ::
    "('s, 'b) guardrails \<Rightarrow> call_request \<Rightarrow> to_run \<Rightarrow> ('s, 'b) world
       \<Rightarrow> interception_result result \<times> ('s, 'b) world" where
  "intercept_run G c q w =
     st_bind (run_tool G c w) (\<lambda>out w.
       case q of
         RunUnscored \<Rightarrow> (Inr (bypass_result c ALLOW (Some out) ''circuit_open_fail_open''),
           on_metrics (record_action (response_tier_value ALLOW)) w)
       | RunScored b tier \<Rightarrow> (Inr (scored_result c b tier (Some out) None), w))"

text \<open>The three steps without an interruption are the call.\<close>

definition after_scoring ::
    "('s, 'b) guardrails \<Rightarrow> call_times \<Rightarrow> call_request \<Rightarrow> scoring_bundle result \<Rightarrow> ('s, 'b) world
       \<Rightarrow> interception_result result \<times> ('s, 'b) world" where
  "after_scoring G T c r w =
     st_bind (intercept_log G T c r w) (\<lambda>p w. case p of Answer x \<Rightarrow> (Inr x, w) | ToRun q \<Rightarrow> intercept_run G c q w)"

lemma st_bind_assoc: "st_bind (st_bind x f) g = st_bind x (\<lambda>a w. st_bind (f a w) g)"
  by (cases x; cases "fst x") (auto simp: st_bind_def)

lemma log_then_run:
  "st_bind (log_open G c w) (\<lambda>p w. case p of Answer x \<Rightarrow> (Inr x, w) | ToRun q \<Rightarrow> intercept_run G c q w)
     = intercept_open G c w"
  "st_bind (log_respond G rid t c b tier w) (\<lambda>p w. case p of Answer x \<Rightarrow> (Inr x, w) | ToRun q \<Rightarrow> intercept_run G c q w)
     = intercept_respond G rid t c b tier w"
  by (simp_all add: log_open_def log_respond_def intercept_open_def intercept_respond_def intercept_run_def Let_def
      st_bind_assoc split_beta)

lemma after_scoring_eq:
  "after_scoring G T c r w =
     (case r of
        Inl e \<Rightarrow> if e = CircuitOpenError then intercept_open G c w else (Inl e, w)
      | Inr scoring \<Rightarrow> intercept_scored G (ct_request_id T) (ct_submit T) c scoring w)"
  by (cases r) (auto simp: after_scoring_def intercept_log_def log_then_run log_scored_def intercept_scored_def Let_def
      split: sum.splits)

lemma intercept_in_three_steps:
  "intercept_and_call G T c w
     = (case intercept_begin G T c w of (r, w') \<Rightarrow> after_scoring G T c r w')"
  by (auto simp: intercept_and_call_def intercept_begin_def after_scoring_eq Let_def
      split: prod.splits sum.splits exn.splits)

datatype call_flight =
    Waiting
  | Scored "scoring_bundle result"
  | Logged to_run
  | Answered "interception_result result"

record ('s, 'b) flights =
  fl_world :: "('s, 'b) world"
  fl_phase :: "nat \<Rightarrow> call_flight"

fun phase_of :: "progress result \<Rightarrow> call_flight" where
  "phase_of (Inl e) = Answered (Inl e)"
| "phase_of (Inr (Answer x)) = Answered (Inr x)"
| "phase_of (Inr (ToRun q)) = Logged q"

definition flight_step ::
    "('s, 'b) guardrails \<Rightarrow> (nat \<Rightarrow> call_times \<times> call_request) \<Rightarrow> nat \<Rightarrow> ('s, 'b) flights \<Rightarrow> ('s, 'b) flights" where
  "flight_step G R i F =
     (let (T, c) = R i in
      case fl_phase F i of
        Waiting \<Rightarrow> (let (r, w) = intercept_begin G T c (fl_world F)
          in \<lparr>fl_world = w, fl_phase = (fl_phase F)(i := Scored r)\<rparr>)
      | Scored r \<Rightarrow> (let (p, w) = intercept_log G T c r (fl_world F)
          in \<lparr>fl_world = w, fl_phase = (fl_phase F)(i := phase_of p)\<rparr>)
      | Logged q \<Rightarrow> (let (x, w) = intercept_run G c q (fl_world F)
          in \<lparr>fl_world = w, fl_phase = (fl_phase F)(i := Answered x)\<rparr>)
      | Answered x \<Rightarrow> F)"

definition flight_run ::
    "('s, 'b) guardrails \<Rightarrow> (nat \<Rightarrow> call_times \<times> call_request) \<Rightarrow> nat list \<Rightarrow> ('s, 'b) flights \<Rightarrow> ('s, 'b) flights" where
  "flight_run G R schedule = fold (flight_step G R) schedule"

definition flights_start :: "('s, 'b) world \<Rightarrow> ('s, 'b) flights" where
  "flights_start w = \<lparr>fl_world = w, fl_phase = (\<lambda>_. Waiting)\<rparr>"

definition finish_each :: "nat \<Rightarrow> nat list" where
  "finish_each n = concat (map (\<lambda>i. [i, i]) [0..<n])"

lemma finish_each_simps [simp]:
  "finish_each 0 = []"
  "finish_each (Suc n) = finish_each n @ [n, n]"
  by (simp_all add: finish_each_def)

lemma flight_run_simps [simp]:
  "flight_run G R [] F = F"
  "flight_run G R (i # is) F = flight_run G R is (flight_step G R i F)"
  "flight_run G R (is @ js) F = flight_run G R js (flight_run G R is F)"
  by (simp_all add: flight_run_def)

text \<open>
  What holds between the steps: the new attempts logged as allowed are what ran since and what the
  calls between their log entry and their run are about to run.
\<close>

definition about_to_run :: "('s, 'b) flights \<Rightarrow> nat set" where
  "about_to_run F = {i. \<exists>q. fl_phase F i = Logged q}"

definition audited ::
    "('s \<Rightarrow> bool) \<Rightarrow> ('s \<Rightarrow> attempt_log) \<Rightarrow> ('s, 'b) guardrails \<Rightarrow> (nat \<Rightarrow> call_times \<times> call_request) \<Rightarrow> string \<Rightarrow> ('s, 'b) world \<Rightarrow> ('s, 'b) flights \<Rightarrow> bool" where
  "audited good lg G R sid w F \<longleftrightarrow> good (w_store (fl_world F)) \<and> finite (about_to_run F)
     \<and> (\<forall>i \<in> about_to_run F. \<exists>reg. tier_get (cr_tool_name (snd (R i))) (gr_tiers G) = Inr reg)
     \<and> (\<exists>new ran_calls. lg (w_store (fl_world F)) sid = lg (w_store w) sid @ new
          \<and> w_executed (fl_world F) = w_executed w @ ran_calls
          \<and> mset (allowed_calls new) = mset ran_calls
              + image_mset (\<lambda>i. (cr_tool_name (snd (R i)), cr_params (snd (R i)))) (mset_set (about_to_run F)))"

subsection \<open>Each step in the interface of the interception layer\<close>

context interception
begin

lemma begin_keeps:
  assumes "intercept_begin G T c w = (r, w')"
  shows "w_store w' = w_store w" "w_executed w' = w_executed w"
  using assms world_kept [of "wrapped_scoring G c" "ct_check T" "ct_trip T" "w_breaker w" "w_store w"]
  by (auto simp: intercept_begin_def wrapped_scoring_def split: prod.splits)

lemma begin_scored:
  assumes "\<not> open_at (ct_check T) (w_breaker w)" "run_scoring G c (w_store w) = Inr b"
  obtains br where "intercept_begin G T c w = (Inr b, w\<lparr>w_breaker := br\<rparr>)" "\<And>u. \<not> open_at u br"
proof -
  have fn: "wrapped_scoring G c (w_store w) = (Inr b, w_store w)" by (simp add: wrapped_scoring_def assms(2))
  obtain br where "gr_breaker_call G (ct_check T) (ct_trip T) (wrapped_scoring G c) (w_breaker w, w_store w)
      = (Inr b, br, w_store w)"
    using runs [of "ct_check T" "w_breaker w" "wrapped_scoring G c" "w_store w", OF assms(1) fn, of "ct_trip T"] by blast
  with closes [of "ct_check T" "w_breaker w" "wrapped_scoring G c" "w_store w", OF assms(1) fn] that show thesis by (simp add: intercept_begin_def)
qed

lemma log_effects:
  assumes "good (w_store w)" "intercept_log G T c r w = (p, w')"
  shows "good (w_store w')" "w_executed w' = w_executed w"
    "(\<exists>q. p = Inr (ToRun q)) \<longrightarrow> (\<exists>reg. tier_get (cr_tool_name c) (gr_tiers G) = Inr reg)"
    "\<exists>new. lg (w_store w') (cr_session_id c) = lg (w_store w) (cr_session_id c) @ new
      \<and> (\<forall>sid. sid \<noteq> cr_session_id c \<longrightarrow> lg (w_store w') sid = lg (w_store w) sid)
      \<and> allowed_calls new = (if \<exists>q. p = Inr (ToRun q) then [(cr_tool_name c, cr_params c)] else [])"
proof -
  have one: "good (w_store w') \<and> w_executed w' = w_executed v \<and> lg (w_store w')
        = log_append (cr_session_id c) (call_attempt (call_record c) out d) (lg (w_store v)) \<and> p = p'"
    if "st_bind (log_attempt G c out d v) (\<lambda>_ w. (p', on_metrics f w)) = (p, w')" "good (w_store v)" "detail_ok d"
    for out d v p' f
    by (rule log_attempt_good [OF that(2,3), of c out]) (use that(1) in auto)
  note logs = one [where f = "\<lambda>m. m", unfolded on_metrics_def, simplified]
  define kind where "kind = (if \<exists>q. p = Inr (ToRun q) then ALLOWED else BLOCKED)"
  have "good (w_store w') \<and> w_executed w' = w_executed w
    \<and> ((\<exists>q. p = Inr (ToRun q)) \<longrightarrow> (\<exists>reg. tier_get (cr_tool_name c) (gr_tiers G) = Inr reg))
    \<and> (lg (w_store w') = lg (w_store w) \<and> (\<forall>q. p \<noteq> Inr (ToRun q))
       \<or> (\<exists>out d. lg (w_store w') = log_append (cr_session_id c) (call_attempt (call_record c) out d) (lg (w_store w))
            \<and> (out = ALLOWED \<longleftrightarrow> (\<exists>q. p = Inr (ToRun q)))))"
    (is "?P")
  proof (cases r)
    case (Inl e)
    show ?thesis
    proof (cases "e = CircuitOpenError")
      case True
      let ?w = "on_metrics (record_circuit_breaker_state BREAKER_NAME True) w"
      show ?thesis
      proof (cases "fail_policy_for (gr_tiers G) (cr_tool_name c)")
        case FAIL_OPEN
        then have "\<exists>reg. tier_get (cr_tool_name c) (gr_tiers G) = Inr reg"
          by (auto simp: fail_policy_for_def split: sum.splits exn.splits)
        with logs [of ALLOWED None ?w "Inr (ToRun RunUnscored)"] assms Inl True FAIL_OPEN show ?thesis
          by (auto simp: intercept_log_def log_open_def Let_def detail_ok_def)
      next
        case FAIL_CLOSED
        with one [of BLOCKED None ?w "Inr (Answer (bypass_result c BLOCK None ''circuit_open_fail_closed''))"
            "record_action (response_tier_value BLOCK)"] assms Inl True show ?thesis
          by (auto simp: intercept_log_def log_open_def Let_def detail_ok_def)
      qed
    qed (use Inl assms in \<open>auto simp: intercept_log_def\<close>)
  next
    case (Inr b)
    show ?thesis
    proof (cases "tier_get (cr_tool_name c) (gr_tiers G)")
      case (Inl e)
      with Inr assms show ?thesis by (auto simp: intercept_log_def log_scored_def Let_def)
    next
      case reg: (Inr reg)
      let ?tier = "decide_response_tier (flagged_detector_count b) (tr_tier reg)"
      let ?w = "on_metrics (record_action (response_tier_value ?tier)) (on_metrics (record_flag_metrics b)
          (on_metrics (record_circuit_breaker_state BREAKER_NAME False) w))"
      let ?d = "Some (JDict (scoring_to_dict b))"
      have w: "log_respond G (ct_request_id T) (ct_submit T) c b ?tier ?w = (p, w')" "good (w_store ?w)" "detail_ok ?d"
        using assms Inr reg by (simp_all add: intercept_log_def log_scored_def Let_def detail_ok_def)
      show ?thesis
      proof (cases "cr_shadow_mode c \<or> executes ?tier")
        case True
        then have "st_bind (log_attempt G c ALLOWED ?d ?w) (\<lambda>_ w. (Inr (ToRun (RunScored b ?tier)), w)) = (p, w')"
          using w(1) by (auto simp: log_respond_def executes_def split: if_splits)
        with logs [OF this w(2,3)] reg show ?thesis by auto
      next
        case stop: False
        show ?thesis
        proof (cases "?tier = BLOCK")
          case True
          then have "st_bind (log_attempt G c BLOCKED ?d ?w) (\<lambda>_ w. (Inr (Answer (scored_result c b ?tier None None)), w)) = (p, w')"
            using w(1) stop by (auto simp: log_respond_def split: if_splits)
          with logs [OF this w(2,3)] show ?thesis by auto
        next
          case False
          with stop have tier: "?tier = REQUIRE_APPROVAL" by (cases ?tier) (auto simp: executes_def)
          then obtain v d where "st_bind (log_attempt G c PENDING_APPROVAL (Some (JDict d)) v)
              (\<lambda>_ w. (Inr (Answer (scored_result c b ?tier None (Some (ct_request_id T)))), w)) = (p, w')"
            "w_store v = w_store w" "w_executed v = w_executed w"
            using w(1) stop by (auto simp: log_respond_def aq_submit_eq Let_def)
          with logs [OF this(1)] assms(1) show ?thesis by (auto simp: detail_ok_def)
        qed
      qed
    qed
  qed
  then show "good (w_store w')" "w_executed w' = w_executed w"
    "(\<exists>q. p = Inr (ToRun q)) \<longrightarrow> (\<exists>reg. tier_get (cr_tool_name c) (gr_tiers G) = Inr reg)"
    "\<exists>new. lg (w_store w') (cr_session_id c) = lg (w_store w) (cr_session_id c) @ new
      \<and> (\<forall>sid. sid \<noteq> cr_session_id c \<longrightarrow> lg (w_store w') sid = lg (w_store w) sid)
      \<and> allowed_calls new = (if \<exists>q. p = Inr (ToRun q) then [(cr_tool_name c, cr_params c)] else [])"
    by (auto simp: allowed_calls_def call_attempt_def)
qed

lemma run_effects:
  assumes "guardrails_ok G" "tier_get (cr_tool_name c) (gr_tiers G) = Inr reg" "intercept_run G c q w = (x, w')"
  shows "w_store w' = w_store w" "w_executed w' = w_executed w @ [(cr_tool_name c, cr_params c)]"
proof -
  have "snd (tool_run G c w) = w_executed w @ [(cr_tool_name c, cr_params c)]"
    using assms(1,2) by (simp add: guardrails_ok_def tool_run_def ft_call_complete)
  with assms(3) show "w_store w' = w_store w" "w_executed w' = w_executed w @ [(cr_tool_name c, cr_params c)]"
    by (cases "fst (tool_run G c w)"; cases q; auto simp: intercept_run_def run_tool_eq)+
qed

lemma finish_effects:
  assumes "good (w_store w)" "after_scoring G T c r w = (x, w')"
  shows "good (w_store w') \<and> decision_effects lg G T c (decision_of (gr_tiers G) c r) w x w'"
proof (cases r)
  case (Inr b)
  with assms intercept_scored_effects [of w T c b x w'] show ?thesis by (simp add: after_scoring_eq)
next
  case (Inl e)
  show ?thesis
  proof (cases "e = CircuitOpenError")
    case True
    with Inl assms intercept_open_effects [of w c x w' T] show ?thesis
      by (simp add: after_scoring_eq decision_of_def)
  next
    case False
    with Inl assms show ?thesis
      by (auto simp: after_scoring_eq decision_of_def decision_effects_def)
  qed
qed

lemma two_steps:
  assumes "R i = (T, c)" "fl_phase F i = Scored r" "after_scoring G T c r (fl_world F) = (x, w)"
  shows "flight_run G R [i, i] F = \<lparr>fl_world = w, fl_phase = (fl_phase F)(i := Answered x)\<rparr>"
  using assms
  by (auto simp: flight_step_def after_scoring_def st_bind_def split: prod.splits sum.splits progress.splits)

lemma audited_step:
  assumes "guardrails_ok G" "\<And>i. cr_session_id (snd (R i)) = sid" and I: "audited good lg G R sid w F"
  shows "audited good lg G R sid w (flight_step G R i F)"
proof -
  obtain T c where R: "R i = (T, c)" by fastforce
  with assms(2) [of i] have sid: "cr_session_id c = sid" by simp
  let ?A = "about_to_run F" and ?f = "\<lambda>i. (cr_tool_name (snd (R i)), cr_params (snd (R i)))"
  from I obtain new ex where I': "good (w_store (fl_world F))" "finite ?A"
    "\<forall>i \<in> ?A. \<exists>reg. tier_get (cr_tool_name (snd (R i))) (gr_tiers G) = Inr reg"
    "lg (w_store (fl_world F)) sid = lg (w_store w) sid @ new" "w_executed (fl_world F) = w_executed w @ ex"
    "mset (allowed_calls new) = mset ex + image_mset ?f (mset_set ?A)"
    by (auto simp: audited_def)
  show ?thesis
  proof (cases "fl_phase F i")
    case Waiting
    obtain r v where b: "intercept_begin G T c (fl_world F) = (r, v)" by fastforce
    let ?F = "\<lparr>fl_world = v, fl_phase = (fl_phase F)(i := Scored r)\<rparr>"
    have F: "flight_step G R i F = ?F" using Waiting R b by (simp add: flight_step_def)
    have "about_to_run ?F = ?A" using Waiting by (auto simp: about_to_run_def)
    with I' begin_keeps [OF b] show ?thesis unfolding F by (auto simp: audited_def)
  next
    case (Scored r)
    obtain p v where l: "intercept_log G T c r (fl_world F) = (p, v)" by fastforce
    let ?F = "\<lparr>fl_world = v, fl_phase = (fl_phase F)(i := phase_of p)\<rparr>"
    have F: "flight_step G R i F = ?F" using Scored R l by (simp add: flight_step_def)
    note e = log_effects [OF I'(1) l]
    obtain more where more: "lg (w_store v) sid = lg (w_store (fl_world F)) sid @ more"
      "allowed_calls more = (if \<exists>q. p = Inr (ToRun q) then [?f i] else [])"
      using e(4) by (auto simp: R sid)
    have i: "i \<notin> ?A" using Scored by (simp add: about_to_run_def)
    have A: "about_to_run ?F = (if \<exists>q. p = Inr (ToRun q) then insert i ?A else ?A)"
      using i by (cases p rule: phase_of.cases) (auto simp: about_to_run_def)
    have "lg (w_store v) sid = lg (w_store w) sid @ (new @ more)" using more(1) I'(4) by simp
    moreover have "w_executed v = w_executed w @ ex" using e(2) I'(5) by simp
    moreover have "mset (allowed_calls (new @ more)) = mset ex + image_mset ?f (mset_set (about_to_run ?F))"
      using more(2) I'(2,6) i by (simp add: A)
    moreover have "\<forall>i \<in> about_to_run ?F. \<exists>reg. tier_get (cr_tool_name (snd (R i))) (gr_tiers G) = Inr reg"
      using e(3) I'(3) by (auto simp: A R)
    ultimately show ?thesis unfolding F using e(1) I'(2) A by (auto simp: audited_def)
  next
    case (Logged q)
    then have i: "i \<in> ?A" by (simp add: about_to_run_def)
    then obtain reg where reg: "tier_get (cr_tool_name c) (gr_tiers G) = Inr reg" using I'(3) R by fastforce
    obtain x v where l: "intercept_run G c q (fl_world F) = (x, v)" by fastforce
    let ?F = "\<lparr>fl_world = v, fl_phase = (fl_phase F)(i := Answered x)\<rparr>"
    have F: "flight_step G R i F = ?F" using Logged R l by (simp add: flight_step_def)
    have A: "about_to_run ?F = ?A - {i}" by (auto simp: about_to_run_def)
    note e = run_effects [OF assms(1) reg l]
    have "mset_set ?A = add_mset i (mset_set (?A - {i}))" using I'(2) i by (simp add: mset_set.remove)
    then have "mset (allowed_calls new) = mset (ex @ [?f i]) + image_mset ?f (mset_set (about_to_run ?F))"
      using I'(6) by (simp add: A)
    moreover have "w_executed v = w_executed w @ (ex @ [?f i])" using e(2) I'(5) by (simp add: R)
    ultimately show ?thesis unfolding F using e(1) I'(1-4) A by (auto simp: audited_def)
  next
    case (Answered x)
    then have "flight_step G R i F = F" using R by (simp add: flight_step_def)
    with I show ?thesis by simp
  qed
qed

lemma audited_run:
  assumes "guardrails_ok G" "\<And>i. cr_session_id (snd (R i)) = sid"
  shows "audited good lg G R sid w F \<Longrightarrow> audited good lg G R sid w (flight_run G R is F)"
  using audited_step [OF assms] by (induction "is" arbitrary: F) auto

lemma audited_start: "good (w_store w) \<Longrightarrow> audited good lg G R sid w (flights_start w)"
  by (auto simp: audited_def flights_start_def about_to_run_def allowed_calls_def intro!: exI [of _ "[]"])

text \<open>Two calls that are both logged can run in either order, whatever the order of their log entries.\<close>

lemma runs_in_either_order:
  assumes "guardrails_ok G" "audited good lg G R sid w F" "i \<in> about_to_run F" "j \<in> about_to_run F" "i \<noteq> j"
  shows "w_store (fl_world (flight_run G R [j, i] F)) = w_store (fl_world F)"
    "w_executed (fl_world (flight_run G R [j, i] F)) = w_executed (fl_world F)
       @ [(cr_tool_name (snd (R j)), cr_params (snd (R j))), (cr_tool_name (snd (R i)), cr_params (snd (R i)))]"
proof -
  obtain Ti ci Tj cj where R: "R i = (Ti, ci)" "R j = (Tj, cj)" by (cases "R i"; cases "R j")
  obtain qi qj where q: "fl_phase F i = Logged qi" "fl_phase F j = Logged qj" using assms(3,4) by (auto simp: about_to_run_def)
  obtain ri rj where reg: "tier_get (cr_tool_name ci) (gr_tiers G) = Inr ri" "tier_get (cr_tool_name cj) (gr_tiers G) = Inr rj"
    using assms(2-4) R unfolding audited_def by fastforce
  obtain x v where v: "intercept_run G cj qj (fl_world F) = (x, v)" by fastforce
  obtain y u where u: "intercept_run G ci qi v = (y, u)" by fastforce
  from run_effects [OF assms(1) reg(2) v] run_effects [OF assms(1) reg(1) u]
  show "w_store (fl_world (flight_run G R [j, i] F)) = w_store (fl_world F)"
    "w_executed (fl_world (flight_run G R [j, i] F)) = w_executed (fl_world F)
       @ [(cr_tool_name (snd (R j)), cr_params (snd (R j))), (cr_tool_name (snd (R i)), cr_params (snd (R i)))]"
    using R q v u assms(5) by (simp_all add: flight_step_def)
qed

text \<open>A burst: the calls \<open>0, \<dots>, n - 1\<close> are all scored, and then one after the other logged and run.\<close>

lemma burst_scored:
  assumes "\<And>i. i < n \<Longrightarrow> snd (R i) = c" "run_scoring G c (w_store w) = Inr b"
    and "\<And>i. i < n \<Longrightarrow> \<not> open_at (ct_check (fst (R i))) (w_breaker w)"
  shows "k \<le> n \<Longrightarrow> \<exists>br. flight_run G R [0..<k] (flights_start w)
      = \<lparr>fl_world = w\<lparr>w_breaker := br\<rparr>, fl_phase = (\<lambda>i. if i < k then Scored (Inr b) else Waiting)\<rparr>
    \<and> (\<forall>i < n. \<not> open_at (ct_check (fst (R i))) br)"
proof (induction k)
  case 0
  from assms(3) show ?case by (intro exI [of _ "w_breaker w"]) (simp add: flights_start_def)
next
  case (Suc k)
  then obtain br where br: "flight_run G R [0..<k] (flights_start w)
      = \<lparr>fl_world = w\<lparr>w_breaker := br\<rparr>, fl_phase = (\<lambda>i. if i < k then Scored (Inr b) else Waiting)\<rparr>"
    "\<not> open_at (ct_check (fst (R k))) br" by auto
  obtain T where R: "R k = (T, c)" using assms(1) [of k] Suc.prems by (cases "R k") auto
  obtain br' where "intercept_begin G T c (w\<lparr>w_breaker := br\<rparr>) = (Inr b, w\<lparr>w_breaker := br'\<rparr>)" "\<And>u. \<not> open_at u br'"
    using begin_scored [of T "w\<lparr>w_breaker := br\<rparr>" c b] br(2) assms(2) R by auto
  with br(1) R show ?case
    by (intro exI [of _ br']) (auto simp: flight_step_def fun_eq_iff)
qed

lemma finish_runs:
  assumes "good (w_store w)" "guardrails_ok G" "flagged_detector_count b = 0"
    and "tier_get (cr_tool_name c) (gr_tiers G) = Inr reg" "after_scoring G T c (Inr b) w = (x, w')"
  shows "good (w_store w')" "w_executed w' = w_executed w @ [(cr_tool_name c, cr_params c)]"
    "\<exists>d. lg (w_store w') (cr_session_id c) = lg (w_store w) (cr_session_id c) @ [call_attempt (call_record c) ALLOWED d]"
proof -
  have d: "decision_of (gr_tiers G) c (Inr b) = Respond b ALLOW"
    using assms(3,4) by (simp add: decision_of_def decide_response_tier_def)
  have "snd (tool_run G c w) = w_executed w @ [(cr_tool_name c, cr_params c)]"
    using assms(2,4) by (simp add: guardrails_ok_def tool_run_def ft_call_complete)
  with finish_effects [OF assms(1,5)] d
  show "good (w_store w')" "w_executed w' = w_executed w @ [(cr_tool_name c, cr_params c)]"
    "\<exists>d. lg (w_store w') (cr_session_id c) = lg (w_store w) (cr_session_id c) @ [call_attempt (call_record c) ALLOWED d]"
    by (auto simp: decision_effects_def executes_def)
qed

lemma burst_finished:
  assumes "\<And>i. i < n \<Longrightarrow> snd (R i) = c" "\<And>i. i < n \<Longrightarrow> fl_phase F i = Scored (Inr b)"
    and "good (w_store (fl_world F))" "guardrails_ok G" "flagged_detector_count b = 0"
    and "tier_get (cr_tool_name c) (gr_tiers G) = Inr reg"
  shows "k \<le> n \<Longrightarrow> let F' = flight_run G R (finish_each k) F in
    good (w_store (fl_world F')) \<and> (\<forall>i. k \<le> i \<longrightarrow> fl_phase F' i = fl_phase F i)
    \<and> w_executed (fl_world F') = w_executed (fl_world F) @ replicate k (cr_tool_name c, cr_params c)
    \<and> (\<exists>new. lg (w_store (fl_world F')) (cr_session_id c) = lg (w_store (fl_world F)) (cr_session_id c) @ new
         \<and> length new = k \<and> (\<forall>a \<in> set new. ca_call a = call_record c \<and> ca_outcome a = ALLOWED))"
proof (induction k)
  case 0
  from assms(3) show ?case by simp
next
  case (Suc k)
  let ?F = "flight_run G R (finish_each k) F"
  from Suc obtain new where IH: "good (w_store (fl_world ?F))" "fl_phase ?F k = Scored (Inr b)"
    "\<forall>i. k \<le> i \<longrightarrow> fl_phase ?F i = fl_phase F i"
    "w_executed (fl_world ?F) = w_executed (fl_world F) @ replicate k (cr_tool_name c, cr_params c)"
    "lg (w_store (fl_world ?F)) (cr_session_id c) = lg (w_store (fl_world F)) (cr_session_id c) @ new"
    "length new = k" "\<forall>a \<in> set new. ca_call a = call_record c \<and> ca_outcome a = ALLOWED"
    using assms(2) [of k] by (auto simp: Let_def)
  obtain T where R: "R k = (T, c)" using assms(1) [of k] Suc.prems by (cases "R k") auto
  obtain x w where f: "after_scoring G T c (Inr b) (fl_world ?F) = (x, w)" by fastforce
  from finish_runs(3) [OF IH(1) assms(4-6) f] obtain d where d: "lg (w_store w) (cr_session_id c)
      = lg (w_store (fl_world ?F)) (cr_session_id c) @ [call_attempt (call_record c) ALLOWED d]" by blast
  have F': "flight_run G R (finish_each (Suc k)) F = \<lparr>fl_world = w, fl_phase = (fl_phase ?F)(k := Answered x)\<rparr>"
    using two_steps [of R k T c ?F "Inr b" x w] R IH(2) f by simp
  show ?case
    unfolding F' Let_def using finish_runs(1,2) [OF IH(1) assms(4-6) f] IH d
    by (auto simp: replicate_append_same call_attempt_def intro!: exI [of _ "new @ [call_attempt (call_record c) ALLOWED d]"])
qed

end

subsection \<open>What interleaving keeps and what it loses\<close>

text \<open>
  C7: the audit trail survives concurrency up to order: in whatever order the scoring, the logging
  and the run of the calls of a session are interleaved, the new attempts with the outcome allowed
  are, as a multiset, the tool calls that ran and those of the calls that are logged and about to
  run; so nothing runs that was not logged as allowed before, and when no call is in between, exactly
  what the log allows has run.
\<close>

theorem overlapping_calls_audited:
  assumes "interception G good lg open_at" "guardrails_ok G" "good (w_store w)"
    and "\<forall>i. cr_session_id (snd (R i)) = sid" "F = flight_run G R schedule (flights_start w)"
  shows "\<exists>new ran_calls. lg (w_store (fl_world F)) sid = lg (w_store w) sid @ new
    \<and> w_executed (fl_world F) = w_executed w @ ran_calls
    \<and> finite {i. \<exists>q. fl_phase F i = Logged q}
    \<and> mset (map (\<lambda>a. (tc_tool_name (ca_call a), tc_params (ca_call a))) (filter (\<lambda>a. ca_outcome a = ALLOWED) new))
        = mset ran_calls + image_mset (\<lambda>i. (cr_tool_name (snd (R i)), cr_params (snd (R i))))
            (mset_set {i. \<exists>q. fl_phase F i = Logged q})"
proof -
  have "audited good lg G R sid w F"
    unfolding assms(5)
    using interception.audited_run [OF assms(1,2), of R sid w "flights_start w" schedule]
      interception.audited_start [OF assms(1,3), of R sid] assms(4) by blast
  then show ?thesis
    unfolding audited_def about_to_run_def allowed_calls_def by blast
qed

text \<open>
  C8: the rate limit does not hold against a burst. When one call of a session would be allowed,
  \<open>n\<close> such calls that are all scored before the first is logged all run, for every \<open>n\<close>, although
  after six of them the next call that is scored is flagged.
\<close>

theorem burst_escapes_rate_limit:
  assumes "interception G good lg open_at" "guardrails_ok G" "good (w_store w)"
    and "\<forall>i < n. snd (R i) = c \<and> \<not> open_at (ct_check (fst (R i))) (w_breaker w)"
    and "run_scoring G c (w_store w) = Inr b" "flagged_detector_count b = 0"
    and "tier_get (cr_tool_name c) (gr_tiers G) = Inr reg"
    and "F = flight_run G R ([0..<n] @ finish_each n) (flights_start w)"
  shows "w_executed (fl_world F) = w_executed w @ replicate n (cr_tool_name c, cr_params c)
    \<and> (6 \<le> n \<longrightarrow> (\<forall>b'. run_scoring G c (w_store (fl_world F)) = Inr b' \<longrightarrow> 0 < flagged_detector_count b'))"
proof -
  let ?F1 = "flight_run G R [0..<n] (flights_start w)"
  obtain br where br: "?F1 = \<lparr>fl_world = w\<lparr>w_breaker := br\<rparr>, fl_phase = (\<lambda>i. if i < n then Scored (Inr b) else Waiting)\<rparr>"
    using interception.burst_scored [OF assms(1), of n R c w b n] assms(4,5) by blast
  have F: "F = flight_run G R (finish_each n) ?F1" by (simp add: assms(8))
  have "n \<le> n \<Longrightarrow> let F' = flight_run G R (finish_each n) ?F1 in
    good (w_store (fl_world F')) \<and> (\<forall>i. n \<le> i \<longrightarrow> fl_phase F' i = fl_phase ?F1 i)
    \<and> w_executed (fl_world F') = w_executed (fl_world ?F1) @ replicate n (cr_tool_name c, cr_params c)
    \<and> (\<exists>new. lg (w_store (fl_world F')) (cr_session_id c) = lg (w_store (fl_world ?F1)) (cr_session_id c) @ new
         \<and> length new = n \<and> (\<forall>a \<in> set new. ca_call a = call_record c \<and> ca_outcome a = ALLOWED))"
    by (rule interception.burst_finished [OF assms(1) _ _ _ assms(2,6,7)]) (use assms(3,4) br in auto)
  then obtain new where fin: "good (w_store (fl_world F))"
    "w_executed (fl_world F) = w_executed w @ replicate n (cr_tool_name c, cr_params c)"
    "lg (w_store (fl_world F)) (cr_session_id c) = lg (w_store w) (cr_session_id c) @ new"
    "length new = n" "\<forall>a \<in> set new. ca_call a = call_record c"
    unfolding F by (auto simp: Let_def br)
  have "0 < flagged_detector_count b'" if n: "6 \<le> n" and b': "run_scoring G c (w_store (fl_world F)) = Inr b'" for b'
  proof -
    have "same_tool (cr_tool_name c) new = new"
      using fin(5) by (simp add: same_tool_def)
    then have "6 \<le> length (same_tool (cr_tool_name c) (lg (w_store (fl_world F)) (cr_session_id c)))"
      using fin(3,4) n by (simp add: same_tool_def)
    then have "lr_is_flagged (sb_loop_rate b')"
      unfolding interception.scoring_parts(2) [OF assms(1) fin(1) b'] loop_rate_flagged_iff DEFAULT_RATE_THRESHOLD_def
      by simp
    then show ?thesis by (metis flagged_count_zero_iff neq0_conv)
  qed
  with fin(2) show ?thesis by blast
qed

subsection \<open>A burst on the deployed wiring\<close>

definition demo_read :: call_request where
  "demo_read = demo_request ''read_inbox'' [(''count'', ''3'')]"

lemma demo_read_plain: "params_plain (cr_params demo_read)"
  by (simp add: demo_read_def demo_request_def params_plain_def) code_simp

lemma demo_read_clean:
  "\<exists>b. run_scoring default_guardrails demo_read [] = Inr b \<and> flagged_detector_count b = 0"
proof -
  have schema: "\<exists>v. check_schema build_default_schema_registry ''read_inbox'' [(''count'', ''3'')] = Inr v \<and> \<not> is_violation v"
    by (simp add: check_schema_def schema_get_def default_schemas is_violation_def
        required_schema_def allowed_params_def dict_keys_def Let_def)
  have topic: "\<exists>d. check_param_divergence demo_task ''read_inbox'' [(''count'', ''3'')] FAKE_DIVERGENCE_THRESHOLD = Inr d
      \<and> \<not> pd_is_divergent d"
    by (simp add: check_param_divergence_def demo_task_def cosine_similarity_def FAKE_DIVERGENCE_THRESHOLD_def Let_def)
  have rate: "\<exists>r. check_tool_loop_rate memory_ops [] ''s'' ''read_inbox'' [(''count'', ''3'')] DEFAULT_RATE_THRESHOLD = Inr r
      \<and> \<not> lr_is_flagged r"
    by (simp add: mem.check_tool_loop_rate_log mem_log_def dict_get_or_def same_tool_def loop_rate_of_def lr_is_flagged_def
        DEFAULT_RATE_THRESHOLD_def Let_def)
  have out: "\<exists>r. check_exfiltration memory_ops [] ''s'' ''read_inbox'' [(''count'', ''3'')]
      DEFAULT_OUTBOUND_FREQUENCY_THRESHOLD DEFAULT_CONTENT_SIZE_THRESHOLD = Inr r \<and> \<not> ex_is_flagged r"
    by (simp add: check_exfiltration_def OUTBOUND_TOOLS_def ex_is_flagged_def)
  show ?thesis
    using plain_params_clean [OF demo_read_plain, of "cr_tool_name demo_read"] schema topic rate out
    by (auto simp: run_scoring_def default_guardrails_def mem.footprint mem_log_def dict_get_or_def Let_def
        flagged_count_zero_iff schema_flagged_def demo_read_def demo_request_def schema_or_none_def is_escalated_iff
        baseline_simps)
qed

text \<open>Ten overlapping reads of an inbox, where seven in a row are too many.\<close>

definition demo_burst :: "(memory_store, circuit_breaker) flights" where
  "demo_burst = flight_run default_guardrails (\<lambda>_. (demo_times, demo_read)) ([0..<10] @ finish_each 10) (flights_start demo_world)"

lemma demo_burst_allowed:
  obtains b reg where "run_scoring default_guardrails demo_read (w_store demo_world) = Inr b" "flagged_detector_count b = 0"
    "tier_get (cr_tool_name demo_read) (gr_tiers default_guardrails) = Inr reg"
    "\<forall>i < n. snd (demo_times, demo_read) = demo_read \<and> \<not> cb_open_at (ct_check (fst (demo_times, demo_read))) (w_breaker demo_world)"
proof -
  have "\<exists>reg. tier_get (cr_tool_name demo_read) (gr_tiers default_guardrails) = Inr reg"
    using default_tool_lookup(1)
    by (simp add: demo_read_def demo_request_def default_guardrails_def default_tier_get default_tier_def map_of_default)
  moreover have "\<not> cb_open_at (ct_check demo_times) (w_breaker demo_world)"
    by (simp add: demo_world_def cb_open_at_def cb_state_at_def cb_new_def)
  ultimately show thesis using demo_read_clean that by (auto simp: demo_world_def)
qed

theorem overlapping_calls_audited_witness:
  "\<exists>ran_calls. w_executed (fl_world demo_burst) = ran_calls
    \<and> mset (map (\<lambda>a. (tc_tool_name (ca_call a), tc_params (ca_call a)))
        (filter (\<lambda>a. ca_outcome a = ALLOWED) (mem_log (w_store (fl_world demo_burst)) ''s'')))
      = mset ran_calls + image_mset (\<lambda>i. (''read_inbox'', [(''count'', ''3'')]))
          (mset_set {i. \<exists>q. fl_phase demo_burst i = Logged q})"
  using overlapping_calls_audited [OF default_interception default_guardrails_ok _ _ demo_burst_def, of "''s''"]
  by (simp add: demo_read_def demo_request_def demo_world_def mem_log_def dict_get_or_def)

theorem burst_escapes_rate_limit_witness:
  "w_executed (fl_world demo_burst) = replicate 10 (''read_inbox'', [(''count'', ''3'')])"
proof -
  obtain b reg where d: "run_scoring default_guardrails demo_read (w_store demo_world) = Inr b" "flagged_detector_count b = 0"
    "tier_get (cr_tool_name demo_read) (gr_tiers default_guardrails) = Inr reg"
    "\<forall>i < (10 :: nat). snd (demo_times, demo_read) = demo_read
       \<and> \<not> cb_open_at (ct_check (fst (demo_times, demo_read))) (w_breaker demo_world)"
    by (rule demo_burst_allowed [where n = 10])
  from burst_escapes_rate_limit [OF default_interception default_guardrails_ok TrueI d(4,1,2,3) demo_burst_def]
  show ?thesis by (simp add: demo_world_def demo_read_def demo_request_def)
qed

end
