(* ===== verification/Spec2Isabelle.thy ===== *)
theory Spec2Isabelle
  imports Drift CommandLines TaskCompletion Endpoints ReportTypes Replicas SharedSessions Decisions Bursts
begin

section \<open>SIMULACRUM: a guardrail between an agent and its tools\<close>

text \<open>
  SIMULACRUM is a Python service that stands between a language-model agent and the tools it
  calls. An agent asks the service to make a call; the service scores the call with six
  detectors, decides how to respond, runs the tool or does not, and keeps a log of every attempt
  that the detectors of later calls read. This development models the whole of
  \<open>src/src/simulacrum/\<close> except what is named at the end, and proves what makes it correct.
  Paths below are relative to \<open>src/src/simulacrum/\<close>.

  The way of one call through the program, as \<open>api/app.py\<close> makes it: the handler finds the
  session's task, \<open>interception/interceptor.py\<close> has the circuit breaker run the scoring, which
  reads the session store, asks the detectors and the embedding of the task, and gives a bundle
  of findings; the tier engine turns the number of findings and the risk tier of the tool into a
  response; the call is logged in the store, and then runs, is blocked, or is put into the
  approval queue, where a user or an independent approver decides it. When the breaker is open
  nothing is scored and the risk tier of the tool alone decides. Beside this path a background
  task watches the sessions for goal drift, and the report and the explanations are made from
  the log, redacted. The rest of the program, \<open>attack_suite/\<close>, \<open>adversarial/\<close>,
  \<open>generalization_set/\<close>, \<open>evaluation/\<close> and \<open>drift/\<close>, is what the thresholds of the detectors
  come from and what watches that they stay valid.
\<close>

subsection \<open>Which theory models what\<close>

text \<open>
  Foundations.
  \<^item> \<^verbatim>\<open>Prelude\<close>: exceptions, the result of a call that may raise, dictionaries in insertion
    order, JSON values and their text, Python's string operations, \<open>frame_simps\<close> and \<open>inv_intros\<close>.
  \<^item> \<^verbatim>\<open>PyRegex\<close>, \<^verbatim>\<open>RegexClean\<close>: \<open>re.search\<close> and \<open>re.sub\<close> as a backtracking matcher, its
    declarative meaning, and what a substitution leaves behind.

  The guardrail.
  \<^item> \<^verbatim>\<open>Redaction\<close>: \<open>redaction/redactor.py\<close>. \<^verbatim>\<open>RiskTiers\<close>: \<open>risk_tiers/tiers.py\<close>.
    \<^verbatim>\<open>Observability\<close>: \<open>observability/metrics.py\<close>. \<^verbatim>\<open>Config\<close>: \<open>config/settings.py\<close>.
  \<^item> \<^verbatim>\<open>TierEngine\<close>: \<open>tier_engine/\<close>, the response tiers and the approval queue (\<open>aq_step\<close>, its
    invariant and what a decided request keeps).
  \<^item> \<^verbatim>\<open>CircuitBreaker\<close>: \<open>interception/circuit_breaker.py\<close> and \<open>redis_circuit_breaker.py\<close>, with
    the interface \<open>breaker_contract\<close>; the Redis breaker refines the in-memory one.
  \<^item> \<^verbatim>\<open>TaskSim\<close>: \<open>task_sim/\<close>, the tasks, their templates and the generated sessions.
  \<^item> \<^verbatim>\<open>SessionStore\<close>: \<open>session/store.py\<close> and \<open>session/redis_store.py\<close>, with the interface
    \<open>session_store\<close> over the log of attempts.
  \<^item> \<^verbatim>\<open>Embedding\<close>: \<open>attribution/embedding.py\<close> and \<open>real_embedder.py\<close>. \<^verbatim>\<open>Attribution\<close>: the call
    text, the sub-tasks, the boundary classifier, goal drift and the scheduler of \<open>attribution/\<close>.
  \<^item> \<^verbatim>\<open>Detectors\<close>: \<open>detectors/\<close> without \<^verbatim>\<open>ContentPattern\<close>, which has
    \<open>detectors/content_pattern.py\<close>.
  \<^item> \<^verbatim>\<open>FakeTools\<close>: \<open>interception/fake_tools.py\<close>. \<^verbatim>\<open>Interceptor\<close>: \<open>interception/interceptor.py\<close>,
    one definition per stage of \<open>intercept_and_call\<close>, in the interface \<open>interception\<close>, which
    joins a store and a breaker. \<^verbatim>\<open>Mediation\<close>: the properties of that function.
  \<^item> \<^verbatim>\<open>Investigation\<close>: \<open>explainability/explainer.py\<close> and \<open>investigation/report.py\<close>.
    \<^verbatim>\<open>ReportTypes\<close>: the type of the JSON that a report exports, \<open>report_type\<close>.
  \<^item> \<^verbatim>\<open>Api\<close>: \<open>api/state.py\<close> and the handlers of \<open>api/app.py\<close>. \<^verbatim>\<open>Background\<close>: the drift task
    between the requests. \<^verbatim>\<open>Endpoints\<close>: every handler answers.
  \<^item> Concurrency: \<^verbatim>\<open>Replicas\<close> has \<open>RedisCircuitBreaker.call\<close> one Redis command at a time
    (\<open>replica_step\<close>), \<^verbatim>\<open>SharedSessions\<close> has \<open>RedisSessionStore.append_attempt\<close> in the same way
    (\<open>shared_step\<close>), with replicas that end between two commands, \<^verbatim>\<open>Decisions\<close> has \<open>ApprovalQueue.decide\<close> one write at a time
    (\<open>decide_step\<close>), \<^verbatim>\<open>Bursts\<close> has \<open>intercept_and_call\<close> in three steps, the scoring, the entry in
    the log and the run of the tool (\<open>flight_step\<close>). Each shows
    that the steps of one caller alone make the atomic operation.

  Calibration and evaluation.
  \<^item> \<^verbatim>\<open>AttackSuite\<close>: \<open>attack_suite/\<close>. \<^verbatim>\<open>Adversarial\<close>: \<open>adversarial/\<close>. \<^verbatim>\<open>Generalization\<close>:
    \<open>generalization_set/\<close>.
  \<^item> \<^verbatim>\<open>Calibration\<close>: the sample floors, the calibration report and the manifest of \<open>evaluation/\<close>.
    \<^verbatim>\<open>Baselines\<close>: its baselines and comparisons. \<^verbatim>\<open>CommandLines\<close>: the commands that run them, as
    the lines they print and the exception that ends them; \<^verbatim>\<open>Floats\<close>: the doubles that they print
    and \<open>format\<close> of a double. \<^verbatim>\<open>TaskCompletion\<close>: its task completion
    report.
  \<^item> \<^verbatim>\<open>PlainText\<close>, \<^verbatim>\<open>NormalTraffic\<close>: why the parameters of generated sessions match no pattern of
    the content detector.
  \<^item> \<^verbatim>\<open>Drift\<close>: \<open>drift/\<close>, the stability index, the promotion gate and the version trigger.
\<close>

subsection \<open>How the code is modelled\<close>

text \<open>
  A class is a record of its attributes, an enum a datatype, a dictionary an association list in
  insertion order. A method that changes its object takes the old state and returns the new one
  beside its result; an exception is the left of a result, \<open>External\<close> any exception of code that
  is not part of the program. A handler's \<open>HTTPException\<close> keeps its status, not its text, and a
  \<open>ValueError\<close> nothing. Where operations of several callers interleave, the component is a step
  relation or a run over a list of events (\<open>aq_step\<close>, \<open>api_run\<close>, \<open>service_step\<close>), and its
  properties are of every reachable state. In these, one request, and one round of the background
  task, is one step. A round never yields to the event loop; the handlers, which FastAPI runs in a
  pool of threads, can be interrupted within a request, and the service can have several replicas.
  Where that matters, at the shared breaker, the shared session store, the approval queue and the session's log, the
  operation is modelled a second time in smaller steps, and a schedule, any list of callers, says
  who moves next. What is shown of the handlers as a whole (\<^verbatim>\<open>Api\<close>, \<^verbatim>\<open>Endpoints\<close>) is of requests
  that do not overlap.

  Parameters of the model, with what the code relies on as a hypothesis of that name:
  \<^item> the Redis server, a record of its commands; \<open>redis_lists_lawful\<close>, \<open>redis_ttl_lawful\<close> and
    \<open>redis_kv_lawful\<close> state what they are documented to do, expiry included. The server answers
    every command: an exception of the client, such as a lost connection, is not represented in
    the Redis store and the Redis breaker;
  \<^item> the language model behind a Groq client, a function of the prompt that may raise anything,
    about which nothing is assumed;
  \<^item> the sentence transformer, an embedder of which only \<open>Endpoints\<close> and \<open>TaskCompletion\<close> assume
    that it answers; the hash function, about which nothing is assumed;
  \<^item> Python's random generator; \<open>rng_lawful\<close> says that a draw is in the range asked for, and
    \<open>samples_fully\<close> that a sample has the size asked for;
  \<^item> every clock reading, every fresh identifier, the process environment, the files of a
    directory, and the text Python prints for a float.

  Numbers and text: a float is an exact real, so comparisons at a threshold are those of the
  exact values; one finding names where rounding matters. Where a command line prints a number it
  is rounded to the double that Python has (\<open>binary64\<close>), and the double is formatted; a rate and
  a difference of rates are the doubles of the program, while the Brier score and the mean onset
  fraction, sums of many terms, are rounded once at the end, so their last printed digit can
  differ. Integers are unbounded, as in Python; counts and positions in a list are natural
  numbers, the turn index of a request is an integer. A
  string is a list of code points below 256; the few long dashes of the program's own texts are
  written as their three UTF-8 bytes.

  Fuel and termination: the program's loops run over finite lists and are structural recursions
  here. The one fuel is in \<open>ends\<close>, which repeats a starred pattern: each repetition that counts
  consumes a character, so the length of the text is enough, and \<open>ends_iff_mat\<close> says that with
  it the matcher finds every match. The loop of the background task is meant to run forever; it is
  a step relation, and \<open>background_loop_survives\<close> shows that it does.
\<close>

subsection \<open>The interfaces\<close>

text \<open>
  \<open>session_store\<close> promises that an append adds one attempt at the end of its session's log and
  that the reading operations answer from that log. It is interpreted on the in-memory store
  (\<open>mem\<close>), and \<open>redis_store_contract\<close> proves it of the Redis store on every lawful server.
  \<open>breaker_contract\<close> promises that an open breaker refuses without calling, that a closed one
  calls once and that a success closes it; interpreted on the in-memory breaker (\<open>cb\<close>), proved of
  the Redis one through the refinement. \<open>interception\<close> extends both by the wiring of
  \<open>intercept_and_call\<close>; it is interpreted on the deployed default (\<open>dflt\<close>), and
  \<open>app_interception\<close> shows it of whatever \<open>AppState\<close> builds.
\<close>

subsection \<open>What is shown\<close>

text \<open>
  \<^item> Mediation: a tool runs only by a decision that lets it run, every completed call is in the
    log once with an outcome that agrees with what ran, whatever the order of calls; a session
    that has left its task's footprint never gets an unflagged call again; an irreversible tool
    that is flagged never runs outside shadow mode, and always goes to its tool in it; with an open
    circuit the fail policy decides.
  \<^item> The service: every request is answered by a result or a documented HTTP error; only a holder
    of the key decides as the independent approver; the approval queue and its gauges are
    consistent in every reachable state and decisions are final; the background task never ends
    by itself in the deployed wiring, and what happens when a detector does raise.
  \<^item> Concurrency: in every interleaving of calls the log agrees, up to order, with what ran and
    what is about to run; no failure of a replica is lost, and when all calls fail the shared
    breaker is open exactly until its timeout after the last time that was written; a call that
    no replica interrupts does what the atomic call does; a settled decision is final
    and no record is without its decider; replicas that append to the same sessions lose and
    reorder nothing. And what is lost: two calls can run in another order than the log has them, a success and a trip can cross, two decisions can leave a
    record that neither made, a burst of calls escapes the rate limit, and a session can expire,
    or keep no expiry at all, between the two commands of an append.
  \<^item> Text: after redaction none of the patterns matches anywhere, and the report that leaves the
    service is redacted in every parameter and reasoning, and has the type of a report.
  \<^item> Stores and breakers: both stores answer as the log, through JSON and expiry; the breaker's
    state is a function of the history of its calls.
  \<^item> Detection: generated sessions are never flagged, alone or through the whole interception
    layer, and every generated attack is flagged at its labelled call, on every store.
  \<^item> Calibration: one poisoned sample moves the min-margin threshold anywhere and the percentile
    threshold by a bounded number of order statistics; the stability index, the promotion gate,
    the reliability bins, and the agreement of the baselines that score the same trajectories; when
    the baseline command comes to its report, and that its printed rates tell the counts they are
    of; which call texts the structural test reads back.
\<close>

subsection \<open>Not modelled\<close>

text \<open>
  The parsing of command-line arguments by \<open>argparse\<close>, the Prometheus exposition and FastAPI's
  routing and validation, which are code of libraries; the package exports, which hold no code of
  their own; the tests, whose examples the properties state in general. The limits of what is
  modelled: whole handlers interleave only in the four places above, rounding of floats is left
  out of what is not printed, in the stability index above all, and so are code points beyond
  Latin-1 in the patterns of the detectors.
\<close>

section \<open>The two formats of a call\<close>

text \<open>
  The service writes a call as text for the drift detector (\<open>call_description\<close>); the structural
  test of the evaluation reads such text (\<open>parse_call\<close>). The two are in different parts of the
  program and nothing but the format ties them together.
\<close>

lemma call_description_str: "call_description c = call_str (tc_tool_name c) (tc_params c)"
  by (simp add: call_description_def call_str_def)

definition reply_call :: "string \<Rightarrow> tool_call" where
  "reply_call body =
     \<lparr>tc_tool_name = ''reply_to_email'', tc_params = [(''email_id'', ''42''), (''body'', body)], tc_turn_index = 2\<rparr>"

text \<open>
  C40: The structural test reads back the tool and the parameters, in order, of every call the
  service describes, when the tool's name holds no parenthesis and has no space around it, the
  keys are distinct, and no key or value holds a comma, a closing parenthesis or space around it,
  nor a key an equals sign. The condition on commas is needed: the first of the reply bodies that
  the generator of normal traffic draws is cut at its comma, and the rest of it is dropped.
\<close>

theorem parse_call_roundtrip:
  assumes "CHR ''('' \<notin> set (tc_tool_name c)" "strip is_space (tc_tool_name c) = tc_tool_name c"
    and "list_all plain_pair (tc_params c)" "distinct (map fst (tc_params c))"
  shows "parse_call (call_description c) = Inr (tc_tool_name c, tc_params c)
    \<and> parse_call (call_description (reply_call ''Acknowledged, will follow up.''))
        = Inr (''reply_to_email'', [(''email_id'', ''42''), (''body'', ''Acknowledged'')])"
proof
  show "parse_call (call_description c) = Inr (tc_tool_name c, tc_params c)"
    using assms unfolding call_description_str by (rule parse_call_str)
  show "parse_call (call_description (reply_call ''Acknowledged, will follow up.''))
      = Inr (''reply_to_email'', [(''email_id'', ''42''), (''body'', ''Acknowledged'')])"
    by code_simp
qed

theorem parse_call_roundtrip_witness:
  "parse_call (call_description (reply_call ''Acknowledged'')) =
     Inr (''reply_to_email'', [(''email_id'', ''42''), (''body'', ''Acknowledged'')])"
proof -
  let ?c = "reply_call ''Acknowledged''"
  have "parse_call (call_description ?c) = Inr (tc_tool_name ?c, tc_params ?c)"
    by (rule parse_call_roundtrip [THEN conjunct1]; code_simp)
  then show ?thesis by (simp add: reply_call_def)
qed

end
